(* ===== verification/Prelude.thy ===== *)
theory Prelude
  imports Main "HOL-Library.Word"
begin

text \<open>
  Shared vocabulary of the development: Rust's machine integers, the parts of
  \<^verbatim>\<open>core\<close> that the kernel uses (checked and saturating arithmetic, \<open>Result\<close>,
  iterator searches, UTF-8 validity), and the generic facts on fixed arrays of optional slots
  that every table of the kernel relies on.

  Conventions. A \<^verbatim>\<open>u8/u16/u32/u64/i32\<close> is a \<open>word\<close> of that width, so \<open>+\<close>
  wraps as it does in the release profile of the kernel. A \<^verbatim>\<open>usize\<close> that only ever
  indexes or counts the cells of a fixed array is a \<open>nat\<close>; where the code computes a
  \<^verbatim>\<open>usize\<close> from values it does not bound, the wrap-around is written out. A
  \<^verbatim>\<open>&str\<close> or byte slice is its list of bytes. \<^verbatim>\<open>Result<T, E>\<close> is
  \<open>E + T\<close>.
\<close>

unbundle bit_operations_syntax

section \<open>Rust integers, results and byte strings\<close>

type_synonym u8 = "8 word"
type_synonym u16 = "16 word"
type_synonym u32 = "32 word"
type_synonym u64 = "64 word"
type_synonym i32 = "32 word"
type_synonym i64 = "64 word"
type_synonym usize = nat
type_synonym bytes = "u8 list"
type_synonym ('a, 'e) result = "'e + 'a"

text \<open>Task, process and capability identifiers are 64-bit numbers.\<close>

type_synonym TaskId = u64
type_synonym Pid = u64
type_synonym CapabilityId = u64

abbreviation Ok :: "'a \<Rightarrow> ('a, 'e) result" where "Ok \<equiv> Inr"
abbreviation Err :: "'e \<Rightarrow> ('a, 'e) result" where "Err \<equiv> Inl"

named_theorems table_simps \<open>rewrite rules for fixed slot tables\<close>
named_theorems rust_defs \<open>definitions of the primitives of Rust's core library\<close>

definition checked_add :: "'w::len word \<Rightarrow> 'w word \<Rightarrow> 'w word option" where
  "checked_add a b = (if unat a + unat b < 2 ^ LENGTH('w) then Some (a + b) else None)"

definition checked_sub :: "'w::len word \<Rightarrow> 'w word \<Rightarrow> 'w word option" where
  "checked_sub a b = (if b \<le> a then Some (a - b) else None)"

definition checked_mul :: "'w::len word \<Rightarrow> 'w word \<Rightarrow> 'w word option" where
  "checked_mul a b = (if unat a * unat b < 2 ^ LENGTH('w) then Some (a * b) else None)"

definition is_power_of_two :: "'w::len word \<Rightarrow> bool" where
  "is_power_of_two w \<longleftrightarrow> w \<noteq> 0 \<and> w AND (w - 1) = 0"

definition saturating_add :: "'w::len word \<Rightarrow> 'w word \<Rightarrow> 'w word" where
  "saturating_add a b = (if unat a + unat b < 2 ^ LENGTH('w) then a + b else - 1)"

definition saturating_sub :: "'w::len word \<Rightarrow> 'w word \<Rightarrow> 'w word" where
  "saturating_sub a b = (if b \<le> a then a - b else 0)"

definition ok_or :: "'e \<Rightarrow> 'a option \<Rightarrow> ('a, 'e) result" where
  "ok_or e x = (case x of None \<Rightarrow> Err e | Some a \<Rightarrow> Ok a)"

definition is_ok :: "('a, 'e) result \<Rightarrow> bool" where
  "is_ok r = (case r of Inl _ \<Rightarrow> False | Inr _ \<Rightarrow> True)"

lemma checked_add_Some_iff:
  "checked_add a b = Some c \<longleftrightarrow> c = a + b \<and> unat c = unat a + unat b"
  for a b c :: "'w::len word"
proof
  assume "checked_add a b = Some c"
  then show "c = a + b \<and> unat c = unat a + unat b"
    by (auto simp: checked_add_def unat_add_lem split: if_splits)
next
  assume *: "c = a + b \<and> unat c = unat a + unat b"
  have "unat c < 2 ^ LENGTH('w)" by (rule unsigned_less)
  with * have "unat a + unat b < 2 ^ LENGTH('w)" by metis
  with * show "checked_add a b = Some c" by (simp add: checked_add_def)
qed

lemma checked_add_SomeD:
  "checked_add a b = Some c \<Longrightarrow> unat c = unat a + unat b" for a b c :: "'w::len word"
  by (rule conjunct2, rule iffD1 [OF checked_add_Some_iff])

lemma checked_add_None_iff:
  "checked_add a b = None \<longleftrightarrow> 2 ^ LENGTH('w) \<le> unat a + unat b"
  for a b :: "'w::len word"
  by (auto simp: checked_add_def)

lemma checked_add_0 [simp]: "checked_add a 0 = Some a"
  by (simp add: checked_add_Some_iff)

lemma checked_sub_Some_iff:
  "checked_sub a b = Some c \<longleftrightarrow> b \<le> a \<and> c = a - b"
  by (auto simp: checked_sub_def)

lemma unat_plus_one:
  "n \<noteq> - 1 \<Longrightarrow> unat (n + 1) = Suc (unat n)" for n :: "'w::len word"
proof -
  assume "n \<noteq> - 1"
  then have "1 + n \<noteq> 0" by (metis add.commute add_eq_0_iff)
  then show ?thesis using unatSuc [of n] by (simp add: add.commute)
qed

lemma neq_minus_1I: "unat n + 1 < 2 ^ LENGTH('w) \<Longrightarrow> n \<noteq> - 1" for n :: "'w::len word"
  by (auto simp: unsigned_minus_1_eq_mask mask_eq_exp_minus_1)

lemma less_plus_one_iff:
  "n \<noteq> - 1 \<Longrightarrow> m < n + 1 \<longleftrightarrow> m \<le> n" for n m :: "'w::len word"
  by (simp add: word_less_nat_alt word_le_nat_alt unat_plus_one less_Suc_eq_le)

lemma and_bit_eq_0_iff:
  "w AND push_bit n 1 = 0 \<longleftrightarrow> \<not> bit w n" if "n < LENGTH('w)" for w :: "'w::len word"
proof
  assume "w AND push_bit n 1 = 0"
  then have "bit (w AND push_bit n 1) n = bit (0 :: 'w word) n" by simp
  with that show "\<not> bit w n" by (simp add: bit_simps)
next
  assume "\<not> bit w n"
  then show "w AND push_bit n 1 = 0"
    by (intro bit_word_eqI) (auto simp: bit_simps)
qed

text \<open>The blocks of size \<open>k\<close> from that of \<open>s\<close> to that of \<open>s + l - 1\<close> are those of the bytes of the range.\<close>

lemma blocks_of_range:
  assumes "0 < (l :: nat)" "0 < (k :: nat)"
  shows "(\<forall>i < (s + l - 1) div k - s div k + 1. P (s div k + i)) \<longleftrightarrow>
         (\<forall>a. s \<le> a \<and> a < s + l \<longrightarrow> P (a div k))" (is "?L \<longleftrightarrow> ?R")
proof
  assume L: ?L
  show ?R
  proof (intro allI impI)
    fix a assume "s \<le> a \<and> a < s + l"
    then have "s div k \<le> a div k" "a div k \<le> (s + l - 1) div k" by (auto intro!: div_le_mono)
    with L [rule_format, of "a div k - s div k"] show "P (a div k)" by simp
  qed
next
  assume R: ?R
  show ?L
  proof (intro allI impI)
    fix i assume i: "i < (s + l - 1) div k - s div k + 1"
    let ?n = "s div k + i"
    have le: "s div k \<le> (s + l - 1) div k" using assms by (intro div_le_mono) simp
    have "?n * k \<le> (s + l - 1) div k * k" using i le by (intro mult_le_mono1) simp
    also have "\<dots> \<le> s + l - 1" by simp
    finally have lt: "max s (?n * k) < s + l" using assms by auto
    have "max s (?n * k) div k = ?n"
    proof (cases "s \<le> ?n * k")
      case True
      with assms show ?thesis by (simp add: max_def)
    next
      case False
      then have "?n * k div k \<le> s div k" by (intro div_le_mono) simp
      with assms False show ?thesis by (simp add: max_def)
    qed
    with R [rule_format, of "max s (?n * k)"] lt show "P ?n" by simp
  qed
qed

lemma ball_word_range:
  fixes start :: "'w::len word"
  assumes "n \<le> 2 ^ LENGTH('w)"
  shows "(\<forall>a. start \<le> a \<and> unat a < n \<longrightarrow> Q (unat a)) \<longleftrightarrow> (\<forall>m. unat start \<le> m \<and> m < n \<longrightarrow> Q m)"
proof -
  have "unat (of_nat m :: 'w word) = m" if "m < n" for m
    using that assms by (simp add: unat_of_nat)
  then show ?thesis by (metis word_le_nat_alt)
qed

section \<open>Iterator searches and optional slots\<close>

text \<open>
  \<open>position\<close> is \<^verbatim>\<open>Iterator::position\<close>, \<open>flatten\<close> is \<^verbatim>\<open>iter().flatten()\<close>
  over an array of options. The loops \<^verbatim>\<open>for slot in table.iter_mut() { if slot.is_none()
  { ...; return } }\<close> and \<^verbatim>\<open>if let Some(x) = slot { if p(x) { ...; return } }\<close>
  act on the index found by \<open>first_free\<close> and \<open>find_slot\<close>.
\<close>

fun position :: "('a \<Rightarrow> bool) \<Rightarrow> 'a list \<Rightarrow> nat option" where
  "position P [] = None"
| "position P (x # xs) = (if P x then Some 0 else map_option Suc (position P xs))"

fun flatten :: "'a option list \<Rightarrow> 'a list" where
  "flatten [] = []"
| "flatten (None # xs) = flatten xs"
| "flatten (Some x # xs) = x # flatten xs"

definition first_free :: "'a option list \<Rightarrow> nat option" where
  "first_free xs = position Option.is_none xs"

definition find_slot :: "('a \<Rightarrow> bool) \<Rightarrow> 'a option list \<Rightarrow> nat option" where
  "find_slot P xs = position (\<lambda>s. case s of None \<Rightarrow> False | Some x \<Rightarrow> P x) xs"

lemma position_SomeI:
  "k < length xs \<Longrightarrow> P (xs ! k) \<Longrightarrow> (\<And>j. j < k \<Longrightarrow> \<not> P (xs ! j)) \<Longrightarrow> position P xs = Some k"
proof (induction xs arbitrary: k)
  case (Cons x xs)
  show ?case
  proof (cases k)
    case 0
    with Cons.prems show ?thesis by simp
  next
    case (Suc m)
    have "\<not> P x" using Cons.prems(3) [of 0] Suc by simp
    moreover have "position P xs = Some m"
    proof (rule Cons.IH)
      show "m < length xs" "P (xs ! m)" using Cons.prems(1,2) Suc by simp_all
      show "\<And>j. j < m \<Longrightarrow> \<not> P (xs ! j)"
        using Cons.prems(3) Suc by (metis Suc_less_eq nth_Cons_Suc)
    qed
    ultimately show ?thesis using Suc by simp
  qed
qed simp

lemma position_SomeD:
  "position P xs = Some k \<Longrightarrow> k < length xs \<and> P (xs ! k) \<and> (\<forall>j < k. \<not> P (xs ! j))"
proof (induction xs arbitrary: k)
  case (Cons x xs)
  then show ?case
    by (fastforce split: if_splits simp: less_Suc_eq_0_disj)
qed simp

lemma position_Some_iff:
  "position P xs = Some k \<longleftrightarrow> k < length xs \<and> P (xs ! k) \<and> (\<forall>j < k. \<not> P (xs ! j))"
  using position_SomeD position_SomeI by blast

lemma position_None_iff: "position P xs = None \<longleftrightarrow> (\<forall>x \<in> set xs. \<not> P x)"
  by (induction xs) auto

lemma position_replicate:
  "position P (replicate n x) = (if n = 0 \<or> \<not> P x then None else Some 0)"
  by (induction n) auto

lemma position_cong: "(\<And>x. x \<in> set xs \<Longrightarrow> P x = Q x) \<Longrightarrow> position P xs = position Q xs"
  by (induction xs) auto

lemma set_flatten: "set (flatten xs) = {x. Some x \<in> set xs}"
  by (induction xs rule: flatten.induct) auto

lemma flatten_replicate_None [simp]: "flatten (replicate n None) = []"
  by (induction n) auto

lemma flatten_append: "flatten (xs @ ys) = flatten xs @ flatten ys"
  by (induction xs rule: flatten.induct) auto

lemma length_flatten_le: "length (flatten xs) \<le> length xs"
  by (induction xs rule: flatten.induct) auto

lemma in_flatten_iff: "x \<in> set (flatten xs) \<longleftrightarrow> (\<exists>k < length xs. xs ! k = Some x)"
  by (auto simp: set_flatten in_set_conv_nth)

lemma first_free_SomeD:
  "first_free xs = Some k \<Longrightarrow> k < length xs \<and> xs ! k = None"
  by (auto simp: first_free_def position_Some_iff Option.is_none_def)

lemma first_free_None_iff: "first_free xs = None \<longleftrightarrow> None \<notin> set xs"
  unfolding first_free_def position_None_iff by (metis Option.is_none_simps option.exhaust)

lemma first_free_replicate [simp]:
  "first_free (replicate n None) = (if n = 0 then None else Some 0)"
  by (simp add: first_free_def position_replicate)

lemma find_slot_SomeD:
  "find_slot P xs = Some k \<Longrightarrow> k < length xs \<and> (\<exists>x. xs ! k = Some x \<and> P x)"
  by (auto simp: find_slot_def position_Some_iff split: option.splits)

lemma find_slot_Some_iff:
  "find_slot P xs = Some k \<longleftrightarrow> k < length xs \<and> (\<exists>x. xs ! k = Some x \<and> P x) \<and>
     (\<forall>j < k. \<forall>y. xs ! j = Some y \<longrightarrow> \<not> P y)"
  by (auto simp: find_slot_def position_Some_iff split: option.splits)

lemma find_slot_None_iff: "find_slot P xs = None \<longleftrightarrow> (\<forall>x \<in> set (flatten xs). \<not> P x)"
  by (force simp: find_slot_def position_None_iff set_flatten split: option.splits)

lemma find_slot_replicate [simp]: "find_slot P (replicate n None) = None"
  by (simp add: find_slot_None_iff)

text \<open>The element \<^verbatim>\<open>iter().flatten().find(p)\<close> returns is the content of \<open>find_slot\<close>.\<close>

lemma find_flatten_find_slot:
  "List.find P (flatten xs) = (case find_slot P xs of None \<Rightarrow> None | Some k \<Rightarrow> xs ! k)"
proof (induction xs rule: flatten.induct)
  case (2 xs)
  then show ?case by (auto simp: find_slot_def split: option.splits)
next
  case (3 x xs)
  then show ?case by (auto simp: find_slot_def split: option.splits)
qed (simp add: find_slot_def)

text \<open>Filling a free slot adds one element, clearing a used one removes it.\<close>

lemma length_flatten_fill:
  "k < length xs \<Longrightarrow> xs ! k = None \<Longrightarrow> length (flatten (xs[k := Some x])) = Suc (length (flatten xs))"
proof (induction xs arbitrary: k)
  case (Cons y ys)
  then show ?case by (cases k; cases y) auto
qed simp

lemma length_flatten_clear:
  "k < length xs \<Longrightarrow> xs ! k = Some x \<Longrightarrow> Suc (length (flatten (xs[k := None]))) = length (flatten xs)"
proof (induction xs arbitrary: k)
  case (Cons y ys)
  then show ?case by (cases k; cases y) auto
qed simp

lemma length_flatten_replace:
  "k < length xs \<Longrightarrow> xs ! k = Some x \<Longrightarrow> length (flatten (xs[k := Some y])) = length (flatten xs)"
proof (induction xs arbitrary: k)
  case (Cons z zs)
  then show ?case by (cases k; cases z) auto
qed simp

lemma length_flatten_full: "None \<notin> set xs \<Longrightarrow> length (flatten xs) = length xs"
  by (induction xs rule: flatten.induct) auto

lemma first_free_iff_room: "first_free xs \<noteq> None \<longleftrightarrow> length (flatten xs) < length xs"
proof
  assume "first_free xs \<noteq> None"
  then obtain k where "first_free xs = Some k" by auto
  then have k: "k < length xs" "xs ! k = None" by (auto dest: first_free_SomeD)
  have "Suc (length (flatten xs)) \<le> length (xs[k := Some undefined])"
    using length_flatten_le [of "xs[k := Some undefined]"] length_flatten_fill [OF k] by metis
  then show "length (flatten xs) < length xs" by simp
next
  assume "length (flatten xs) < length xs"
  then show "first_free xs \<noteq> None"
    using length_flatten_full by (metis first_free_None_iff nat_neq_iff)
qed

text \<open>Symbolic evaluation of operations on a fresh table.\<close>

lemma replicate_update_0 [simp]:
  "0 < n \<Longrightarrow> (replicate n x)[0 := y] = y # replicate (n - 1) x"
  by (cases n) auto

lemma position_Cons_simps [simp]:
  "first_free (Some x # xs) = map_option Suc (first_free xs)"
  "first_free (None # xs) = Some 0"
  "find_slot P (Some x # xs) = (if P x then Some 0 else map_option Suc (find_slot P xs))"
  "find_slot P (None # xs) = map_option Suc (find_slot P xs)"
  by (simp_all add: first_free_def find_slot_def)

lemmas [table_simps] = nth_list_update set_flatten in_flatten_iff
  length_flatten_fill length_flatten_clear length_flatten_replace

lemma map_filter_total:
  "(\<And>x. x \<in> set xs \<Longrightarrow> f x = Some (g x)) \<Longrightarrow> List.map_filter f xs = map g xs"
  by (induction xs) (auto simp: List.map_filter_simps)

lemma take_rev_nth: "k \<le> length xs \<Longrightarrow> map (\<lambda>i. xs ! (length xs - 1 - i)) [0..<k] = take k (rev xs)"
  by (rule nth_equalityI) (auto simp: rev_nth)

lemma find_SomeD: "List.find P xs = Some x \<Longrightarrow> x \<in> set xs \<and> P x"
  by (induction xs) (auto split: if_splits)

lemma find_unique_by:
  assumes "distinct (map f xs)" "y \<in> f ` set xs"
  shows "\<exists>x. List.find (\<lambda>z. f z = y) xs = Some x \<and> f x = y \<and> filter (\<lambda>z. f z = y) xs = [x]"
  using assms
proof (induction xs)
  case (Cons a xs)
  show ?case
  proof (cases "f a = y")
    case True
    have "\<forall>z \<in> set xs. f z \<noteq> y" using Cons.prems(1) True by (auto simp: image_iff)
    then have "filter (\<lambda>z. f z = y) xs = []" by (simp add: filter_empty_conv)
    with True show ?thesis by simp
  next
    case False
    with Cons show ?thesis by auto
  qed
qed simp

section \<open>Byte strings\<close>

text \<open>Well-formed UTF-8 (the check of \<^verbatim>\<open>core::str::from_utf8\<close>).\<close>

definition utf8_cont :: "u8 \<Rightarrow> bool" where
  "utf8_cont b \<longleftrightarrow> 0x80 \<le> b \<and> b \<le> 0xBF"

fun utf8_valid :: "bytes \<Rightarrow> bool" where
  "utf8_valid [] = True"
| "utf8_valid (a # r) =
     (if a < 0x80 then utf8_valid r
      else if 0xC2 \<le> a \<and> a \<le> 0xDF then
        (case r of b # s \<Rightarrow> utf8_cont b \<and> utf8_valid s | _ \<Rightarrow> False)
      else if 0xE0 \<le> a \<and> a \<le> 0xEF then
        (case r of b # c # s \<Rightarrow>
           utf8_cont b \<and> utf8_cont c \<and> (a = 0xE0 \<longrightarrow> 0xA0 \<le> b) \<and> (a = 0xED \<longrightarrow> b \<le> 0x9F) \<and>
           utf8_valid s | _ \<Rightarrow> False)
      else if 0xF0 \<le> a \<and> a \<le> 0xF4 then
        (case r of b # c # d # s \<Rightarrow>
           utf8_cont b \<and> utf8_cont c \<and> utf8_cont d \<and> (a = 0xF0 \<longrightarrow> 0x90 \<le> b) \<and>
           (a = 0xF4 \<longrightarrow> b \<le> 0x8F) \<and> utf8_valid s | _ \<Rightarrow> False)
      else False)"

definition from_utf8_or :: "bytes \<Rightarrow> bytes \<Rightarrow> bytes" where
  "from_utf8_or dflt bs = (if utf8_valid bs then bs else dflt)"

declare utf8_valid.simps(2) [simp del]

lemma utf8_valid_ascii_Cons: "a < 0x80 \<Longrightarrow> utf8_valid (a # r) = utf8_valid r"
  by (subst utf8_valid.simps) simp

lemma ascii_utf8_valid: "\<forall>b \<in> set bs. b < 0x80 \<Longrightarrow> utf8_valid bs"
  by (induction bs) (simp_all add: utf8_valid_ascii_Cons)

text \<open>An ASCII literal as its bytes.\<close>

definition ascii :: "string \<Rightarrow> bytes" where
  "ascii s = map of_char s"

text \<open>
  \<^verbatim>\<open>let mut buf = [0u8; N]; let len = data.len().min(N); buf[..len].copy_from_slice(&data[..len])\<close>.
\<close>

definition fixed_buf :: "nat \<Rightarrow> bytes \<Rightarrow> bytes" where
  "fixed_buf n data = take n data @ replicate (n - length data) 0"

lemma length_fixed_buf [simp]: "length (fixed_buf n data) = n"
  by (auto simp: fixed_buf_def)

lemma take_fixed_buf [simp]: "m = min (length data) n \<Longrightarrow> take m (fixed_buf n data) = take n data"
  by (auto simp: fixed_buf_def min_def)

section \<open>Words without wrap-around\<close>

lemma unat_ucast_up:
  assumes "LENGTH('a) \<le> LENGTH('b)"
  shows "unat (ucast (x :: 'a::len word) :: 'b::len word) = unat x"
proof -
  have "unat x < 2 ^ LENGTH('a)" by (rule unsigned_less)
  also have "\<dots> \<le> 2 ^ LENGTH('b)" using assms by simp
  finally show ?thesis by (simp add: unsigned_ucast_eq take_bit_nat_eq_self)
qed

lemma unat_ucast_small: "unat x < 2 ^ LENGTH('b) \<Longrightarrow> unat (ucast (x :: 'a::len word) :: 'b::len word) = unat x"
  by (simp add: unsigned_ucast_eq take_bit_nat_eq_self)

lemma unat_add_no_wrap: "unat a + unat b < 2 ^ LENGTH('a) \<Longrightarrow> unat (a + b) = unat a + unat b" for a b :: "'a::len word"
  by (simp add: unat_word_ariths)

lemma checked_mul_SomeD: "checked_mul a b = Some c \<Longrightarrow> unat c = unat a * unat b" for a b c :: "'w::len word"
  by (auto simp: checked_mul_def unat_word_ariths split: if_splits)

end
