(* ===== verification/Slot_Table.thy ===== *)
theory Slot_Table
  imports Prelude
begin

text \<open>
  The interface the kernel's fixed tables share. Capabilities, processes, scheduler tasks,
  modules, brane sessions and sockets all live in a fixed array of optional slots; a new entry
  goes to the first free slot and carries the table's running identifier, an entry is found and
  removed by identifier. The locale \<open>id_table\<close> states that contract (\<open>id_table_del\<close> adds
  removal) and derives what clients rely on: identifiers stay unique, an entry just added is
  found, other entries are not disturbed, a removed entry is gone, and adding fails exactly on
  a full table.
\<close>

section \<open>Tables of identified entries\<close>

definition lookup_id :: "('a \<Rightarrow> 'i) \<Rightarrow> 'i \<Rightarrow> 'a option list \<Rightarrow> 'a option" where
  "lookup_id ident i xs = List.find (\<lambda>e. ident e = i) (flatten xs)"

definition table_ok :: "('a \<Rightarrow> 'w::len word) \<Rightarrow> 'w word \<Rightarrow> 'a option list \<Rightarrow> bool" where
  "table_ok ident n xs \<longleftrightarrow>
     distinct (map ident (flatten xs)) \<and> (\<forall>e \<in> set (flatten xs). ident e < n)"

lemma table_ok_replicate [simp]: "table_ok ident n (replicate m None)"
  by (simp add: table_ok_def)

lemma set_flatten_fill:
  "k < length xs \<Longrightarrow> xs ! k = None \<Longrightarrow> set (flatten (xs[k := Some e])) = insert e (set (flatten xs))"
proof (induction xs arbitrary: k)
  case (Cons y ys)
  then show ?case by (cases k; cases y) auto
qed simp

lemma distinct_fill:
  "k < length xs \<Longrightarrow> xs ! k = None \<Longrightarrow>
   distinct (map ident (flatten (xs[k := Some e]))) \<longleftrightarrow>
     ident e \<notin> ident ` set (flatten xs) \<and> distinct (map ident (flatten xs))"
proof (induction xs arbitrary: k)
  case (Cons y ys)
  show ?case
  proof (cases k)
    case 0
    with Cons.prems show ?thesis by (cases y) auto
  next
    case (Suc m)
    with Cons.prems have m: "m < length ys" "ys ! m = None" by auto
    note ih = Cons.IH [OF m] and sf = set_flatten_fill [OF m, of e]
    show ?thesis
    proof (cases y)
      case None
      with Suc ih show ?thesis by simp
    next
      case (Some z)
      with Suc ih sf show ?thesis by (auto simp: image_iff)
    qed
  qed
qed simp

lemma set_flatten_clear:
  "set (flatten (xs[k := None])) \<subseteq> set (flatten xs)"
proof (induction xs arbitrary: k)
  case (Cons y ys)
  then show ?case by (cases k; cases y) auto
qed simp

lemma distinct_clear:
  "distinct (map ident (flatten xs)) \<Longrightarrow> distinct (map ident (flatten (xs[k := None])))"
proof (induction xs arbitrary: k)
  case (Cons y ys)
  show ?case
  proof (cases k)
    case 0
    with Cons.prems show ?thesis by (cases y) auto
  next
    case (Suc m)
    then show ?thesis
      using Cons set_flatten_clear [of ys m] by (cases y) (auto simp: image_iff subset_iff)
  qed
qed simp

lemma map_flatten_replace:
  "k < length xs \<Longrightarrow> xs ! k = Some e \<Longrightarrow> ident e' = ident e \<Longrightarrow>
   map ident (flatten (xs[k := Some e'])) = map ident (flatten xs)"
proof (induction xs arbitrary: k)
  case (Cons y ys)
  then show ?case by (cases k; cases y) auto
qed simp

lemma table_ok_fill:
  assumes "table_ok ident n xs" "k < length xs" "xs ! k = None" "ident e = n" "n \<noteq> - 1"
  shows "table_ok ident (n + 1) (xs[k := Some e])"
proof -
  have below: "\<forall>e' \<in> set (flatten xs). ident e' < n" using assms(1) by (simp add: table_ok_def)
  have "ident e \<notin> ident ` set (flatten xs)" using below assms(4) by fastforce
  moreover have "\<forall>e' \<in> set (flatten (xs[k := Some e])). ident e' < n + 1"
    using below assms(4) by (auto simp: set_flatten_fill [OF assms(2,3)] less_plus_one_iff [OF assms(5)])
  ultimately show ?thesis
    using assms(1) by (auto simp: table_ok_def distinct_fill [OF assms(2,3)])
qed

lemma table_ok_clear: "table_ok ident n xs \<Longrightarrow> table_ok ident n (xs[k := None])"
  using set_flatten_clear [of xs k] distinct_clear [of ident xs k]
  by (auto simp: table_ok_def)

lemma table_ok_replace:
  assumes "table_ok ident n xs" "k < length xs" "xs ! k = Some e" "ident e' = ident e"
  shows "table_ok ident n (xs[k := Some e'])"
proof -
  have eq: "map ident (flatten (xs[k := Some e'])) = map ident (flatten xs)"
    by (rule map_flatten_replace [OF assms(2,3,4)])
  then have "ident ` set (flatten (xs[k := Some e'])) = ident ` set (flatten xs)"
    by (metis set_map)
  then have "\<forall>x \<in> set (flatten (xs[k := Some e'])). \<exists>y \<in> set (flatten xs). ident x = ident y"
    by (auto simp: set_eq_iff image_iff)
  with assms(1) eq show ?thesis by (fastforce simp: table_ok_def)
qed

text \<open>Under unique identifiers, lookup is membership.\<close>

lemma lookup_id_SomeD:
  "lookup_id ident i xs = Some e \<Longrightarrow> e \<in> set (flatten xs) \<and> ident e = i"
  by (auto simp: lookup_id_def find_Some_iff in_set_conv_nth)

lemma lookup_id_None_iff: "lookup_id ident i xs = None \<longleftrightarrow> i \<notin> ident ` set (flatten xs)"
  by (auto simp: lookup_id_def find_None_iff)

lemma lookup_id_iff:
  assumes "distinct (map ident (flatten xs))"
  shows "lookup_id ident i xs = Some e \<longleftrightarrow> e \<in> set (flatten xs) \<and> ident e = i"
proof
  assume *: "e \<in> set (flatten xs) \<and> ident e = i"
  then obtain e' where e': "lookup_id ident i xs = Some e'"
    using lookup_id_None_iff [of ident i xs] by (cases "lookup_id ident i xs") auto
  then have "e' \<in> set (flatten xs)" "ident e' = i" by (auto dest: lookup_id_SomeD)
  with * have "e' = e" using assms by (metis distinct_map inj_on_def)
  with e' show "lookup_id ident i xs = Some e" by simp
qed (rule lookup_id_SomeD)

lemma lookup_id_eq_find_slot:
  "lookup_id ident i xs = (case find_slot (\<lambda>e. ident e = i) xs of None \<Rightarrow> None | Some k \<Rightarrow> xs ! k)"
  by (simp add: lookup_id_def find_flatten_find_slot)

lemma lookup_id_replicate [simp]: "lookup_id ident i (replicate n None) = None"
  by (simp add: lookup_id_def)

lemma lookup_id_other:
  assumes "k < length xs" "\<And>e. xs ! k = Some e \<Longrightarrow> ident e \<noteq> i" "\<And>e. y = Some e \<Longrightarrow> ident e \<noteq> i"
  shows "lookup_id ident i (xs[k := y]) = lookup_id ident i xs"
  using assms
proof (induction xs arbitrary: k)
  case (Cons x xs)
  show ?case
  proof (cases k)
    case 0
    with Cons.prems show ?thesis by (cases x; cases y) (auto simp: lookup_id_def)
  next
    case (Suc m)
    with Cons.prems have "lookup_id ident i (xs[m := y]) = lookup_id ident i xs"
      by (intro Cons.IH) auto
    with Suc show ?thesis by (cases x) (auto simp: lookup_id_def)
  qed
qed simp

lemma find_slot_hit:
  assumes "find_slot (\<lambda>e. ident e = i) xs = Some k"
  shows "\<exists>e. k < length xs \<and> xs ! k = Some e \<and> ident e = i \<and> lookup_id ident i xs = Some e"
  using assms find_slot_SomeD [OF assms] by (auto simp: lookup_id_eq_find_slot)

text \<open>Replacing the entry that a search finds, keeping its identifier.\<close>

lemma lookup_id_replace_same:
  assumes "find_slot (\<lambda>e. ident e = i) xs = Some k" "ident e' = i"
  shows "lookup_id ident i (xs[k := Some e']) = Some e'"
proof -
  have k: "k < length xs" using find_slot_SomeD [OF assms(1)] by simp
  have "find_slot (\<lambda>e. ident e = i) (xs[k := Some e']) = Some k"
    using assms k by (auto simp: find_slot_Some_iff nth_list_update)
  with k show ?thesis by (simp add: lookup_id_eq_find_slot)
qed

lemma lookup_id_replace:
  assumes "find_slot (\<lambda>e. ident e = i) xs = Some k" "ident e' = i"
  shows "lookup_id ident j (xs[k := Some e']) = (if j = i then Some e' else lookup_id ident j xs)"
proof (cases "j = i")
  case True
  with lookup_id_replace_same [OF assms] show ?thesis by simp
next
  case False
  obtain e where "k < length xs" "xs ! k = Some e" "ident e = i"
    using find_slot_hit [OF assms(1)] by auto
  with False assms(2) show ?thesis by (auto intro!: lookup_id_other)
qed

text \<open>In-place modification of the entry found by identifier (\<^verbatim>\<open>get_mut\<close>).\<close>

definition modify_id :: "('a \<Rightarrow> 'i) \<Rightarrow> 'i \<Rightarrow> ('a \<Rightarrow> 'a) \<Rightarrow> 'a option list \<Rightarrow> 'a option list" where
  "modify_id ident i f xs = (case find_slot (\<lambda>e. ident e = i) xs of
     None \<Rightarrow> xs | Some k \<Rightarrow> xs[k := map_option f (xs ! k)])"

lemma modify_id_None: "lookup_id ident i xs = None \<Longrightarrow> modify_id ident i f xs = xs"
  using find_slot_hit [of ident i xs] by (cases "find_slot (\<lambda>e. ident e = i) xs") (auto simp: modify_id_def)

lemma length_modify_id [simp]: "length (modify_id ident i f xs) = length xs"
  by (simp add: modify_id_def split: option.splits)

lemma lookup_modify_id:
  assumes "\<And>e. ident (f e) = ident e"
  shows "lookup_id ident j (modify_id ident i f xs) =
    (if j = i then map_option f (lookup_id ident i xs) else lookup_id ident j xs)"
proof (cases "find_slot (\<lambda>e. ident e = i) xs")
  case None
  then show ?thesis by (simp add: modify_id_def lookup_id_eq_find_slot)
next
  case (Some k)
  obtain e where "k < length xs" "xs ! k = Some e" "ident e = i" "lookup_id ident i xs = Some e"
    using find_slot_hit [OF Some] by auto
  then show ?thesis using Some assms lookup_id_replace [OF Some, of "f e" j] by (simp add: modify_id_def)
qed

lemma map_flatten_modify_id:
  assumes "\<And>e. h (f e) = h e"
  shows "map h (flatten (modify_id ident i f xs)) = map h (flatten xs)"
  using assms by (auto simp: modify_id_def map_flatten_replace dest!: find_slot_SomeD split: option.splits)

lemma map_ident_modify_id:
  assumes "\<And>e. ident (f e) = ident e"
  shows "map ident (flatten (modify_id ident i f xs)) = map ident (flatten xs)"
  using assms by (auto simp: modify_id_def map_flatten_replace dest!: find_slot_SomeD split: option.splits)

lemma table_ok_modify_id:
  assumes "\<And>e. ident (f e) = ident e" "table_ok ident n xs"
  shows "table_ok ident n (modify_id ident i f xs)"
  using assms by (auto simp: modify_id_def dest!: find_slot_SomeD split: option.splits
      intro!: table_ok_replace)

text \<open>What clients of \<^verbatim>\<open>get\<close> and \<^verbatim>\<open>get_mut\<close> rely on.\<close>

locale keyed_store =
  fixes get :: "'t \<Rightarrow> 'k \<Rightarrow> 'a option"
    and modify :: "'k \<Rightarrow> ('a \<Rightarrow> 'a) \<Rightarrow> 't \<Rightarrow> 't"
    and key :: "'a \<Rightarrow> 'k"
  assumes get_key: "get t k = Some a \<Longrightarrow> key a = k"
    and get_modify: "(\<And>a. key (f a) = key a) \<Longrightarrow>
          get (modify k f t) j = (if j = k then map_option f (get t k) else get t j)"
    and modify_absent: "get t k = None \<Longrightarrow> modify k f t = t"
begin

lemma get_modify_same: "(\<And>a. key (f a) = key a) \<Longrightarrow> get (modify k f t) k = map_option f (get t k)"
  by (simp add: get_modify)

lemma get_modify_other: "(\<And>a. key (f a) = key a) \<Longrightarrow> j \<noteq> k \<Longrightarrow> get (modify k f t) j = get t j"
  by (simp add: get_modify)

lemma modify_present: "(\<And>a. key (f a) = key a) \<Longrightarrow> get (modify k f t) j = None \<longleftrightarrow> get t j = None"
  by (simp add: get_modify)

end

section \<open>The contract of an identifier table\<close>

locale id_table =
  fixes slots :: "'t \<Rightarrow> 'a option list"
    and next_id :: "'t \<Rightarrow> 'w::len word"
    and ident :: "'a \<Rightarrow> 'w word"
    and add :: "'x \<Rightarrow> 't \<Rightarrow> ('w word \<times> 't) option"
    and mk :: "'x \<Rightarrow> 'w word \<Rightarrow> 'a"
  assumes ident_mk: "ident (mk x i) = i"
    and add_SomeD: "add x t = Some (i, t') \<Longrightarrow>
          i = next_id t \<and> next_id t' = next_id t + 1 \<and>
          (\<exists>k. first_free (slots t) = Some k \<and> slots t' = (slots t)[k := Some (mk x i)])"
    and add_NoneD: "add x t = None \<Longrightarrow> first_free (slots t) = None"
begin

lemma add_None_iff: "add x t = None \<longleftrightarrow> length (flatten (slots t)) = length (slots t)"
proof
  assume "add x t = None"
  then have "first_free (slots t) = None" by (rule add_NoneD)
  then have "\<not> length (flatten (slots t)) < length (slots t)"
    using first_free_iff_room [of "slots t"] by simp
  moreover have "length (flatten (slots t)) \<le> length (slots t)" by (rule length_flatten_le)
  ultimately show "length (flatten (slots t)) = length (slots t)" by simp
next
  assume "length (flatten (slots t)) = length (slots t)"
  then have none: "first_free (slots t) = None"
    using first_free_iff_room [of "slots t"] by (cases "first_free (slots t)") auto
  show "add x t = None"
  proof (cases "add x t")
    case (Some p)
    with add_SomeD [of x t "fst p" "snd p"] none show ?thesis by auto
  qed
qed

lemma add_ok:
  assumes "table_ok ident (next_id t) (slots t)" "next_id t \<noteq> - 1" "add x t = Some (i, t')"
  shows "table_ok ident (next_id t') (slots t')"
proof -
  obtain k where k: "first_free (slots t) = Some k" "slots t' = (slots t)[k := Some (mk x i)]"
    and n: "i = next_id t" "next_id t' = next_id t + 1"
    using add_SomeD [OF assms(3)] by auto
  from first_free_SomeD [OF k(1)] have "k < length (slots t)" "slots t ! k = None" by auto
  from table_ok_fill [OF assms(1) this _ assms(2), of "mk x i"] k n show ?thesis
    by (simp add: ident_mk)
qed

lemma add_fresh:
  assumes "table_ok ident (next_id t) (slots t)" "add x t = Some (i, t')"
  shows "lookup_id ident i (slots t) = None"
  using assms add_SomeD [OF assms(2)] by (fastforce simp: lookup_id_None_iff table_ok_def)

lemma add_lookup:
  assumes "table_ok ident (next_id t) (slots t)" "add x t = Some (i, t')"
  shows "lookup_id ident j (slots t') = (if j = i then Some (mk x i) else lookup_id ident j (slots t))"
proof -
  obtain k where k: "first_free (slots t) = Some k" "slots t' = (slots t)[k := Some (mk x i)]"
    using add_SomeD [OF assms(2)] by auto
  from first_free_SomeD [OF k(1)] have kl: "k < length (slots t)" "slots t ! k = None" by auto
  have fresh: "\<forall>e \<in> set (flatten (slots t)). ident e \<noteq> i"
    using add_fresh [OF assms] by (auto simp: lookup_id_None_iff)
  show ?thesis
  proof (cases "j = i")
    case True
    have "find_slot (\<lambda>e. ident e = i) (slots t') = Some k"
      using kl fresh k(2) by (fastforce simp: find_slot_Some_iff nth_list_update ident_mk in_flatten_iff)
    then show ?thesis using True k(2) kl by (simp add: lookup_id_eq_find_slot)
  next
    case False
    then show ?thesis using kl k(2) by (auto simp: ident_mk intro!: lookup_id_other)
  qed
qed

lemma add_entries:
  assumes "add x t = Some (i, t')"
  shows "set (flatten (slots t')) = insert (mk x i) (set (flatten (slots t)))"
  using add_SomeD [OF assms] by (auto dest!: first_free_SomeD simp: set_flatten_fill)

lemma add_count:
  assumes "add x t = Some (i, t')"
  shows "length (flatten (slots t')) = Suc (length (flatten (slots t)))"
    and "length (slots t') = length (slots t)"
  using add_SomeD [OF assms] by (auto dest!: first_free_SomeD simp: length_flatten_fill)

end

locale id_table_del = id_table slots next_id ident add mk
  for slots :: "'t \<Rightarrow> 'a option list" and next_id :: "'t \<Rightarrow> 'w::len word"
    and ident :: "'a \<Rightarrow> 'w word" and add :: "'x \<Rightarrow> 't \<Rightarrow> ('w word \<times> 't) option"
    and mk :: "'x \<Rightarrow> 'w word \<Rightarrow> 'a" +
  fixes del :: "'w word \<Rightarrow> 't \<Rightarrow> 't option"
  assumes del_SomeD: "del i t = Some t' \<Longrightarrow> next_id t' = next_id t \<and>
      (\<exists>k. find_slot (\<lambda>e. ident e = i) (slots t) = Some k \<and> slots t' = (slots t)[k := None])"
begin

lemma del_ok:
  assumes "table_ok ident (next_id t) (slots t)" "del i t = Some t'"
  shows "table_ok ident (next_id t') (slots t')"
  using del_SomeD [OF assms(2)] assms(1) by (auto intro: table_ok_clear)

lemma del_lookup:
  assumes "table_ok ident (next_id t) (slots t)" "del i t = Some t'"
  shows "lookup_id ident j (slots t') = (if j = i then None else lookup_id ident j (slots t))"
proof -
  obtain k where f: "find_slot (\<lambda>e. ident e = i) (slots t) = Some k"
    and s: "slots t' = (slots t)[k := None]" using del_SomeD [OF assms(2)] by auto
  obtain e where e: "k < length (slots t)" "slots t ! k = Some e" "ident e = i"
    using find_slot_hit [OF f] by auto
  show ?thesis
  proof (cases "j = i")
    case True
    have "length (flatten (slots t')) < length (flatten (slots t))"
      using length_flatten_clear [OF e(1,2)] s by simp
    have "distinct (map ident (flatten (slots t)))" using assms(1) by (simp add: table_ok_def)
    moreover have "slots t = (slots t')[k := Some e]" using s e by (metis list_update_id list_update_overwrite)
    moreover have "k < length (slots t')" "slots t' ! k = None" using s e by auto
    ultimately have "ident e \<notin> ident ` set (flatten (slots t'))"
      using distinct_fill [of k "slots t'" ident e] by metis
    then show ?thesis using True e by (simp add: lookup_id_None_iff)
  next
    case False
    then show ?thesis using e s by (auto intro!: lookup_id_other)
  qed
qed

lemma del_count:
  assumes "del i t = Some t'"
  shows "Suc (length (flatten (slots t'))) = length (flatten (slots t))"
  using del_SomeD [OF assms] by (auto dest!: find_slot_SomeD simp: length_flatten_clear)

lemma del_entries:
  assumes "del i t = Some t'"
  shows "set (flatten (slots t')) \<subseteq> set (flatten (slots t))"
  using del_SomeD [OF assms] by (auto dest: set_flatten_clear [THEN subsetD])

end

end
