(* ===== verification/Security.thy ===== *)
theory Security
  imports Slot_Table
begin

text \<open>
  The capability manager, \<^verbatim>\<open>src/kernel/src/security.rs\<close>: capability tokens with an owner, a
  scope and a permission bit field, granted into a table of 256 slots, checked by a linear scan,
  and revoked by identifier. The table is an instance of the identifier-table contract; on top
  of it the theory shows what authority a sequence of grants and revocations leaves behind. The
  audited wrappers of the same file are in \<open>Cap_Service\<close>.
\<close>

section \<open>Types\<close>

datatype RiskLevel = Risk_Low | Risk_Medium | Risk_High | Risk_Critical

datatype CapScope = Cap_Process TaskId | Cap_Service u64 | Cap_System | Cap_Brane u64

type_synonym CapPermissions = u32

definition CapPermissions_NONE :: CapPermissions where "CapPermissions_NONE = 0"
definition CapPermissions_READ :: CapPermissions where "CapPermissions_READ = push_bit 0 1"
definition CapPermissions_WRITE :: CapPermissions where "CapPermissions_WRITE = push_bit 1 1"
definition CapPermissions_EXECUTE :: CapPermissions where "CapPermissions_EXECUTE = push_bit 2 1"
definition CapPermissions_GRANT :: CapPermissions where "CapPermissions_GRANT = push_bit 3 1"
definition CapPermissions_REVOKE :: CapPermissions where "CapPermissions_REVOKE = push_bit 4 1"
definition CapPermissions_IPC_SEND :: CapPermissions where "CapPermissions_IPC_SEND = push_bit 5 1"
definition CapPermissions_IPC_RECV :: CapPermissions where "CapPermissions_IPC_RECV = push_bit 6 1"
definition CapPermissions_BRANE_CONNECT :: CapPermissions where
  "CapPermissions_BRANE_CONNECT = push_bit 7 1"
definition CapPermissions_BRANE_DISCOVER :: CapPermissions where
  "CapPermissions_BRANE_DISCOVER = push_bit 8 1"
definition CapPermissions_PROCESS_CREATE :: CapPermissions where
  "CapPermissions_PROCESS_CREATE = push_bit 9 1"
definition CapPermissions_PROCESS_SIGNAL :: CapPermissions where
  "CapPermissions_PROCESS_SIGNAL = push_bit 10 1"
definition CapPermissions_MEMORY_MAP :: CapPermissions where
  "CapPermissions_MEMORY_MAP = push_bit 11 1"
definition CapPermissions_BRANE_SEND :: CapPermissions where
  "CapPermissions_BRANE_SEND = push_bit 12 1"
definition CapPermissions_BRANE_RECV :: CapPermissions where
  "CapPermissions_BRANE_RECV = push_bit 13 1"

definition CapPermissions_has :: "CapPermissions \<Rightarrow> CapPermissions \<Rightarrow> bool" where
  "CapPermissions_has self perm \<longleftrightarrow> self AND perm = perm"

definition CapPermissions_union :: "CapPermissions \<Rightarrow> CapPermissions \<Rightarrow> CapPermissions" where
  "CapPermissions_union self other = self OR other"

record Capability =
  cap_id :: CapabilityId
  cap_owner :: TaskId
  cap_scope :: CapScope
  cap_permissions :: CapPermissions
  cap_risk_level :: RiskLevel
  cap_revocable :: bool

datatype CapError =
    CapErr_NotFound | CapErr_PermissionDenied | CapErr_AlreadyRevoked | CapErr_TableFull | CapErr_InvalidScope

definition MAX_CAPABILITIES :: nat where "MAX_CAPABILITIES = 256"

record CapabilityManager =
  cm_capabilities :: "Capability option list"
  cm_next_id :: CapabilityId

section \<open>Operations\<close>

definition CapabilityManager_new :: CapabilityManager where
  "CapabilityManager_new = \<lparr>cm_capabilities = replicate MAX_CAPABILITIES None, cm_next_id = 1\<rparr>"

definition CapabilityManager_grant ::
  "TaskId \<Rightarrow> CapScope \<Rightarrow> CapPermissions \<Rightarrow> RiskLevel \<Rightarrow> bool \<Rightarrow> CapabilityManager \<Rightarrow>
   (CapabilityId, CapError) result \<times> CapabilityManager" where
  "CapabilityManager_grant owner scope permissions risk_level revocable m =
     (case first_free (cm_capabilities m) of
        Some k \<Rightarrow>
          (let id = cm_next_id m;
               c = \<lparr>cap_id = id, cap_owner = owner, cap_scope = scope, cap_permissions = permissions,
                    cap_risk_level = risk_level, cap_revocable = revocable\<rparr>
           in (Ok id, m\<lparr>cm_next_id := cm_next_id m + 1,
                        cm_capabilities := (cm_capabilities m)[k := Some c]\<rparr>))
      | None \<Rightarrow> (Err CapErr_TableFull, m))"

definition CapabilityManager_check ::
  "CapabilityManager \<Rightarrow> TaskId \<Rightarrow> CapPermissions \<Rightarrow> CapScope \<Rightarrow> (CapabilityId, CapError) result" where
  "CapabilityManager_check m task required scope =
     (case List.find (\<lambda>c. cap_owner c = task \<and> cap_scope c = scope \<and>
                          CapPermissions_has (cap_permissions c) required) (flatten (cm_capabilities m)) of
        Some c \<Rightarrow> Ok (cap_id c)
      | None \<Rightarrow> Err CapErr_PermissionDenied)"

definition CapabilityManager_revoke ::
  "CapabilityId \<Rightarrow> CapabilityManager \<Rightarrow> (unit, CapError) result \<times> CapabilityManager" where
  "CapabilityManager_revoke cid m =
     (case find_slot (\<lambda>c. cap_id c = cid) (cm_capabilities m) of
        Some k \<Rightarrow>
          (case cm_capabilities m ! k of
             Some c \<Rightarrow>
               if \<not> cap_revocable c then (Err CapErr_PermissionDenied, m)
               else (Ok (), m\<lparr>cm_capabilities := (cm_capabilities m)[k := None]\<rparr>)
           | None \<Rightarrow> (Err CapErr_NotFound, m))
      | None \<Rightarrow> (Err CapErr_NotFound, m))"

definition CapabilityManager_list_for_task :: "CapabilityManager \<Rightarrow> TaskId \<Rightarrow> Capability list" where
  "CapabilityManager_list_for_task m task = filter (\<lambda>c. cap_owner c = task) (flatten (cm_capabilities m))"

definition CapabilityManager_active_count :: "CapabilityManager \<Rightarrow> nat" where
  "CapabilityManager_active_count m = length (filter (\<lambda>s. s \<noteq> None) (cm_capabilities m))"

fun cap_error_code :: "CapError \<Rightarrow> i64" where
  "cap_error_code CapErr_NotFound = - 4"
| "cap_error_code CapErr_PermissionDenied = - 3"
| "cap_error_code CapErr_AlreadyRevoked = - 10"
| "cap_error_code CapErr_TableFull = - 5"
| "cap_error_code CapErr_InvalidScope = - 2"

section \<open>Specification vocabulary\<close>

text \<open>The authority a manager confers, and runs of grant and revoke requests.\<close>

definition holds_authority ::
  "CapabilityManager \<Rightarrow> TaskId \<Rightarrow> CapPermissions \<Rightarrow> CapScope \<Rightarrow> bool" where
  "holds_authority m task required scope \<longleftrightarrow>
     (\<exists>c \<in> set (flatten (cm_capabilities m)). cap_owner c = task \<and> cap_scope c = scope \<and>
        CapPermissions_has (cap_permissions c) required)"

datatype CapOp =
    Op_Grant TaskId CapScope CapPermissions RiskLevel bool
  | Op_Revoke CapabilityId

fun cap_exec :: "CapOp \<Rightarrow> CapabilityManager \<Rightarrow> CapabilityManager" where
  "cap_exec (Op_Grant ow sc p r v) m = snd (CapabilityManager_grant ow sc p r v m)"
| "cap_exec (Op_Revoke i) m = snd (CapabilityManager_revoke i m)"

definition cap_run :: "CapOp list \<Rightarrow> CapabilityManager \<Rightarrow> CapabilityManager" where
  "cap_run ops m = fold cap_exec ops m"

definition caps_ok :: "CapabilityManager \<Rightarrow> bool" where
  "caps_ok m \<longleftrightarrow> length (cm_capabilities m) = MAX_CAPABILITIES \<and>
     table_ok cap_id (cm_next_id m) (cm_capabilities m)"

text \<open>The two requests in the shape of the identifier-table contract.\<close>

definition cap_add ::
  "TaskId \<times> CapScope \<times> CapPermissions \<times> RiskLevel \<times> bool \<Rightarrow> CapabilityManager \<Rightarrow>
   (CapabilityId \<times> CapabilityManager) option" where
  "cap_add x m = (case x of (ow, sc, p, r, v) \<Rightarrow>
     (case CapabilityManager_grant ow sc p r v m of (Inr i, m') \<Rightarrow> Some (i, m') | _ \<Rightarrow> None))"

definition cap_mk :: "TaskId \<times> CapScope \<times> CapPermissions \<times> RiskLevel \<times> bool \<Rightarrow> CapabilityId \<Rightarrow> Capability" where
  "cap_mk x i = (case x of (ow, sc, p, r, v) \<Rightarrow>
     \<lparr>cap_id = i, cap_owner = ow, cap_scope = sc, cap_permissions = p, cap_risk_level = r, cap_revocable = v\<rparr>)"

definition cap_del :: "CapabilityId \<Rightarrow> CapabilityManager \<Rightarrow> CapabilityManager option" where
  "cap_del i m = (case CapabilityManager_revoke i m of (Inr _, m') \<Rightarrow> Some m' | _ \<Rightarrow> None)"

section \<open>The table contract\<close>

interpretation caps: id_table_del cm_capabilities cm_next_id cap_id cap_add cap_mk cap_del
  by unfold_locales
    (auto simp: cap_mk_def cap_add_def cap_del_def CapabilityManager_grant_def
        CapabilityManager_revoke_def Let_def split: prod.splits option.splits sum.splits if_splits)

lemma grant_Ok_iff:
  "CapabilityManager_grant ow sc p r v m = (Ok i, m') \<longleftrightarrow> cap_add (ow, sc, p, r, v) m = Some (i, m')"
  by (auto simp: cap_add_def split: sum.splits prod.splits)

lemma grant_Err: "CapabilityManager_grant ow sc p r v m = (Err e, m') \<Longrightarrow>
    e = CapErr_TableFull \<and> m' = m \<and> first_free (cm_capabilities m) = None"
  by (auto simp: CapabilityManager_grant_def Let_def split: option.splits)

lemma revoke_Ok_iff: "CapabilityManager_revoke i m = (Ok (), m') \<longleftrightarrow> cap_del i m = Some m'"
  by (auto simp: cap_del_def split: sum.splits prod.splits)

lemma revoke_Err: "CapabilityManager_revoke i m = (Err e, m') \<Longrightarrow> m' = m"
  by (auto simp: CapabilityManager_revoke_def split: option.splits if_splits)

lemma check_Ok_D:
  "CapabilityManager_check m t req sc = Ok i \<Longrightarrow>
   \<exists>c \<in> set (flatten (cm_capabilities m)). cap_id c = i \<and> cap_owner c = t \<and> cap_scope c = sc \<and>
      CapPermissions_has (cap_permissions c) req"
  by (auto simp: CapabilityManager_check_def dest!: find_SomeD split: option.splits)

lemma check_iff_holds: "is_ok (CapabilityManager_check m t req sc) \<longleftrightarrow> holds_authority m t req sc"
  by (fastforce simp: is_ok_def CapabilityManager_check_def holds_authority_def find_None_iff
      dest!: find_SomeD split: option.splits)

section \<open>Runs of requests\<close>

lemma cap_run_Nil [simp]: "cap_run [] m = m" and
  cap_run_Cons [simp]: "cap_run (x # xs) m = cap_run xs (cap_exec x m)"
  by (simp_all add: cap_run_def)

lemma cap_run_snoc: "cap_run (xs @ [x]) m = cap_exec x (cap_run xs m)"
  by (simp add: cap_run_def)

lemma cap_exec_cases:
  obtains "cap_exec op m = m"
  | ow sc p r v i where "op = Op_Grant ow sc p r v" "cap_add (ow, sc, p, r, v) m = Some (i, cap_exec op m)"
  | i where "op = Op_Revoke i" "cap_del i m = Some (cap_exec op m)"
proof (cases op)
  case (Op_Grant ow sc p r v)
  obtain res m' where g: "CapabilityManager_grant ow sc p r v m = (res, m')"
    by (cases "CapabilityManager_grant ow sc p r v m")
  show ?thesis
  proof (cases res)
    case (Inl e)
    with g grant_Err have "cap_exec op m = m" by (auto simp: Op_Grant)
    then show ?thesis by (rule that(1))
  next
    case (Inr i)
    with g have "cap_add (ow, sc, p, r, v) m = Some (i, cap_exec op m)"
      by (simp add: Op_Grant grant_Ok_iff [symmetric])
    with Op_Grant show ?thesis by (rule that(2))
  qed
next
  case (Op_Revoke i)
  obtain res m' where g: "CapabilityManager_revoke i m = (res, m')"
    by (cases "CapabilityManager_revoke i m")
  show ?thesis
  proof (cases res)
    case (Inl e)
    with g revoke_Err have "cap_exec op m = m" by (auto simp: Op_Revoke)
    then show ?thesis by (rule that(1))
  next
    case (Inr u)
    with g have "cap_del i m = Some (cap_exec op m)"
      by (simp add: Op_Revoke revoke_Ok_iff [symmetric])
    with Op_Revoke show ?thesis by (rule that(3))
  qed
qed

lemmas cap_eval = CapabilityManager_new_def CapabilityManager_grant_def CapabilityManager_revoke_def
  CapabilityManager_check_def CapPermissions_has_def MAX_CAPABILITIES_def

lemma caps_ok_new: "caps_ok CapabilityManager_new"
  by (simp add: caps_ok_def CapabilityManager_new_def)

lemma cap_exec_ok:
  assumes "caps_ok m" "cm_next_id m \<noteq> - 1"
  shows "caps_ok (cap_exec op m) \<and> cm_next_id m \<le> cm_next_id (cap_exec op m) \<and>
    unat (cm_next_id (cap_exec op m)) \<le> Suc (unat (cm_next_id m))"
proof (cases rule: cap_exec_cases [of op m])
  case 1
  with assms show ?thesis by simp
next
  case (2 ow sc p r v i)
  have "table_ok cap_id (cm_next_id (cap_exec op m)) (cm_capabilities (cap_exec op m))"
    using assms by (intro caps.add_ok [OF _ _ 2(2)]) (simp_all add: caps_ok_def)
  with assms caps.add_count(2) [OF 2(2)] caps.add_SomeD [OF 2(2)] show ?thesis
    by (auto simp: caps_ok_def unat_plus_one word_le_nat_alt)
next
  case (3 i)
  have "table_ok cap_id (cm_next_id (cap_exec op m)) (cm_capabilities (cap_exec op m))"
    using assms by (intro caps.del_ok [OF _ 3(2)]) (simp add: caps_ok_def)
  with assms caps.del_SomeD [OF 3(2)] show ?thesis by (auto simp: caps_ok_def)
qed

lemma cap_run_ok:
  assumes "caps_ok m" "unat (cm_next_id m) + length ops < 2 ^ 64"
  shows "caps_ok (cap_run ops m) \<and> cm_next_id m \<le> cm_next_id (cap_run ops m)"
  using assms
proof (induction ops arbitrary: m)
  case (Cons op ops)
  have "cm_next_id m \<noteq> - 1" using Cons.prems(2) by (intro neq_minus_1I) simp
  note e = cap_exec_ok [OF Cons.prems(1) this, of op]
  have "unat (cm_next_id (cap_exec op m)) + length ops < 2 ^ 64" using e Cons.prems(2) by simp
  with Cons.IH e show ?case using order_trans by fastforce
qed simp

text \<open>Every live capability was granted by a request of the run.\<close>

lemma cap_run_provenance:
  "c \<in> set (flatten (cm_capabilities (cap_run ops CapabilityManager_new))) \<Longrightarrow>
   Op_Grant (cap_owner c) (cap_scope c) (cap_permissions c) (cap_risk_level c) (cap_revocable c) \<in> set ops"
proof (induction ops arbitrary: c rule: rev_induct)
  case Nil
  then show ?case by (simp add: CapabilityManager_new_def)
next
  case (snoc op ops)
  let ?m = "cap_run ops CapabilityManager_new"
  from snoc.prems have c: "c \<in> set (flatten (cm_capabilities (cap_exec op ?m)))"
    by (simp add: cap_run_snoc)
  show ?case
  proof (cases rule: cap_exec_cases [of op ?m])
    case 1
    with c snoc.IH show ?thesis by simp
  next
    case (2 ow sc p r v i)
    then show ?thesis using c snoc.IH caps.add_entries [OF 2(2)] by (auto simp: cap_mk_def)
  next
    case (3 i)
    then show ?thesis using c snoc.IH caps.del_entries [OF 3(2)] by auto
  qed
qed

text \<open>A slot that holds an irrevocable capability keeps it.\<close>

lemma cap_exec_keeps_irrevocable:
  assumes "k < length (cm_capabilities m)" "cm_capabilities m ! k = Some c" "\<not> cap_revocable c"
  shows "k < length (cm_capabilities (cap_exec op m)) \<and> cm_capabilities (cap_exec op m) ! k = Some c"
proof (cases rule: cap_exec_cases [of op m])
  case 1
  with assms show ?thesis by simp
next
  case (2 ow sc p r v i)
  with assms caps.add_SomeD [OF 2(2)] show ?thesis
    by (auto dest!: first_free_SomeD simp: nth_list_update)
next
  case (3 i)
  define m' where "m' = cap_exec op m"
  from 3(2) have "cap_del i m = Some m'" by (simp add: m'_def)
  then obtain j d where "cm_capabilities m ! j = Some d" "cap_revocable d"
    "cm_capabilities m' = (cm_capabilities m)[j := None]"
    by (auto simp: cap_del_def CapabilityManager_revoke_def split: option.splits if_splits)
  with assms show ?thesis unfolding m'_def by (cases "j = k") auto
qed

lemma cap_run_keeps_irrevocable:
  assumes "k < length (cm_capabilities m)" "cm_capabilities m ! k = Some c" "\<not> cap_revocable c"
  shows "c \<in> set (flatten (cm_capabilities (cap_run ops m)))"
  using assms
proof (induction ops arbitrary: m)
  case Nil
  then show ?case by (auto simp: in_flatten_iff)
next
  case (Cons op ops)
  with cap_exec_keeps_irrevocable [OF Cons.prems, of op] show ?case by simp
qed

text \<open>An identifier below the counter that is not in the table never comes back.\<close>

lemma cap_exec_no_reuse:
  assumes "i < cm_next_id m" "lookup_id cap_id i (cm_capabilities m) = None" "caps_ok m"
  shows "lookup_id cap_id i (cm_capabilities (cap_exec op m)) = None"
proof (cases rule: cap_exec_cases [of op m])
  case 1
  with assms show ?thesis by simp
next
  case (2 ow sc p r v j)
  then have "j = cm_next_id m" using caps.add_SomeD [OF 2(2)] by simp
  with assms caps.add_lookup [OF _ 2(2)] show ?thesis by (auto simp: caps_ok_def)
next
  case (3 j)
  with assms caps.del_lookup [OF _ 3(2)] show ?thesis by (auto simp: caps_ok_def)
qed

lemma cap_run_no_reuse:
  assumes "i < cm_next_id m" "lookup_id cap_id i (cm_capabilities m) = None" "caps_ok m"
    "unat (cm_next_id m) + length ops < 2 ^ 64"
  shows "lookup_id cap_id i (cm_capabilities (cap_run ops m)) = None"
  using assms
proof (induction ops rule: rev_induct)
  case (snoc op ops)
  let ?m = "cap_run ops m"
  have "caps_ok ?m" "cm_next_id m \<le> cm_next_id ?m"
    using cap_run_ok [of m ops] snoc.prems by simp_all
  moreover have "lookup_id cap_id i (cm_capabilities ?m) = None" using snoc by simp
  ultimately show ?case
    using snoc.prems(1) cap_exec_no_reuse [of i ?m op] by (simp add: cap_run_snoc)
qed simp

section \<open>Properties\<close>

text \<open>
  C5. Authority has a provenance: when a check succeeds after any sequence of grant and revoke
  requests since boot, one of those requests granted the task, for exactly that scope, a
  permission set containing the required one.
\<close>

theorem authority_provenance:
  assumes "CapabilityManager_check (cap_run ops CapabilityManager_new) task required scope = Ok i"
  shows "\<exists>p r v. Op_Grant task scope p r v \<in> set ops \<and> CapPermissions_has p required"
  using check_Ok_D [OF assms] cap_run_provenance by blast

theorem authority_provenance_witness:
  "CapabilityManager_check
     (cap_run [Op_Grant 7 Cap_System 3 Risk_Low True] CapabilityManager_new) 7 2 Cap_System = Ok 1 \<and>
   (\<exists>p r v. Op_Grant 7 Cap_System p r v \<in> set [Op_Grant 7 Cap_System 3 Risk_Low True] \<and>
      CapPermissions_has p 2)"
proof -
  have "CapabilityManager_check
     (cap_run [Op_Grant 7 Cap_System 3 Risk_Low True] CapabilityManager_new) 7 2 Cap_System = Ok 1"
    by (simp add: cap_eval)
  with authority_provenance [OF this] show ?thesis by blast
qed

text \<open>
  A grant adds exactly the granted authority: afterwards a check succeeds if it succeeded
  before, or if it asks the new owner, in the new scope, for a subset of the new permissions; and a
  grant is refused only when all 256 slots are taken, leaving the manager unchanged.
\<close>

theorem grant_extends_authority:
  "case CapabilityManager_grant owner scope perms risk revocable m of
     (Inr i, m') \<Rightarrow> i = cm_next_id m \<and>
       (\<forall>t req sc. is_ok (CapabilityManager_check m' t req sc) =
          (is_ok (CapabilityManager_check m t req sc) \<or>
           (t = owner \<and> sc = scope \<and> CapPermissions_has perms req)))
   | (Inl e, m') \<Rightarrow> e = CapErr_TableFull \<and> m' = m \<and>
       length (flatten (cm_capabilities m)) = length (cm_capabilities m)"
proof (cases "cap_add (owner, scope, perms, risk, revocable) m")
  case None
  then have full: "length (flatten (cm_capabilities m)) = length (cm_capabilities m)"
    by (simp add: caps.add_None_iff)
  obtain e m' where "CapabilityManager_grant owner scope perms risk revocable m = (Err e, m')"
    using None by (auto simp: cap_add_def split: prod.splits sum.splits)
  with full grant_Err [OF this] show ?thesis by simp
next
  case (Some a)
  then obtain i m' where a: "cap_add (owner, scope, perms, risk, revocable) m = Some (i, m')"
    by (cases a) auto
  then have "CapabilityManager_grant owner scope perms risk revocable m = (Ok i, m')"
    by (simp add: grant_Ok_iff)
  then show ?thesis using caps.add_entries [OF a] caps.add_SomeD [OF a]
    by (auto simp: check_iff_holds holds_authority_def cap_mk_def)
qed

text \<open>
  Revocation is final: once a revocation succeeds, no check ever returns that capability
  again, whatever requests follow (as long as the 64-bit identifier counter is not exhausted), and
  the authority of all other capabilities is untouched.
\<close>

theorem revoked_capability_stays_revoked:
  assumes "caps_ok m" "CapabilityManager_revoke i m = (Ok (), m')"
    "unat (cm_next_id m) + length ops < 2 ^ 64"
  shows "CapabilityManager_check (cap_run ops m') task required scope \<noteq> Ok i \<and>
    (\<forall>j. j \<noteq> i \<longrightarrow>
      lookup_id cap_id j (cm_capabilities m') = lookup_id cap_id j (cm_capabilities m))"
proof -
  have d: "cap_del i m = Some m'" using assms(2) by (simp add: revoke_Ok_iff)
  have t: "table_ok cap_id (cm_next_id m) (cm_capabilities m)" using assms(1) by (simp add: caps_ok_def)
  note l = caps.del_lookup [OF t d]
  have same: "cm_next_id m' = cm_next_id m" using caps.del_SomeD [OF d] by simp
  have "caps_ok m'" using assms(1) caps.del_ok [OF t d] caps.del_SomeD [OF d] by (auto simp: caps_ok_def)
  moreover have "i < cm_next_id m'"
    using t same caps.del_SomeD [OF d] find_slot_hit lookup_id_SomeD by (fastforce simp: table_ok_def)
  ultimately have "lookup_id cap_id i (cm_capabilities (cap_run ops m')) = None"
    using l [of i] same assms(3) by (intro cap_run_no_reuse) simp_all
  then show ?thesis using l by (auto simp: lookup_id_None_iff dest!: check_Ok_D)
qed

theorem revoked_capability_stays_revoked_witness:
  "let m = cap_run [Op_Grant 7 Cap_System 3 Risk_Low True] CapabilityManager_new in
   CapabilityManager_check m 7 2 Cap_System = Ok 1 \<and>
   CapabilityManager_check
     (cap_run [Op_Grant 7 Cap_System 3 Risk_Low True] (snd (CapabilityManager_revoke 1 m))) 7 2 Cap_System
   \<noteq> Ok 1"
proof -
  let ?m = "cap_run [Op_Grant 7 Cap_System 3 Risk_Low True] CapabilityManager_new"
  have ok: "caps_ok ?m" using cap_run_ok [OF caps_ok_new, of "[Op_Grant 7 Cap_System 3 Risk_Low True]"]
    by (simp add: CapabilityManager_new_def)
  have r: "CapabilityManager_revoke 1 ?m = (Ok (), snd (CapabilityManager_revoke 1 ?m))" by (simp add: cap_eval)
  have n: "unat (cm_next_id ?m) + length [Op_Grant 7 Cap_System 3 Risk_Low True] < 2 ^ 64" by (simp add: cap_eval)
  have "CapabilityManager_check ?m 7 2 Cap_System = Ok 1" by (simp add: cap_eval)
  with revoked_capability_stays_revoked [OF ok r n, of 7 2 Cap_System] show ?thesis by (simp add: Let_def)
qed

text \<open>
  An irrevocable grant is permanent: after it, every check of the owner for a contained
  permission in that scope succeeds, whatever grant and revoke requests follow.
\<close>

theorem irrevocable_authority_persists:
  assumes "CapabilityManager_grant owner scope perms risk False m = (Ok i, m')"
    "CapPermissions_has perms required"
  shows "is_ok (CapabilityManager_check (cap_run ops m') owner required scope)"
proof -
  let ?c = "cap_mk (owner, scope, perms, risk, False) i"
  obtain k where "first_free (cm_capabilities m) = Some k" "cm_capabilities m' = (cm_capabilities m)[k := Some ?c]"
    using caps.add_SomeD [of "(owner, scope, perms, risk, False)" m i m'] assms(1) by (auto simp: grant_Ok_iff)
  then have "k < length (cm_capabilities m')" "cm_capabilities m' ! k = Some ?c"
    by (auto dest: first_free_SomeD)
  from cap_run_keeps_irrevocable [OF this, of ops]
  have "?c \<in> set (flatten (cm_capabilities (cap_run ops m')))" by (simp add: cap_mk_def)
  with assms(2) show ?thesis by (force simp: check_iff_holds holds_authority_def cap_mk_def)
qed

theorem irrevocable_authority_persists_witness:
  "is_ok (CapabilityManager_check
     (cap_run [Op_Revoke 1] (snd (CapabilityManager_grant 7 Cap_System 3 Risk_Low False CapabilityManager_new)))
     7 2 Cap_System)"
proof (rule irrevocable_authority_persists)
  show "CapabilityManager_grant 7 Cap_System 3 Risk_Low False CapabilityManager_new =
    (Ok 1, snd (CapabilityManager_grant 7 Cap_System 3 Risk_Low False CapabilityManager_new))" by (simp add: cap_eval)
  show "CapPermissions_has 3 2" by (simp add: cap_eval)
qed

end
