(* ===== verification/Ring.thy ===== *)
theory Ring
  imports Prelude
begin

text \<open>
  Ring buffers: an array, a head index and a number of live cells. \<open>ring_list\<close> reads the live
  cells in order; appending behind the last cell, dropping the head cell and overwriting the
  oldest cell of a full ring are the list operations \<open>snoc\<close>, \<open>tl\<close> and both. The locale
  \<open>bounded_fifo\<close> is the contract the kernel's queues promise to their clients.
\<close>

section \<open>Reading a ring\<close>

definition ring_list :: "'a list \<Rightarrow> nat \<Rightarrow> nat \<Rightarrow> 'a list" where
  "ring_list xs head n = map (\<lambda>i. xs ! ((head + i) mod length xs)) [0..<n]"

lemma length_ring_list [simp]: "length (ring_list xs head n) = n"
  by (simp add: ring_list_def)

lemma ring_list_0 [simp]: "ring_list xs head 0 = []"
  by (simp add: ring_list_def)

lemma nth_ring_list: "i < n \<Longrightarrow> ring_list xs head n ! i = xs ! ((head + i) mod length xs)"
  by (simp add: ring_list_def)

lemma ring_index_inj:
  fixes h i j L :: nat
  assumes "i < L" "j < L" "(h + i) mod L = (h + j) mod L"
  shows "i = j"
proof -
  have *: "a = b" if "a \<le> b" "b < L" "(h + a) mod L = (h + b) mod L" for a b
  proof -
    have "L dvd (h + b) - (h + a)"
      using that mod_eq_dvd_iff_nat [of "h + a" "h + b" L] by simp
    then have "L dvd b - a" by simp
    then show ?thesis using that(1,2) by (auto dest: dvd_imp_le)
  qed
  show ?thesis using assms *[of i j] *[of j i] by (cases "i \<le> j") auto
qed

lemma ring_list_snoc:
  assumes "n < length xs"
  shows "ring_list (xs[(head + n) mod length xs := x]) head (Suc n) = ring_list xs head n @ [x]"
proof (rule nth_equalityI)
  fix i assume "i < length (ring_list (xs[(head + n) mod length xs := x]) head (Suc n))"
  then have "i < Suc n" by simp
  moreover have "0 < length xs" using assms by linarith
  moreover have "(head + i) mod length xs \<noteq> (head + n) mod length xs" if "i < n"
    using ring_index_inj [of i "length xs" n head] that assms by auto
  ultimately show "ring_list (xs[(head + n) mod length xs := x]) head (Suc n) ! i =
      (ring_list xs head n @ [x]) ! i"
    using assms by (cases "i = n") (auto simp: nth_ring_list nth_append nth_list_update)
qed simp

lemma ring_list_Suc:
  "ring_list xs head (Suc n) = xs ! (head mod length xs) # ring_list xs ((head + 1) mod length xs) n"
proof (rule nth_equalityI)
  fix i assume "i < length (ring_list xs head (Suc n))"
  then show "ring_list xs head (Suc n) ! i =
      (xs ! (head mod length xs) # ring_list xs ((head + 1) mod length xs) n) ! i"
    by (cases i) (simp_all add: nth_ring_list mod_add_left_eq)
qed simp

lemma ring_list_drop_head:
  assumes "n < length xs" "head < length xs"
  shows "ring_list (xs[head := x]) ((head + 1) mod length xs) n = ring_list xs ((head + 1) mod length xs) n"
proof (rule nth_equalityI)
  fix i assume "i < length (ring_list (xs[head := x]) ((head + 1) mod length xs) n)"
  then have i: "i < n" by simp
  have "(head + Suc i) mod length xs \<noteq> (head + 0) mod length xs"
    using ring_index_inj [of "Suc i" "length xs" 0 head] i assms by fastforce
  with i assms show "ring_list (xs[head := x]) ((head + 1) mod length xs) n ! i =
      ring_list xs ((head + 1) mod length xs) n ! i"
    by (simp add: nth_ring_list mod_add_left_eq nth_list_update)
qed simp

lemma ring_list_overwrite:
  assumes "head < length xs"
  shows "ring_list (xs[head := x]) ((head + 1) mod length xs) (length xs) =
    tl (ring_list xs head (length xs)) @ [x]"
proof -
  obtain m where m: "length xs = Suc m" using assms by (cases "length xs") auto
  have h: "((head + 1) mod length xs + m) mod length xs = head"
  proof -
    have "((head + 1) mod length xs + m) mod length xs = (head + length xs) mod length xs"
      using m by (simp add: mod_add_left_eq)
    then show ?thesis using assms by simp
  qed
  let ?h = "(head + 1) mod length xs"
  have "ring_list (xs[head := x]) ?h (length xs) =
      ring_list (xs[(?h + m) mod length xs := x]) ?h (Suc m)"
    using h m by simp
  also have "\<dots> = ring_list xs ?h m @ [x]" using m by (intro ring_list_snoc) simp
  also have "ring_list xs ?h m = tl (ring_list xs head (length xs))"
    using ring_list_Suc [of xs head m] m by simp
  finally show ?thesis .
qed

section \<open>The contract of a bounded queue\<close>

locale bounded_fifo =
  fixes ok :: "'q \<Rightarrow> bool"
    and contents :: "'q \<Rightarrow> 'a list"
    and capacity :: nat
    and push :: "'a \<Rightarrow> 'q \<Rightarrow> 'q option"
    and pop :: "'q \<Rightarrow> 'a option \<times> 'q"
  assumes contents_bound: "ok q \<Longrightarrow> length (contents q) \<le> capacity"
    and push_full: "ok q \<Longrightarrow> push x q = None \<longleftrightarrow> length (contents q) = capacity"
    and push_Some: "ok q \<Longrightarrow> push x q = Some q' \<Longrightarrow> ok q' \<and> contents q' = contents q @ [x]"
    and pop_nil: "ok q \<Longrightarrow> contents q = [] \<Longrightarrow> fst (pop q) = None \<and> ok (snd (pop q)) \<and> contents (snd (pop q)) = []"
    and pop_cons: "ok q \<Longrightarrow> contents q = x # xs \<Longrightarrow>
          fst (pop q) = Some x \<and> ok (snd (pop q)) \<and> contents (snd (pop q)) = xs"
begin

fun push_all :: "'a list \<Rightarrow> 'q \<Rightarrow> 'q option" where
  "push_all [] q = Some q"
| "push_all (x # xs) q = (case push x q of None \<Rightarrow> None | Some q' \<Rightarrow> push_all xs q')"

fun pop_n :: "nat \<Rightarrow> 'q \<Rightarrow> 'a list \<times> 'q" where
  "pop_n 0 q = ([], q)"
| "pop_n (Suc n) q = (case pop q of
     (None, q') \<Rightarrow> ([], q')
   | (Some x, q') \<Rightarrow> (let (xs, q'') = pop_n n q' in (x # xs, q'')))"

lemma push_accepts: "ok q \<Longrightarrow> length (contents q) < capacity \<Longrightarrow>
    \<exists>q'. push x q = Some q' \<and> ok q' \<and> contents q' = contents q @ [x]"
  using push_full [of q x] push_Some [of q x] by (cases "push x q") auto

lemma push_all_accepts: "ok q \<Longrightarrow> length (contents q) + length xs \<le> capacity \<Longrightarrow>
    \<exists>q'. push_all xs q = Some q' \<and> ok q' \<and> contents q' = contents q @ xs"
proof (induction xs arbitrary: q)
  case (Cons x xs)
  obtain q1 where q1: "push x q = Some q1" "ok q1" "contents q1 = contents q @ [x]"
    using push_accepts [of q x] Cons.prems by auto
  with Cons.IH [of q1] Cons.prems show ?case by simp
qed simp

lemma pop_n_contents: "ok q \<Longrightarrow> fst (pop_n n q) = take n (contents q) \<and>
    ok (snd (pop_n n q)) \<and> contents (snd (pop_n n q)) = drop n (contents q)"
proof (induction n arbitrary: q)
  case (Suc n)
  show ?case
  proof (cases "contents q")
    case Nil
    with pop_nil [OF Suc.prems] show ?thesis by (cases "pop q") auto
  next
    case (Cons x xs)
    with pop_cons [OF Suc.prems Cons] Suc.IH [of "snd (pop q)"] show ?thesis
      by (cases "pop q") (auto simp: Let_def split: prod.splits)
  qed
qed simp

text \<open>What is pushed comes out once, in the order of the pushes, behind what was there.\<close>

lemma fifo_order:
  assumes "ok q" "length (contents q) + length xs \<le> capacity"
  shows "\<exists>q'. push_all xs q = Some q' \<and>
    fst (pop_n (length (contents q) + length xs) q') = contents q @ xs"
  using push_all_accepts [OF assms] pop_n_contents by force

end

end
