(* ===== verification/Syscall_Abi.thy ===== *)
theory Syscall_Abi
  imports Prelude
begin

text \<open>
  The pure part of \<^verbatim>\<open>src/kernel/src/syscall.rs\<close>: the system-call numbers and their
  raw encoding, the static mediation table \<^verbatim>\<open>SYSCALL_SPECS\<close>, user ranges and their
  page-by-page validation, and the result encoding. A \<^verbatim>\<open>usize\<close> that comes from a user
  register is a 64-bit word here. The dispatcher itself is in \<open>Dispatch\<close>.
\<close>

section \<open>System-call numbers\<close>

datatype SyscallNumber =
    Sys_Exit | Sys_Yield | Sys_GetPid | Sys_Fork | Sys_Exec | Sys_WaitPid
  | Sys_Mmap | Sys_Munmap | Sys_Write | Sys_Read | Sys_Open | Sys_Close
  | Sys_Send | Sys_Recv | Sys_SendRecv | Sys_RequestCap | Sys_ReleaseCap | Sys_CheckCap
  | Sys_GetTime | Sys_GetSystemInfo | Sys_BraneDiscover | Sys_BraneConnect | Sys_BraneSend | Sys_BraneRecv
  | Sys_Kill | Sys_SigAction | Sys_SigReturn | Sys_SigProcMask

fun SyscallNumber_raw :: "SyscallNumber \<Rightarrow> u64" where
  "SyscallNumber_raw Sys_Exit = 0"
| "SyscallNumber_raw Sys_Yield = 1"
| "SyscallNumber_raw Sys_GetPid = 2"
| "SyscallNumber_raw Sys_Fork = 3"
| "SyscallNumber_raw Sys_Exec = 4"
| "SyscallNumber_raw Sys_WaitPid = 5"
| "SyscallNumber_raw Sys_Mmap = 10"
| "SyscallNumber_raw Sys_Munmap = 11"
| "SyscallNumber_raw Sys_Write = 20"
| "SyscallNumber_raw Sys_Read = 21"
| "SyscallNumber_raw Sys_Open = 22"
| "SyscallNumber_raw Sys_Close = 23"
| "SyscallNumber_raw Sys_Send = 30"
| "SyscallNumber_raw Sys_Recv = 31"
| "SyscallNumber_raw Sys_SendRecv = 32"
| "SyscallNumber_raw Sys_RequestCap = 40"
| "SyscallNumber_raw Sys_ReleaseCap = 41"
| "SyscallNumber_raw Sys_CheckCap = 42"
| "SyscallNumber_raw Sys_GetTime = 50"
| "SyscallNumber_raw Sys_GetSystemInfo = 51"
| "SyscallNumber_raw Sys_BraneDiscover = 60"
| "SyscallNumber_raw Sys_BraneConnect = 61"
| "SyscallNumber_raw Sys_BraneSend = 62"
| "SyscallNumber_raw Sys_BraneRecv = 63"
| "SyscallNumber_raw Sys_Kill = 70"
| "SyscallNumber_raw Sys_SigAction = 71"
| "SyscallNumber_raw Sys_SigReturn = 72"
| "SyscallNumber_raw Sys_SigProcMask = 73"

definition SyscallNumber_ALL :: "SyscallNumber list" where
  "SyscallNumber_ALL =
    [Sys_Exit, Sys_Yield, Sys_GetPid, Sys_Fork, Sys_Exec, Sys_WaitPid,
     Sys_Mmap, Sys_Munmap, Sys_Write, Sys_Read, Sys_Open, Sys_Close,
     Sys_Send, Sys_Recv, Sys_SendRecv, Sys_RequestCap, Sys_ReleaseCap, Sys_CheckCap,
     Sys_GetTime, Sys_GetSystemInfo, Sys_BraneDiscover, Sys_BraneConnect, Sys_BraneSend, Sys_BraneRecv,
     Sys_Kill, Sys_SigAction, Sys_SigReturn, Sys_SigProcMask]"

definition SyscallNumber_from_raw :: "u64 \<Rightarrow> SyscallNumber option" where
  "SyscallNumber_from_raw n =
    (if n = 0 then Some Sys_Exit
     else if n = 1 then Some Sys_Yield
     else if n = 2 then Some Sys_GetPid
     else if n = 3 then Some Sys_Fork
     else if n = 4 then Some Sys_Exec
     else if n = 5 then Some Sys_WaitPid
     else if n = 10 then Some Sys_Mmap
     else if n = 11 then Some Sys_Munmap
     else if n = 20 then Some Sys_Write
     else if n = 21 then Some Sys_Read
     else if n = 22 then Some Sys_Open
     else if n = 23 then Some Sys_Close
     else if n = 30 then Some Sys_Send
     else if n = 31 then Some Sys_Recv
     else if n = 32 then Some Sys_SendRecv
     else if n = 40 then Some Sys_RequestCap
     else if n = 41 then Some Sys_ReleaseCap
     else if n = 42 then Some Sys_CheckCap
     else if n = 50 then Some Sys_GetTime
     else if n = 51 then Some Sys_GetSystemInfo
     else if n = 60 then Some Sys_BraneDiscover
     else if n = 61 then Some Sys_BraneConnect
     else if n = 62 then Some Sys_BraneSend
     else if n = 63 then Some Sys_BraneRecv
     else if n = 70 then Some Sys_Kill
     else if n = 71 then Some Sys_SigAction
     else if n = 72 then Some Sys_SigReturn
     else if n = 73 then Some Sys_SigProcMask
     else None)"

section \<open>Static mediation metadata\<close>

datatype HandlerState = Implemented | Partial | Unimplemented

datatype AuditClass =
    Class_Process | Class_Memory | Class_Io | Class_Ipc | Class_Capability | Class_System
  | Class_Brane | Class_Signal

datatype CapabilityPermission =
    Perm_Read | Perm_Write | Perm_Execute | Perm_Grant | Perm_Revoke | Perm_IpcSend | Perm_IpcRecv
  | Perm_BraneConnect | Perm_BraneDiscover | Perm_BraneSend | Perm_BraneRecv | Perm_ProcessCreate
  | Perm_ProcessSignal | Perm_MemoryMap

datatype CapabilityScope =
    Scope_System | Scope_SelfProcess | Scope_TargetProcess | Scope_DestinationProcess
  | Scope_VfsService | Scope_BraneTarget

record CapabilityRequirement =
  req_permission :: CapabilityPermission
  req_scope :: CapabilityScope

datatype AuthorizationRule =
    Auth_Deny
  | Auth_Public
  | Auth_SelfOnly
  | Auth_SelfOrChild
  | Auth_HandleOwner
  | Auth_Capability CapabilityRequirement
  | Auth_SelfOrCapability CapabilityRequirement
  | Auth_SelfOrChildOrCapability CapabilityRequirement
  | Auth_DualCapability CapabilityRequirement CapabilityRequirement

record SyscallSpec =
  spec_number :: SyscallNumber
  spec_state :: HandlerState
  spec_authorization :: AuthorizationRule
  spec_audit_class :: AuditClass
  spec_max_copy_bytes :: u64

definition MAX_COPY_NONE :: u64 where "MAX_COPY_NONE = 0"
definition MAX_COPY_PATH :: u64 where "MAX_COPY_PATH = 4 * 1024"
definition MAX_COPY_IPC :: u64 where "MAX_COPY_IPC = 4 * 1024"
definition MAX_COPY_BUFFER :: u64 where "MAX_COPY_BUFFER = 64 * 1024"

definition cap_rule :: "CapabilityPermission \<Rightarrow> CapabilityScope \<Rightarrow> AuthorizationRule" where
  "cap_rule permission scope = Auth_Capability \<lparr>req_permission = permission, req_scope = scope\<rparr>"

definition mk_spec ::
  "SyscallNumber \<Rightarrow> HandlerState \<Rightarrow> AuthorizationRule \<Rightarrow> AuditClass \<Rightarrow> u64 \<Rightarrow> SyscallSpec" where
  "mk_spec number state authorization audit_class max_copy_bytes =
     \<lparr>spec_number = number, spec_state = state, spec_authorization = authorization,
      spec_audit_class = audit_class, spec_max_copy_bytes = max_copy_bytes\<rparr>"

text \<open>The exhaustive table, in the order of the source.\<close>

definition SPECS_process_memory :: "SyscallSpec list" where
  "SPECS_process_memory = [
    mk_spec Sys_Exit Partial Auth_SelfOnly Class_Process MAX_COPY_NONE,
    mk_spec Sys_Yield Implemented Auth_SelfOnly Class_Process MAX_COPY_NONE,
    mk_spec Sys_GetPid Implemented Auth_SelfOnly Class_Process MAX_COPY_NONE,
    mk_spec Sys_Fork Unimplemented (cap_rule Perm_ProcessCreate Scope_System) Class_Process MAX_COPY_NONE,
    mk_spec Sys_Exec Unimplemented (cap_rule Perm_Execute Scope_VfsService) Class_Process MAX_COPY_PATH,
    mk_spec Sys_WaitPid Unimplemented Auth_SelfOrChild Class_Process MAX_COPY_NONE,
    mk_spec Sys_Mmap Unimplemented (cap_rule Perm_MemoryMap Scope_SelfProcess) Class_Memory MAX_COPY_NONE,
    mk_spec Sys_Munmap Unimplemented (cap_rule Perm_MemoryMap Scope_SelfProcess) Class_Memory MAX_COPY_NONE]"

definition SPECS_io_ipc :: "SyscallSpec list" where
  "SPECS_io_ipc = [
    mk_spec Sys_Write Partial (cap_rule Perm_Write Scope_VfsService) Class_Io MAX_COPY_BUFFER,
    mk_spec Sys_Read Unimplemented (cap_rule Perm_Read Scope_VfsService) Class_Io MAX_COPY_BUFFER,
    mk_spec Sys_Open Unimplemented (cap_rule Perm_Read Scope_VfsService) Class_Io MAX_COPY_PATH,
    mk_spec Sys_Close Unimplemented Auth_HandleOwner Class_Io MAX_COPY_NONE,
    mk_spec Sys_Send Partial (cap_rule Perm_IpcSend Scope_DestinationProcess) Class_Ipc MAX_COPY_IPC,
    mk_spec Sys_Recv Partial (cap_rule Perm_IpcRecv Scope_SelfProcess) Class_Ipc MAX_COPY_IPC,
    mk_spec Sys_SendRecv Unimplemented (Auth_DualCapability
      \<lparr>req_permission = Perm_IpcSend, req_scope = Scope_DestinationProcess\<rparr>
      \<lparr>req_permission = Perm_IpcRecv, req_scope = Scope_SelfProcess\<rparr>) Class_Ipc MAX_COPY_IPC]"

definition SPECS_cap_system :: "SyscallSpec list" where
  "SPECS_cap_system = [
    mk_spec Sys_RequestCap Unimplemented Auth_SelfOnly Class_Capability MAX_COPY_IPC,
    mk_spec Sys_ReleaseCap Unimplemented Auth_HandleOwner Class_Capability MAX_COPY_NONE,
    mk_spec Sys_CheckCap Unimplemented Auth_SelfOnly Class_Capability MAX_COPY_NONE,
    mk_spec Sys_GetTime Implemented Auth_Public Class_System MAX_COPY_NONE,
    mk_spec Sys_GetSystemInfo Implemented Auth_Public Class_System MAX_COPY_NONE]"

definition SPECS_brane_signal :: "SyscallSpec list" where
  "SPECS_brane_signal = [
    mk_spec Sys_BraneDiscover Unimplemented (cap_rule Perm_BraneDiscover Scope_System) Class_Brane MAX_COPY_BUFFER,
    mk_spec Sys_BraneConnect Unimplemented (cap_rule Perm_BraneConnect Scope_BraneTarget) Class_Brane MAX_COPY_PATH,
    mk_spec Sys_BraneSend Unimplemented (cap_rule Perm_BraneSend Scope_BraneTarget) Class_Brane MAX_COPY_BUFFER,
    mk_spec Sys_BraneRecv Unimplemented (cap_rule Perm_BraneRecv Scope_BraneTarget) Class_Brane MAX_COPY_BUFFER,
    mk_spec Sys_Kill Partial (Auth_SelfOrChildOrCapability
      \<lparr>req_permission = Perm_ProcessSignal, req_scope = Scope_TargetProcess\<rparr>) Class_Signal MAX_COPY_NONE,
    mk_spec Sys_SigAction Partial Auth_SelfOnly Class_Signal MAX_COPY_NONE,
    mk_spec Sys_SigReturn Partial Auth_SelfOnly Class_Signal MAX_COPY_NONE,
    mk_spec Sys_SigProcMask Implemented Auth_SelfOnly Class_Signal MAX_COPY_NONE]"

definition SYSCALL_SPECS :: "SyscallSpec list" where
  "SYSCALL_SPECS =
     SPECS_process_memory @ SPECS_io_ipc @ SPECS_cap_system @ SPECS_brane_signal"

definition syscall_spec :: "SyscallNumber \<Rightarrow> SyscallSpec option" where
  "syscall_spec number = List.find (\<lambda>s. spec_number s = number) SYSCALL_SPECS"

lemmas SYSCALL_SPECS_defs = SYSCALL_SPECS_def SPECS_process_memory_def SPECS_io_ipc_def
  SPECS_cap_system_def SPECS_brane_signal_def

section \<open>User ranges\<close>

definition USER_CANONICAL_BITS :: nat where "USER_CANONICAL_BITS = 48"
definition USER_ADDRESS_MAX :: u64 where "USER_ADDRESS_MAX = push_bit (USER_CANONICAL_BITS - 1) 1 - 1"
definition USER_PAGE_SIZE :: u64 where "USER_PAGE_SIZE = 4096"

datatype UserAccess = Access_Read | Access_Write

datatype UserRangeError =
    NullAddress | LengthExceedsMaximum | NonCanonicalStart | NonCanonicalEnd | AddressOverflow
  | OutsideUserSpace | InvalidUserLimit

record UserPagePermissions =
  present :: bool
  user_accessible :: bool
  writable :: bool

definition UserPagePermissions_unmapped :: UserPagePermissions where
  "UserPagePermissions_unmapped = \<lparr>present = False, user_accessible = False, writable = False\<rparr>"

definition UserPagePermissions_user_read_only :: UserPagePermissions where
  "UserPagePermissions_user_read_only = \<lparr>present = True, user_accessible = True, writable = False\<rparr>"

definition UserPagePermissions_user_writable :: UserPagePermissions where
  "UserPagePermissions_user_writable = \<lparr>present = True, user_accessible = True, writable = True\<rparr>"

datatype UserPageValidationError = Unmapped u64 | NotUserAccessible u64 | NotWritable u64

record UserRange =
  ur_start :: u64
  ur_len :: u64
  ur_access :: UserAccess

definition is_canonical_user_address :: "u64 \<Rightarrow> bool" where
  "is_canonical_user_address address \<longleftrightarrow> address \<le> USER_ADDRESS_MAX"

definition UserRange_new_with_user_limit ::
  "u64 \<Rightarrow> u64 \<Rightarrow> UserAccess \<Rightarrow> u64 \<Rightarrow> u64 \<Rightarrow> (UserRange, UserRangeError) result" where
  "UserRange_new_with_user_limit start len access max_copy_bytes user_address_max =
     (if user_address_max > USER_ADDRESS_MAX then Err InvalidUserLimit
      else if start = 0 \<and> len \<noteq> 0 then Err NullAddress
      else if len > max_copy_bytes then Err LengthExceedsMaximum
      else if \<not> is_canonical_user_address start then Err NonCanonicalStart
      else case checked_add start len of
        None \<Rightarrow> Err AddressOverflow
      | Some end' \<Rightarrow>
          if len \<noteq> 0 then
            (let last = end' - 1 in
             if \<not> is_canonical_user_address last then Err NonCanonicalEnd
             else case checked_add user_address_max 1 of
               None \<Rightarrow> Err InvalidUserLimit
             | Some user_end \<Rightarrow>
                 if end' > user_end then Err OutsideUserSpace
                 else Ok \<lparr>ur_start = start, ur_len = len, ur_access = access\<rparr>)
          else if start > user_address_max then Err OutsideUserSpace
          else Ok \<lparr>ur_start = start, ur_len = len, ur_access = access\<rparr>)"

definition UserRange_new ::
  "u64 \<Rightarrow> u64 \<Rightarrow> UserAccess \<Rightarrow> u64 \<Rightarrow> (UserRange, UserRangeError) result" where
  "UserRange_new start len access max_copy_bytes =
     UserRange_new_with_user_limit start len access max_copy_bytes USER_ADDRESS_MAX"

definition UserRange_is_empty :: "UserRange \<Rightarrow> bool" where
  "UserRange_is_empty r \<longleftrightarrow> ur_len r = 0"

definition UserRange_end_exclusive :: "UserRange \<Rightarrow> (u64, UserRangeError) result" where
  "UserRange_end_exclusive r = ok_or AddressOverflow (checked_add (ur_start r) (ur_len r))"

definition UserRange_page_count :: "UserRange \<Rightarrow> u64" where
  "UserRange_page_count r =
     (if ur_len r = 0 then 0
      else let last = ur_start r + ur_len r - 1
           in last div USER_PAGE_SIZE - ur_start r div USER_PAGE_SIZE + 1)"

definition UserRange_crosses_page_boundary :: "UserRange \<Rightarrow> bool" where
  "UserRange_crosses_page_boundary r \<longleftrightarrow> UserRange_page_count r > 1"

text \<open>The body of the page loop, and the loop over the page indices.\<close>

fun validate_pages_loop ::
  "UserAccess \<Rightarrow> u64 \<Rightarrow> (u64 \<Rightarrow> UserPagePermissions) \<Rightarrow> nat list \<Rightarrow>
   (unit, UserPageValidationError) result" where
  "validate_pages_loop access first_page resolve [] = Ok ()"
| "validate_pages_loop access first_page resolve (page_index # rest) =
     (let page = first_page + of_nat page_index * USER_PAGE_SIZE;
          permissions = resolve page
      in if \<not> present permissions then Err (Unmapped page)
         else if \<not> user_accessible permissions then Err (NotUserAccessible page)
         else if access = Access_Write \<and> \<not> writable permissions then Err (NotWritable page)
         else validate_pages_loop access first_page resolve rest)"

definition UserRange_validate_pages ::
  "UserRange \<Rightarrow> (u64 \<Rightarrow> UserPagePermissions) \<Rightarrow> (unit, UserPageValidationError) result" where
  "UserRange_validate_pages r resolve =
     (if UserRange_is_empty r then Ok ()
      else let first_page = (ur_start r div USER_PAGE_SIZE) * USER_PAGE_SIZE
           in validate_pages_loop (ur_access r) first_page resolve
                [0 ..< unat (UserRange_page_count r)])"

text \<open>What a validated page must allow (the negation of the loop's three rejections).\<close>

definition page_allows :: "UserAccess \<Rightarrow> UserPagePermissions \<Rightarrow> bool" where
  "page_allows access p \<longleftrightarrow> present p \<and> user_accessible p \<and> (access = Access_Write \<longrightarrow> writable p)"

section \<open>Results and error codes\<close>

datatype SyscallError =
    InvalidSyscall | InvalidArgument | PermissionDenied | NotFound | OutOfMemory | WouldBlock
  | NoMessage | InvalidDestination | BraneNotConnected | Internal

datatype SyscallResult = SysOk u64 | SysErr SyscallError

fun SyscallError_code :: "SyscallError \<Rightarrow> i64" where
  "SyscallError_code InvalidSyscall = - 1"
| "SyscallError_code InvalidArgument = - 2"
| "SyscallError_code PermissionDenied = - 3"
| "SyscallError_code NotFound = - 4"
| "SyscallError_code OutOfMemory = - 5"
| "SyscallError_code WouldBlock = - 6"
| "SyscallError_code NoMessage = - 7"
| "SyscallError_code InvalidDestination = - 8"
| "SyscallError_code BraneNotConnected = - 9"
| "SyscallError_code Internal = - 100"

fun SyscallResult_to_raw :: "SyscallResult \<Rightarrow> i64" where
  "SyscallResult_to_raw (SysOk val) = val"
| "SyscallResult_to_raw (SysErr e) = SyscallError_code e"

section \<open>Entry state\<close>

record SyscallContext =
  ctx_number :: u64
  ctx_arg1 :: u64
  ctx_arg2 :: u64
  ctx_arg3 :: u64
  ctx_arg4 :: u64
  ctx_arg5 :: u64

record CallerContext =
  caller_task_id :: TaskId
  caller_pid :: Pid
  caller_cpu_id :: u16

definition VFS_SERVICE_ID :: u64 where "VFS_SERVICE_ID = 1"

section \<open>The ABI table\<close>

lemma SyscallNumber_from_raw_raw [simp]: "SyscallNumber_from_raw (SyscallNumber_raw s) = Some s"
  by (cases s) (simp_all add: SyscallNumber_from_raw_def)

lemma SyscallNumber_from_raw_SomeD: "SyscallNumber_from_raw n = Some s \<Longrightarrow> SyscallNumber_raw s = n"
  unfolding SyscallNumber_from_raw_def by (auto split: if_split_asm)

lemma spec_numbers: "map spec_number SYSCALL_SPECS = SyscallNumber_ALL"
  by (simp add: SYSCALL_SPECS_defs SyscallNumber_ALL_def mk_spec_def)

lemma distinct_ALL: "distinct SyscallNumber_ALL"
  by (simp add: SyscallNumber_ALL_def)

lemma in_ALL: "s \<in> set SyscallNumber_ALL"
  by (cases s) (simp_all add: SyscallNumber_ALL_def)

lemma USER_ADDRESS_MAX_eq: "USER_ADDRESS_MAX = 0x7FFFFFFFFFFF"
  by (simp add: USER_ADDRESS_MAX_def USER_CANONICAL_BITS_def push_bit_eq_mult)

lemma unat_USER_ADDRESS_MAX: "unat USER_ADDRESS_MAX = 2 ^ 47 - 1"
  by (simp add: USER_ADDRESS_MAX_eq)

lemma UserRange_new_iff:
  "UserRange_new_with_user_limit start len access m lim = Ok r \<longleftrightarrow>
     r = \<lparr>ur_start = start, ur_len = len, ur_access = access\<rparr> \<and> lim \<le> USER_ADDRESS_MAX \<and> len \<le> m \<and>
     (if len = 0 then start \<le> lim else start \<noteq> 0 \<and> unat start + unat len \<le> unat lim + 1)"
proof -
  have max: "unat USER_ADDRESS_MAX = 2 ^ 47 - 1" by (rule unat_USER_ADDRESS_MAX)
  show ?thesis
  proof (cases "lim \<le> USER_ADDRESS_MAX")
    case False
    then show ?thesis by (simp add: UserRange_new_with_user_limit_def not_le)
  next
    case lim: True
    then have l: "unat lim < 2 ^ 47" using max by (simp add: word_le_nat_alt)
    have lim1: "checked_add lim 1 = Some (lim + 1)" and ulim: "unat (lim + 1) = unat lim + 1"
      using l by (auto simp: checked_add_def unat_plus_one unat_word_ariths)
    show ?thesis
    proof (cases "len = 0")
      case True
      then show ?thesis using lim
        by (auto simp: UserRange_new_with_user_limit_def is_canonical_user_address_def not_less)
    next
      case False
      then have lpos: "0 < unat len" by (simp add: unat_gt_0)
      show ?thesis
      proof (cases "unat start + unat len \<le> unat lim + 1")
        case True
        then have s: "checked_add start len = Some (start + len)" "unat (start + len) = unat start + unat len"
          using l by (auto simp: checked_add_def unat_word_ariths)
        have last: "unat (start + len - 1) = unat start + unat len - 1"
          using s lpos by (subst unat_minus_one) auto
        then show ?thesis using True False lim l s lim1 ulim lpos max
          by (auto simp: UserRange_new_with_user_limit_def is_canonical_user_address_def Let_def word_le_nat_alt word_less_nat_alt)
      next
        case big: False
        have "\<not> (checked_add start len = Some (start + len) \<and> start + len \<le> lim + 1)"
          using big ulim by (auto simp: checked_add_Some_iff word_le_nat_alt)
        then show ?thesis using False lim lim1 big
          by (auto simp: UserRange_new_with_user_limit_def Let_def not_less not_le checked_add_Some_iff split: option.splits if_splits)
      qed
    qed
  qed
qed


lemma validate_pages_loop_Ok_iff:
  "validate_pages_loop access f resolve is = Ok () \<longleftrightarrow>
     (\<forall>i \<in> set is. page_allows access (resolve (f + of_nat i * USER_PAGE_SIZE)))"
  by (induction "is") (auto simp: Let_def page_allows_def)

lemma page_word: "(a :: u64) div USER_PAGE_SIZE * USER_PAGE_SIZE = of_nat (unat a div 4096 * 4096)"
  by (simp add: USER_PAGE_SIZE_def word_arith_nat_div)

lemma UserRange_new_bounds:
  assumes "UserRange_new start len access m = Ok r"
  shows "r = \<lparr>ur_start = start, ur_len = len, ur_access = access\<rparr>" "unat start + unat len \<le> 2 ^ 47"
  using assms unat_USER_ADDRESS_MAX
  by (auto simp: UserRange_new_def UserRange_new_iff word_le_nat_alt unat_gt_0 split: if_splits)

lemma unat_page_count:
  assumes "unat s + unat l \<le> 2 ^ 47" "l \<noteq> 0"
  shows "unat (UserRange_page_count \<lparr>ur_start = s, ur_len = l, ur_access = acc\<rparr>) =
    (unat s + unat l - 1) div 4096 - unat s div 4096 + 1"
proof -
  have l: "0 < unat l" using assms(2) by (simp add: unat_gt_0)
  have sl: "unat (s + l) = unat s + unat l" using assms by (simp add: unat_word_ariths)
  have last: "unat (s + l - 1) = unat s + unat l - 1" using sl l by (subst unat_minus_one) auto
  have d: "unat ((s + l - 1) div USER_PAGE_SIZE) = (unat s + unat l - 1) div 4096"
    "unat (s div USER_PAGE_SIZE) = unat s div 4096"
    by (simp_all add: USER_PAGE_SIZE_def unat_div last)
  have le: "unat s div 4096 \<le> (unat s + unat l - 1) div 4096" using l by (intro div_le_mono) simp
  then have diff: "unat ((s + l - 1) div USER_PAGE_SIZE - s div USER_PAGE_SIZE) =
      (unat s + unat l - 1) div 4096 - unat s div 4096"
    using d by (subst unat_sub) (simp_all add: word_le_nat_alt)
  have "(unat s + unat l - 1) div 4096 \<le> 2 ^ 47"
    using assms by (meson div_le_dividend diff_le_self le_trans)
  then have "(unat s + unat l - 1) div 4096 - unat s div 4096 + 1 < 2 ^ 64" by simp
  then show ?thesis using assms(2) diff
    by (simp add: UserRange_page_count_def Let_def unat_word_ariths mod_less)
qed

lemma validate_pages_bytes:
  assumes r: "UserRange_new start len access m = Ok r"
  shows "UserRange_validate_pages r resolve = Ok () \<longleftrightarrow>
    (\<forall>a. start \<le> a \<and> unat a < unat start + unat len \<longrightarrow>
         page_allows access (resolve (a div USER_PAGE_SIZE * USER_PAGE_SIZE)))"
proof (cases "len = 0")
  case True
  then show ?thesis using UserRange_new_bounds(1) [OF r]
    by (auto simp: UserRange_validate_pages_def UserRange_is_empty_def word_le_nat_alt)
next
  case False
  let ?s = "unat start" and ?l = "unat len"
  let ?Q = "\<lambda>n. page_allows access (resolve (of_nat (n * 4096)))"
  note b = UserRange_new_bounds [OF r]
  have l: "0 < ?l" using False by (simp add: unat_gt_0)
  have page: "start div USER_PAGE_SIZE * USER_PAGE_SIZE + of_nat i * USER_PAGE_SIZE =
      (of_nat ((?s div 4096 + i) * 4096) :: u64)" for i
    unfolding page_word by (simp add: USER_PAGE_SIZE_def algebra_simps)
  have "UserRange_validate_pages r resolve = Ok () \<longleftrightarrow>
      (\<forall>i < (?s + ?l - 1) div 4096 - ?s div 4096 + 1. ?Q (?s div 4096 + i))"
    using False unat_page_count [OF b(2) False, of access]
    by (simp add: UserRange_validate_pages_def UserRange_is_empty_def b(1) Let_def
        validate_pages_loop_Ok_iff page Ball_def del: upt_Suc)
  also have "\<dots> \<longleftrightarrow> (\<forall>a. ?s \<le> a \<and> a < ?s + ?l \<longrightarrow> ?Q (a div 4096))"
    by (rule blocks_of_range) (use l in auto)
  also have "\<dots> \<longleftrightarrow> (\<forall>a. start \<le> a \<and> unat a < ?s + ?l \<longrightarrow> ?Q (unat a div 4096))"
    using b(2) by (subst ball_word_range) simp_all
  finally show ?thesis unfolding page_word .
qed

lemma syscall_spec_total:
  "\<exists>s. syscall_spec n = Some s \<and> spec_number s = n \<and>
       filter (\<lambda>t. spec_number t = n) SYSCALL_SPECS = [s]"
proof -
  have "distinct (map spec_number SYSCALL_SPECS)" by (simp add: spec_numbers distinct_ALL)
  moreover have "n \<in> spec_number ` set SYSCALL_SPECS" using spec_numbers in_ALL [of n] by (metis set_map)
  ultimately show ?thesis unfolding syscall_spec_def by (rule find_unique_by)
qed

section \<open>Properties\<close>

text \<open>
  Decoding a raw system-call number is the exact inverse of the ABI encoding: a number
  decodes to a call if and only if it is that call's code, so every other number is rejected.
\<close>

theorem syscall_number_decoding:
  "SyscallNumber_from_raw n = Some s \<longleftrightarrow> SyscallNumber_raw s = n"
  using SyscallNumber_from_raw_raw SyscallNumber_from_raw_SomeD by metis

text \<open>
  C36. The mediation table is exhaustive and unambiguous: its entries are the 28 ABI numbers in
  order, and the lookup of any call finds the one entry that carries its own number.
\<close>

theorem mediation_table_exhaustive:
  "map spec_number SYSCALL_SPECS = SyscallNumber_ALL \<and>
   (\<forall>n. \<exists>s. syscall_spec n = Some s \<and> spec_number s = n \<and>
      filter (\<lambda>t. spec_number t = n) SYSCALL_SPECS = [s])"
  using spec_numbers syscall_spec_total by blast

text \<open>
  C28. A user range is accepted exactly when its limit is a user limit, its length is within the
  copy budget, and the whole range, computed without wrap-around, lies at or below the limit
  (and a non-empty range does not start at address zero).
\<close>

theorem user_range_accepted_iff:
  "UserRange_new_with_user_limit start len access max_copy limit = Ok r \<longleftrightarrow>
     r = \<lparr>ur_start = start, ur_len = len, ur_access = access\<rparr> \<and>
     limit \<le> USER_ADDRESS_MAX \<and> len \<le> max_copy \<and>
     (if len = 0 then start \<le> limit
      else start \<noteq> 0 \<and> unat start + unat len \<le> unat limit + 1)"
  by (rule UserRange_new_iff)

text \<open>
  C29. Page validation of an accepted range succeeds if and only if the page of every single byte
  of the range is present, user accessible and, for writes, writable: no touched page is skipped
  and no other page is required.
\<close>

theorem page_validation_covers_every_byte:
  assumes "UserRange_new start len access max_copy = Ok r"
  shows "UserRange_validate_pages r resolve = Ok () \<longleftrightarrow>
    (\<forall>a. start \<le> a \<and> unat a < unat start + unat len \<longrightarrow>
         page_allows access (resolve (a div USER_PAGE_SIZE * USER_PAGE_SIZE)))"
  using assms by (rule validate_pages_bytes)

theorem page_validation_covers_every_byte_witness:
  "UserRange_new 0x4FFF 2 Access_Read 2 =
     Ok \<lparr>ur_start = 0x4FFF, ur_len = 2, ur_access = Access_Read\<rparr> \<and>
   UserRange_validate_pages \<lparr>ur_start = 0x4FFF, ur_len = 2, ur_access = Access_Read\<rparr>
     (\<lambda>page. if page = 0x5000 then UserPagePermissions_unmapped
             else UserPagePermissions_user_read_only) \<noteq> Ok ()"
    (is "_ \<and> UserRange_validate_pages ?r ?resolve \<noteq> _")
proof
  show r: "UserRange_new 0x4FFF 2 Access_Read 2 = Ok ?r"
    by (simp add: UserRange_new_def UserRange_new_iff USER_ADDRESS_MAX_eq)
  have "\<not> page_allows Access_Read (?resolve (0x5000 div USER_PAGE_SIZE * USER_PAGE_SIZE))"
    by (simp add: USER_PAGE_SIZE_def page_allows_def UserPagePermissions_unmapped_def)
  moreover have "(0x4FFF :: u64) \<le> 0x5000 \<and> unat (0x5000 :: u64) < unat (0x4FFF :: u64) + unat (2 :: u64)"
    by simp
  ultimately show "UserRange_validate_pages ?r ?resolve \<noteq> Ok ()"
    unfolding page_validation_covers_every_byte [OF r] by blast
qed

end
