(* ===== verification/Audit_Log.thy ===== *)
theory Audit_Log
  imports Ring Syscall_Abi
begin

text \<open>
  The audit log, \<^verbatim>\<open>src/kernel/src/audit.rs\<close>: a ring of the last 512 events with running
  sequence numbers, and the recording functions. The scheduler tick and the CPU index that
  \<^verbatim>\<open>snapshot_tick_cpu\<close> reads before the log is locked are the argument \<open>snap\<close> of the
  wrappers. The ring refines the full history of events: what it holds, returns and counts is a
  function of that history.
\<close>

section \<open>Events\<close>

record AuditOrigin =
  orig_task_id :: "TaskId option"
  orig_pid :: "Pid option"
  orig_cpu_id :: u16

definition AuditOrigin_anonymous :: "u16 \<Rightarrow> AuditOrigin" where
  "AuditOrigin_anonymous cpu_id = \<lparr>orig_task_id = None, orig_pid = None, orig_cpu_id = cpu_id\<rparr>"

datatype AuditAction =
    Act_SyscallInvoked u64
  | Act_SyscallCompleted u64 "AuditClass option"
  | Act_CapabilityChecked CapabilityId
  | Act_CapabilityGranted CapabilityId
  | Act_CapabilityRevoked CapabilityId
  | Act_IpcMessageSent TaskId
  | Act_IpcMessageReceived TaskId
  | Act_BraneConnected u64
  | Act_BraneDisconnected u64
  | Act_AiActionRequested u64
  | Act_AiActionAuthorized u64
  | Act_AiActionDenied u64
  | Act_PolicyEvaluated u64
  | Act_TaskCreated TaskId
  | Act_TaskTerminated TaskId

datatype AuditResult = Audit_Success | Audit_Denied | Audit_Error i64 | Audit_Escalated

record AuditEvent =
  ev_seq :: u64
  ev_tick :: u64
  ev_source :: "TaskId option"
  ev_pid :: "Pid option"
  ev_cpu_id :: u16
  ev_action :: AuditAction
  ev_capability_used :: "CapabilityId option"
  ev_result :: AuditResult

section \<open>The ring\<close>

definition AUDIT_LOG_SIZE :: nat where "AUDIT_LOG_SIZE = 512"

record AuditLog =
  al_events :: "AuditEvent option list"
  al_head :: nat
  al_count :: nat
  al_next_seq :: u64
  al_total_events :: u64
  al_overwritten :: u64

definition AuditLog_new :: AuditLog where
  "AuditLog_new = \<lparr>al_events = replicate AUDIT_LOG_SIZE None, al_head = 0, al_count = 0,
     al_next_seq = 1, al_total_events = 0, al_overwritten = 0\<rparr>"

definition AuditLog_record_at ::
  "u64 \<Rightarrow> AuditOrigin \<Rightarrow> AuditAction \<Rightarrow> CapabilityId option \<Rightarrow> AuditResult \<Rightarrow> AuditLog \<Rightarrow> AuditLog" where
  "AuditLog_record_at tick origin action capability_used result log =
     (let event = \<lparr>ev_seq = al_next_seq log, ev_tick = tick, ev_source = orig_task_id origin,
                   ev_pid = orig_pid origin, ev_cpu_id = orig_cpu_id origin, ev_action = action,
                   ev_capability_used = capability_used, ev_result = result\<rparr>;
          idx = (al_head log + al_count log) mod AUDIT_LOG_SIZE;
          log = (if al_count log < AUDIT_LOG_SIZE then log\<lparr>al_count := al_count log + 1\<rparr>
                 else log\<lparr>al_head := (al_head log + 1) mod AUDIT_LOG_SIZE,
                          al_overwritten := al_overwritten log + 1\<rparr>)
      in log\<lparr>al_events := (al_events log)[idx := Some event],
             al_next_seq := al_next_seq log + 1,
             al_total_events := al_total_events log + 1\<rparr>)"

definition AuditLog_last_n :: "AuditLog \<Rightarrow> nat \<Rightarrow> AuditEvent list" where
  "AuditLog_last_n log n =
     (let k = min n (al_count log)
      in List.map_filter (\<lambda>i. al_events log ! ((al_head log + al_count log - 1 - i) mod AUDIT_LOG_SIZE))
           [0..<k])"

definition AuditLog_total_events :: "AuditLog \<Rightarrow> u64" where
  "AuditLog_total_events log = al_total_events log"

definition AuditLog_buffered_count :: "AuditLog \<Rightarrow> nat" where
  "AuditLog_buffered_count log = al_count log"

definition AuditLog_overwritten_count :: "AuditLog \<Rightarrow> u64" where
  "AuditLog_overwritten_count log = al_overwritten log"

section \<open>Recording functions\<close>

type_synonym tick_cpu = "u64 \<times> u16"

definition current_origin :: "TaskId option \<Rightarrow> u16 \<Rightarrow> AuditOrigin" where
  "current_origin source cpu_id = \<lparr>orig_task_id = source, orig_pid = None, orig_cpu_id = cpu_id\<rparr>"

definition audit_record ::
  "tick_cpu \<Rightarrow> TaskId \<Rightarrow> AuditAction \<Rightarrow> CapabilityId option \<Rightarrow> AuditResult \<Rightarrow> AuditLog \<Rightarrow> AuditLog" where
  "audit_record snap source action capability_used result log =
     (case snap of (tick, cpu_id) \<Rightarrow>
        AuditLog_record_at tick (current_origin (Some source) cpu_id) action capability_used result log)"

definition record_anonymous :: "tick_cpu \<Rightarrow> AuditAction \<Rightarrow> AuditResult \<Rightarrow> AuditLog \<Rightarrow> AuditLog" where
  "record_anonymous snap action result log =
     (case snap of (tick, cpu_id) \<Rightarrow>
        AuditLog_record_at tick (AuditOrigin_anonymous cpu_id) action None result log)"

definition log_syscall ::
  "tick_cpu \<Rightarrow> CallerContext option \<Rightarrow> u64 \<Rightarrow> AuditClass option \<Rightarrow> CapabilityId option \<Rightarrow> AuditResult \<Rightarrow>
   AuditLog \<Rightarrow> AuditLog" where
  "log_syscall snap caller number class capability_used result log =
     (case snap of (tick, cpu_id) \<Rightarrow>
        let origin = (case caller of
              Some c \<Rightarrow> \<lparr>orig_task_id = Some (caller_task_id c), orig_pid = Some (caller_pid c),
                         orig_cpu_id = caller_cpu_id c\<rparr>
            | None \<Rightarrow> current_origin None cpu_id)
        in AuditLog_record_at tick origin (Act_SyscallCompleted number class) capability_used result log)"

definition log_cap_check :: "tick_cpu \<Rightarrow> TaskId \<Rightarrow> CapabilityId \<Rightarrow> AuditResult \<Rightarrow> AuditLog \<Rightarrow> AuditLog" where
  "log_cap_check snap source cap_id result log =
     audit_record snap source (Act_CapabilityChecked cap_id) (Some cap_id) result log"

definition log_ipc_send :: "tick_cpu \<Rightarrow> TaskId \<Rightarrow> TaskId \<Rightarrow> AuditResult \<Rightarrow> AuditLog \<Rightarrow> AuditLog" where
  "log_ipc_send snap source dest result log =
     audit_record snap source (Act_IpcMessageSent dest) None result log"

definition log_brane_connect :: "tick_cpu \<Rightarrow> TaskId \<Rightarrow> u64 \<Rightarrow> AuditResult \<Rightarrow> AuditLog \<Rightarrow> AuditLog" where
  "log_brane_connect snap source brane_id result log =
     audit_record snap source (Act_BraneConnected brane_id) None result log"

section \<open>The history a log refines\<close>

text \<open>A request is what \<open>record_at\<close> is given; the history numbers the requests from 1.\<close>

type_synonym audit_request = "u64 \<times> AuditOrigin \<times> AuditAction \<times> CapabilityId option \<times> AuditResult"

definition request_event :: "u64 \<Rightarrow> audit_request \<Rightarrow> AuditEvent" where
  "request_event n req = (case req of (tick, origin, action, cap, result) \<Rightarrow>
     \<lparr>ev_seq = n, ev_tick = tick, ev_source = orig_task_id origin, ev_pid = orig_pid origin,
      ev_cpu_id = orig_cpu_id origin, ev_action = action, ev_capability_used = cap, ev_result = result\<rparr>)"

definition audit_history :: "audit_request list \<Rightarrow> AuditEvent list" where
  "audit_history reqs = map (\<lambda>i. request_event (of_nat (Suc i)) (reqs ! i)) [0..<length reqs]"

definition record_request :: "audit_request \<Rightarrow> AuditLog \<Rightarrow> AuditLog" where
  "record_request req log = (case req of (tick, origin, action, cap, result) \<Rightarrow>
     AuditLog_record_at tick origin action cap result log)"

definition audit_run :: "audit_request list \<Rightarrow> AuditLog" where
  "audit_run reqs = fold record_request reqs AuditLog_new"

text \<open>The abstraction relation.\<close>

definition audit_refines :: "AuditEvent list \<Rightarrow> AuditLog \<Rightarrow> bool" where
  "audit_refines hist log \<longleftrightarrow>
     length (al_events log) = AUDIT_LOG_SIZE \<and> al_head log < AUDIT_LOG_SIZE \<and>
     al_count log = min (length hist) AUDIT_LOG_SIZE \<and>
     ring_list (al_events log) (al_head log) (al_count log) =
       map Some (drop (length hist - AUDIT_LOG_SIZE) hist) \<and>
     al_next_seq log = of_nat (Suc (length hist)) \<and>
     al_total_events log = of_nat (length hist) \<and>
     al_overwritten log = of_nat (length hist - AUDIT_LOG_SIZE)"

lemma audit_refines_new: "audit_refines [] AuditLog_new"
  by (simp add: audit_refines_def AuditLog_new_def AUDIT_LOG_SIZE_def)

lemma audit_refines_record:
  assumes "audit_refines hist log"
  shows "audit_refines
    (hist @ [request_event (of_nat (Suc (length hist))) (tick, origin, action, cap, result)])
    (AuditLog_record_at tick origin action cap result log)"
proof -
  let ?e = "request_event (of_nat (Suc (length hist))) (tick, origin, action, cap, result)"
  have h: "length (al_events log) = AUDIT_LOG_SIZE" "al_head log < AUDIT_LOG_SIZE"
    "al_count log = min (length hist) AUDIT_LOG_SIZE"
    "ring_list (al_events log) (al_head log) (al_count log) =
       map Some (drop (length hist - AUDIT_LOG_SIZE) hist)"
    "al_next_seq log = of_nat (Suc (length hist))"
    using assms unfolding audit_refines_def by blast+
  show ?thesis
  proof (cases "length hist < AUDIT_LOG_SIZE")
    case True
    then have "ring_list ((al_events log)[(al_head log + length hist) mod AUDIT_LOG_SIZE := Some ?e])
        (al_head log) (Suc (length hist)) = map Some (hist @ [?e])"
      using h ring_list_snoc [of "length hist" "al_events log" "al_head log" "Some ?e"] by simp
    with True assms show ?thesis
      by (simp add: audit_refines_def AuditLog_record_at_def Let_def request_event_def)
  next
    case False
    then have c: "al_count log = AUDIT_LOG_SIZE" using h(3) by simp
    have idx: "(al_head log + al_count log) mod AUDIT_LOG_SIZE = al_head log" using c h(2) by simp
    have "ring_list ((al_events log)[al_head log := Some ?e])
        ((al_head log + 1) mod AUDIT_LOG_SIZE) AUDIT_LOG_SIZE =
        map Some (drop (Suc (length hist) - AUDIT_LOG_SIZE) (hist @ [?e]))"
      using ring_list_overwrite [of "al_head log" "al_events log" "Some ?e"] h c False
      by (simp add: tl_drop [symmetric] map_tl Suc_diff_le drop_Suc)
    with False assms c idx show ?thesis
      by (simp add: audit_refines_def AuditLog_record_at_def Let_def request_event_def Suc_diff_le)
  qed
qed

lemma audit_history_snoc:
  "audit_history (reqs @ [r]) = audit_history reqs @ [request_event (of_nat (Suc (length reqs))) r]"
  by (auto simp: audit_history_def nth_append intro!: map_cong)

lemma length_audit_history [simp]: "length (audit_history reqs) = length reqs"
  by (simp add: audit_history_def)

lemma audit_run_refines: "audit_refines (audit_history reqs) (audit_run reqs)"
proof (induction reqs rule: rev_induct)
  case Nil
  then show ?case by (simp add: audit_history_def audit_run_def audit_refines_new)
next
  case (snoc r reqs)
  obtain tick orig act cp res where r: "r = (tick, orig, act, cp, res)" by (cases r)
  from audit_refines_record [OF snoc.IH, of tick orig act cp res] show ?case
    by (simp add: audit_history_snoc audit_run_def record_request_def r)
qed

lemma last_n_refines:
  assumes "audit_refines hist log"
  shows "AuditLog_last_n log n = take (min n AUDIT_LOG_SIZE) (rev hist)"
proof -
  let ?L = "drop (length hist - AUDIT_LOG_SIZE) hist" and ?k = "min n (al_count log)"
  have h: "length (al_events log) = AUDIT_LOG_SIZE" "al_count log = min (length hist) AUDIT_LOG_SIZE"
    "ring_list (al_events log) (al_head log) (al_count log) = map Some ?L"
    using assms unfolding audit_refines_def by blast+
  have L: "length ?L = al_count log" using h(2) by auto
  have cell: "al_events log ! ((al_head log + al_count log - 1 - i) mod AUDIT_LOG_SIZE) =
      Some (?L ! (length ?L - 1 - i))" if "i < ?k" for i
  proof -
    have j: "al_count log - 1 - i < al_count log" using that by auto
    have "al_head log + al_count log - 1 - i = al_head log + (al_count log - 1 - i)" using that by auto
    then have "al_events log ! ((al_head log + al_count log - 1 - i) mod AUDIT_LOG_SIZE) =
        ring_list (al_events log) (al_head log) (al_count log) ! (al_count log - 1 - i)"
      using j h(1) by (simp add: nth_ring_list)
    then show ?thesis using h(3) j L by simp
  qed
  have "AuditLog_last_n log n = map (\<lambda>i. ?L ! (length ?L - 1 - i)) [0..<?k]"
    unfolding AuditLog_last_n_def Let_def using cell by (intro map_filter_total) simp
  also have "\<dots> = take ?k (rev ?L)" using L by (intro take_rev_nth) simp
  also have "\<dots> = take (min n AUDIT_LOG_SIZE) (rev hist)"
    using h(2) by (simp add: rev_drop min_def)
  finally show ?thesis .
qed

section \<open>Properties\<close>

text \<open>
  C11. The audit ring is a faithful window on the history: after any sequence of recorded
  requests, \<open>last_n\<close> returns the newest events first, numbered consecutively from 1 and exactly as
  they were requested, and is cut only by \<open>n\<close> and by the 512 retained events; the counters tell how
  many were recorded, are buffered and were overwritten.
\<close>

theorem audit_log_is_recent_history:
  "AuditLog_last_n (audit_run reqs) n = take (min n AUDIT_LOG_SIZE) (rev (audit_history reqs)) \<and>
   AuditLog_total_events (audit_run reqs) = of_nat (length reqs) \<and>
   AuditLog_buffered_count (audit_run reqs) = min (length reqs) AUDIT_LOG_SIZE \<and>
   AuditLog_overwritten_count (audit_run reqs) = of_nat (length reqs - AUDIT_LOG_SIZE)"
  using last_n_refines [OF audit_run_refines] audit_run_refines [of reqs]
  by (simp add: audit_refines_def AuditLog_total_events_def AuditLog_buffered_count_def
      AuditLog_overwritten_count_def)

end
