(* ===== verification/Cap_Service.thy ===== *)
theory Cap_Service
  imports Security Audit_Log
begin

text \<open>
  The global capability service of \<^verbatim>\<open>src/kernel/src/security.rs\<close>: \<^verbatim>\<open>grant_capability\<close> and
  \<^verbatim>\<open>revoke_capability\<close>, which change the capability table and then append an audit event. The
  snapshot of tick and CPU that the audit path takes is an argument.
\<close>

section \<open>Operations\<close>

record cap_service =
  sv_caps :: CapabilityManager
  sv_log :: AuditLog

definition grant_capability ::
  "tick_cpu \<Rightarrow> TaskId \<Rightarrow> CapScope \<Rightarrow> CapPermissions \<Rightarrow> RiskLevel \<Rightarrow> bool \<Rightarrow> cap_service \<Rightarrow>
   (CapabilityId, CapError) result \<times> cap_service" where
  "grant_capability snap owner scope permissions risk_level revocable s =
     (case CapabilityManager_grant owner scope permissions risk_level revocable (sv_caps s) of
        (result, m) \<Rightarrow>
          (let s = s\<lparr>sv_caps := m\<rparr>
           in (result, case result of
                 Inr cid \<Rightarrow> s\<lparr>sv_log := audit_record snap owner (Act_CapabilityGranted cid) None Audit_Success (sv_log s)\<rparr>
               | Inl _ \<Rightarrow> s)))"

definition revoke_audit_result :: "(unit, CapError) result \<Rightarrow> AuditResult" where
  "revoke_audit_result result =
     (case result of
        Inr _ \<Rightarrow> Audit_Success
      | Inl e \<Rightarrow> if e = CapErr_PermissionDenied then Audit_Denied else Audit_Error (cap_error_code e))"

definition revoke_capability ::
  "tick_cpu \<Rightarrow> CapabilityId \<Rightarrow> cap_service \<Rightarrow> (unit, CapError) result \<times> cap_service" where
  "revoke_capability snap cid s =
     (let owner = map_option cap_owner (List.find (\<lambda>c. cap_id c = cid) (flatten (cm_capabilities (sv_caps s))))
      in case CapabilityManager_revoke cid (sv_caps s) of
           (result, m) \<Rightarrow>
             (let audit_result = revoke_audit_result result
              in (result, s\<lparr>sv_caps := m, sv_log :=
                    (case owner of
                       Some ow \<Rightarrow> audit_record snap ow (Act_CapabilityRevoked cid) None audit_result (sv_log s)
                     | None \<Rightarrow> record_anonymous snap (Act_CapabilityRevoked cid) audit_result (sv_log s))\<rparr>)))"

section \<open>Runs and their audit trail\<close>

fun svc_exec :: "tick_cpu \<times> CapOp \<Rightarrow> cap_service \<Rightarrow> cap_service" where
  "svc_exec (snap, Op_Grant ow sc p r v) s = snd (grant_capability snap ow sc p r v s)"
| "svc_exec (snap, Op_Revoke i) s = snd (revoke_capability snap i s)"

definition svc_run :: "(tick_cpu \<times> CapOp) list \<Rightarrow> cap_service" where
  "svc_run ops = fold svc_exec ops \<lparr>sv_caps = CapabilityManager_new, sv_log = AuditLog_new\<rparr>"

definition live_ids :: "CapabilityManager \<Rightarrow> CapabilityId set" where
  "live_ids m = cap_id ` set (flatten (cm_capabilities m))"

definition granted_ids :: "AuditEvent list \<Rightarrow> CapabilityId set" where
  "granted_ids evs = {i. \<exists>e \<in> set evs. ev_action e = Act_CapabilityGranted i}"

definition revoked_ids :: "AuditEvent list \<Rightarrow> CapabilityId set" where
  "revoked_ids evs = {i. \<exists>e \<in> set evs. ev_action e = Act_CapabilityRevoked i \<and> ev_result e = Audit_Success}"

definition svc_inv :: "AuditEvent list \<Rightarrow> cap_service \<Rightarrow> bool" where
  "svc_inv hist s \<longleftrightarrow> caps_ok (sv_caps s) \<and> audit_refines hist (sv_log s) \<and>
     live_ids (sv_caps s) = granted_ids hist - revoked_ids hist \<and>
     (\<forall>i \<in> revoked_ids hist. i < cm_next_id (sv_caps s))"

lemma granted_ids_simps [simp]:
  "granted_ids [] = {}"
  "granted_ids (es @ [e]) = granted_ids es \<union> (case ev_action e of Act_CapabilityGranted i \<Rightarrow> {i} | _ \<Rightarrow> {})"
  by (auto simp: granted_ids_def split: AuditAction.splits)

lemma revoked_ids_simps [simp]:
  "revoked_ids [] = {}"
  "revoked_ids (es @ [e]) = revoked_ids es \<union>
     (case ev_action e of Act_CapabilityRevoked i \<Rightarrow> if ev_result e = Audit_Success then {i} else {} | _ \<Rightarrow> {})"
  by (auto simp: revoked_ids_def split: AuditAction.splits)

lemma request_event_simps [simp]:
  "ev_action (request_event n (tick, orig, action, c, result)) = action"
  "ev_result (request_event n (tick, orig, action, c, result)) = result"
  by (simp_all add: request_event_def)

lemma live_ids_iff: "i \<in> live_ids m \<longleftrightarrow> lookup_id cap_id i (cm_capabilities m) \<noteq> None"
  by (simp add: live_ids_def lookup_id_None_iff)

lemma live_ids_add:
  assumes "cap_add x m = Some (i, m')"
  shows "live_ids m' = insert i (live_ids m)"
  using caps.add_entries [OF assms] by (simp add: live_ids_def caps.ident_mk)

lemma live_ids_del:
  assumes "caps_ok m" "cap_del i m = Some m'"
  shows "live_ids m' = live_ids m - {i}" "i < cm_next_id m"
proof -
  have t: "table_ok cap_id (cm_next_id m) (cm_capabilities m)" using assms(1) by (simp add: caps_ok_def)
  show "live_ids m' = live_ids m - {i}" by (auto simp: live_ids_iff caps.del_lookup [OF t assms(2)] split: if_splits)
  obtain k where "find_slot (\<lambda>e. cap_id e = i) (cm_capabilities m) = Some k"
    using caps.del_SomeD [OF assms(2)] by auto
  from find_slot_hit [OF this] obtain c where "c \<in> set (flatten (cm_capabilities m))" "cap_id c = i"
    by (auto simp: in_flatten_iff)
  then show "i < cm_next_id m" using t by (auto simp: table_ok_def)
qed

lemma svc_inv_grant:
  assumes "svc_inv hist s" "cm_next_id (sv_caps s) \<noteq> - 1"
  shows "\<exists>h. svc_inv (hist @ h) (snd (grant_capability snap ow sc p r v s)) \<and> length h \<le> 1"
proof -
  obtain tick cpu where snap: "snap = (tick, cpu)" by fastforce
  obtain res m where g: "CapabilityManager_grant ow sc p r v (sv_caps s) = (res, m)" by fastforce
  have e: "m = cap_exec (Op_Grant ow sc p r v) (sv_caps s)" using g by simp
  have ok: "caps_ok m" "cm_next_id (sv_caps s) \<le> cm_next_id m"
    using cap_exec_ok [of "sv_caps s" "Op_Grant ow sc p r v"] assms e by (simp_all add: svc_inv_def)
  show ?thesis
  proof (cases res)
    case (Inl e)
    then have "m = sv_caps s" using g grant_Err by blast
    with Inl g assms show ?thesis by (intro exI [of _ "[]"]) (simp add: grant_capability_def Let_def)
  next
    case (Inr i)
    then have a: "cap_add (ow, sc, p, r, v) (sv_caps s) = Some (i, m)" using g grant_Ok_iff by blast
    have "i = cm_next_id (sv_caps s)" using caps.add_SomeD [OF a] by simp
    then have f: "i \<notin> revoked_ids hist" using assms(1) by (auto simp: svc_inv_def)
    have "live_ids m = insert i (live_ids (sv_caps s))" by (rule live_ids_add [OF a])
    with assms(1) ok f
      audit_refines_record [of hist "sv_log s" tick "current_origin (Some ow) cpu" "Act_CapabilityGranted i" None Audit_Success]
    show ?thesis unfolding grant_capability_def g Inr snap
      by (intro exI [of _ "[request_event _ (tick, current_origin (Some ow) cpu, Act_CapabilityGranted i, None, Audit_Success)]"])
        (auto simp: svc_inv_def audit_record_def Let_def)
  qed
qed

lemma revoke_log:
  "\<exists>orig. snd (revoke_capability (tick, cpu) i s) =
     s\<lparr>sv_caps := snd (CapabilityManager_revoke i (sv_caps s)),
       sv_log := AuditLog_record_at tick orig (Act_CapabilityRevoked i) None
         (revoke_audit_result (fst (CapabilityManager_revoke i (sv_caps s)))) (sv_log s)\<rparr>"
  by (auto simp: revoke_capability_def Let_def audit_record_def record_anonymous_def split: prod.splits option.splits)

lemma svc_inv_revoke:
  assumes "svc_inv hist s"
  shows "\<exists>h. svc_inv (hist @ [h]) (snd (revoke_capability snap i s))"
proof -
  obtain tick cpu where snap: "snap = (tick, cpu)" by fastforce
  obtain res m where g: "CapabilityManager_revoke i (sv_caps s) = (res, m)" by fastforce
  obtain orig where l: "snd (revoke_capability snap i s) = s\<lparr>sv_caps := m,
      sv_log := AuditLog_record_at tick orig (Act_CapabilityRevoked i) None (revoke_audit_result res) (sv_log s)\<rparr>"
    using revoke_log [of tick cpu i s] g snap by auto
  have c: "caps_ok (sv_caps s)" using assms by (simp add: svc_inv_def)
  note rec = audit_refines_record [of hist "sv_log s" tick orig "Act_CapabilityRevoked i" None "revoke_audit_result res"]
  show ?thesis
  proof (cases res)
    case (Inl e)
    then have "m = sv_caps s" using g revoke_Err by blast
    moreover have "revoke_audit_result res \<noteq> Audit_Success" by (simp add: Inl revoke_audit_result_def)
    ultimately show ?thesis using rec assms unfolding l by (intro exI) (auto simp: svc_inv_def)
  next
    case (Inr u)
    then have d: "cap_del i (sv_caps s) = Some m" using g revoke_Ok_iff by (metis old.unit.exhaust)
    have "caps_ok m" using caps.del_ok [OF _ d] caps.del_SomeD [OF d] c by (auto simp: caps_ok_def)
    then show ?thesis using rec assms Inr live_ids_del [OF c d] caps.del_SomeD [OF d] unfolding l
      by (intro exI) (auto simp: svc_inv_def revoke_audit_result_def)
  qed
qed

lemma svc_run_inv:
  "length ops < 2 ^ 64 - 1 \<Longrightarrow>
   \<exists>hist. svc_inv hist (svc_run ops) \<and> length hist \<le> length ops \<and>
     unat (cm_next_id (sv_caps (svc_run ops))) \<le> Suc (length ops)"
proof (induction ops rule: rev_induct)
  case Nil
  show ?case
    using caps_ok_new
    by (intro exI [of _ "[]"])
      (simp add: svc_run_def svc_inv_def audit_refines_new live_ids_def CapabilityManager_new_def)
next
  case (snoc x ops)
  then obtain hist where h: "svc_inv hist (svc_run ops)" "length hist \<le> length ops"
    "unat (cm_next_id (sv_caps (svc_run ops))) \<le> Suc (length ops)" by auto
  have r: "svc_run (ops @ [x]) = svc_exec x (svc_run ops)" by (simp add: svc_run_def)
  have n: "cm_next_id (sv_caps (svc_run ops)) \<noteq> - 1"
    using h(3) snoc.prems by (intro neq_minus_1I) simp
  obtain snap op where x: "x = (snap, op)" by fastforce
  have "sv_caps (svc_exec x (svc_run ops)) = cap_exec op (sv_caps (svc_run ops))"
    by (cases op) (auto simp: x grant_capability_def revoke_capability_def Let_def split: prod.splits sum.splits)
  then have "unat (cm_next_id (sv_caps (svc_run (ops @ [x])))) \<le> Suc (length (ops @ [x]))"
    using cap_exec_ok [of "sv_caps (svc_run ops)" op] h n r by (auto simp: svc_inv_def)
  moreover have "\<exists>hist'. svc_inv hist' (svc_run (ops @ [x])) \<and> length hist' \<le> length (ops @ [x])"
  proof (cases op)
    case (Op_Grant ow sc p rk v)
    with svc_inv_grant [OF h(1) n, of snap ow sc p rk v] h(2) r x show ?thesis by force
  next
    case (Op_Revoke i)
    with svc_inv_revoke [OF h(1), of snap i] h(2) r x show ?thesis by force
  qed
  ultimately show ?case by blast
qed

section \<open>Properties\<close>

text \<open>
  C6. The audit trail accounts for all authority: as long as at most 512 service calls were made, so
  that the ring has not wrapped, the capabilities live in the table are exactly those whose grant
  is in the log without a later successful revocation.
\<close>

theorem audit_trail_accounts_for_capabilities:
  assumes "length ops \<le> AUDIT_LOG_SIZE"
  shows "live_ids (sv_caps (svc_run ops)) =
    granted_ids (AuditLog_last_n (sv_log (svc_run ops)) AUDIT_LOG_SIZE) -
    revoked_ids (AuditLog_last_n (sv_log (svc_run ops)) AUDIT_LOG_SIZE)"
proof -
  have "length ops < 2 ^ 64 - 1" using assms by (simp add: AUDIT_LOG_SIZE_def)
  then obtain hist where h: "svc_inv hist (svc_run ops)" "length hist \<le> AUDIT_LOG_SIZE"
    using svc_run_inv [of ops] assms by auto
  then have "AuditLog_last_n (sv_log (svc_run ops)) AUDIT_LOG_SIZE = rev hist"
    using last_n_refines [of hist "sv_log (svc_run ops)" AUDIT_LOG_SIZE] by (simp add: svc_inv_def)
  with h(1) show ?thesis by (simp add: svc_inv_def granted_ids_def revoked_ids_def)
qed

theorem audit_trail_accounts_for_capabilities_witness:
  "let s = svc_run [((0, 0), Op_Grant 1 Cap_System 3 Risk_Low True), ((0, 0), Op_Revoke 9)]
   in 1 \<in> granted_ids (AuditLog_last_n (sv_log s) AUDIT_LOG_SIZE) - revoked_ids (AuditLog_last_n (sv_log s) AUDIT_LOG_SIZE)"
proof -
  let ?ops = "[((0, 0), Op_Grant 1 Cap_System 3 Risk_Low True), ((0, 0), Op_Revoke 9)]"
  have "length ?ops \<le> AUDIT_LOG_SIZE" by (simp add: AUDIT_LOG_SIZE_def)
  note eq = audit_trail_accounts_for_capabilities [OF this]
  have "lookup_id cap_id 1 (cm_capabilities (sv_caps (svc_run ?ops))) \<noteq> None" by code_simp
  then have "1 \<in> live_ids (sv_caps (svc_run ?ops))" unfolding live_ids_iff .
  then show ?thesis unfolding eq Let_def .
qed

end
