(* ===== verification/Cpu.thy ===== *)
theory Cpu
  imports Prelude
begin

text \<open>
  The fragment of the x86-64 instruction set in which the kernel's two naked functions are
  written: moves between registers and 64-bit memory cells, stack operations, the GS-relative
  accesses of the per-CPU block, and the control transfers \<^verbatim>\<open>jmp\<close> and \<^verbatim>\<open>sysretq\<close>.
  Memory maps the address of a 64-bit cell to its content; the code under study only accesses
  cells at multiples of 8 from its base pointers.
\<close>

datatype reg = RAX | RBX | RCX | RDX | RSI | RDI | RBP | RSP | R8 | R9 | R10 | R11 | R12 | R13 | R14 | R15

record cpu =
  regs :: "reg \<Rightarrow> u64"
  mem :: "u64 \<Rightarrow> u64"
  rip :: u64
  rflags :: u64
  gs_base :: u64
  kernel_gs_base :: u64

datatype instr =
    Mov reg reg
  | Load reg reg u64
  | Store reg u64 reg
  | LoadGs reg u64
  | StoreGs u64 reg
  | AddImm reg u64
  | SubImm reg u64
  | Push reg
  | Pop reg
  | Jmp reg
  | Swapgs
  | Sysretq

fun exec1 :: "instr \<Rightarrow> cpu \<Rightarrow> cpu" where
  "exec1 (Mov d s) c = c\<lparr>regs := (regs c)(d := regs c s)\<rparr>"
| "exec1 (Load d b off) c = c\<lparr>regs := (regs c)(d := mem c (regs c b + off))\<rparr>"
| "exec1 (Store b off s) c = c\<lparr>mem := (mem c)(regs c b + off := regs c s)\<rparr>"
| "exec1 (LoadGs d off) c = c\<lparr>regs := (regs c)(d := mem c (gs_base c + off))\<rparr>"
| "exec1 (StoreGs off s) c = c\<lparr>mem := (mem c)(gs_base c + off := regs c s)\<rparr>"
| "exec1 (AddImm d n) c = c\<lparr>regs := (regs c)(d := regs c d + n)\<rparr>"
| "exec1 (SubImm d n) c = c\<lparr>regs := (regs c)(d := regs c d - n)\<rparr>"
| "exec1 (Push s) c =
     c\<lparr>regs := (regs c)(RSP := regs c RSP - 8), mem := (mem c)(regs c RSP - 8 := regs c s)\<rparr>"
| "exec1 (Pop d) c =
     (let v = mem c (regs c RSP)
      in c\<lparr>regs := (regs c)(RSP := regs c RSP + 8, d := v)\<rparr>)"
| "exec1 (Jmp r) c = c\<lparr>rip := regs c r\<rparr>"
| "exec1 Swapgs c = c\<lparr>gs_base := kernel_gs_base c, kernel_gs_base := gs_base c\<rparr>"
| "exec1 Sysretq c = c\<lparr>rip := regs c RCX, rflags := regs c R11\<rparr>"

definition exec :: "instr list \<Rightarrow> cpu \<Rightarrow> cpu" where
  "exec is c = fold exec1 is c"

lemma exec_Nil [simp]: "exec [] c = c" and
  exec_Cons [simp]: "exec (i # is) c = exec is (exec1 i c)" and
  exec_append: "exec (xs @ ys) c = exec ys (exec xs c)"
  by (simp_all add: exec_def)

end
