(* ===== verification/Usermode.thy ===== *)
theory Usermode
  imports Cpu Syscall_Abi
begin

text \<open>
  User mode transitions, \<^verbatim>\<open>src/kernel/src/usermode.rs\<close>: the saved user context, the per-CPU
  block, the STAR register value, and the system-call entry stub as its instruction sequences
  before and after the call of the dispatcher. The theory shows that the stub saves and restores
  the user's registers, and which saved slots it really passes to the dispatcher.
\<close>

section \<open>User contexts\<close>

record UserContext =
  uc_r15 :: u64
  uc_r14 :: u64
  uc_r13 :: u64
  uc_r12 :: u64
  uc_rbx :: u64
  uc_rbp :: u64
  uc_r11 :: u64
  uc_r10 :: u64
  uc_r9 :: u64
  uc_r8 :: u64
  uc_rdi :: u64
  uc_rsi :: u64
  uc_rdx :: u64
  uc_rcx :: u64
  uc_rax :: u64

definition UserContext_empty :: UserContext where
  "UserContext_empty = \<lparr>uc_r15 = 0, uc_r14 = 0, uc_r13 = 0, uc_r12 = 0, uc_rbx = 0, uc_rbp = 0,
     uc_r11 = 0, uc_r10 = 0, uc_r9 = 0, uc_r8 = 0, uc_rdi = 0, uc_rsi = 0, uc_rdx = 0, uc_rcx = 0, uc_rax = 0\<rparr>"

section \<open>Configuration registers\<close>

definition EFER_SCE :: u64 where "EFER_SCE = push_bit 0 1"

definition FMASK_VALUE :: u64 where
  "FMASK_VALUE = push_bit 9 1 OR push_bit 8 1 OR push_bit 10 1 OR push_bit 18 1"

text \<open>The STAR value, from the kernel code and user data selectors.\<close>

definition star_value :: "u16 \<Rightarrow> u16 \<Rightarrow> u64" where
  "star_value kcs uds = (push_bit 48 (ucast uds) OR push_bit 32 (ucast kcs))"

section \<open>The entry stub\<close>

definition syscall_entry_save :: "instr list" where
  "syscall_entry_save =
    [Swapgs, StoreGs 8 RSP, LoadGs RSP 0,
     Push RAX, Push RCX, Push RDX, Push RSI, Push RDI, Push R8, Push R9, Push R10, Push R11,
     Push RBP, Push RBX, Push R12, Push R13, Push R14, Push R15]"

definition syscall_entry_args :: "instr list" where
  "syscall_entry_args =
    [Load RAX RSP (14*8),
     Load RDI RSP (6*8),
     Load RSI RSP (5*8),
     Load RDX RSP (2*8),
     Load R10 RSP (3*8),
     Load R8 RSP (4*8),
     SubImm RSP 48,
     Store RSP 0 RAX, Store RSP 8 RDI, Store RSP 16 RSI, Store RSP 24 RDX, Store RSP 32 R10, Store RSP 40 R8,
     Mov RDI RSP]"

definition syscall_entry_before :: "instr list" where
  "syscall_entry_before = syscall_entry_save @ syscall_entry_args"

definition syscall_entry_after :: "instr list" where
  "syscall_entry_after =
    [AddImm RSP 48, Store RSP (14*8) RAX,
     Pop R15, Pop R14, Pop R13, Pop R12, Pop RBX, Pop RBP, Pop R11, Pop R10, Pop R9, Pop R8,
     Pop RDI, Pop RSI, Pop RDX, Pop RCX, Pop RAX,
     LoadGs RSP 8, Swapgs, Sysretq]"

text \<open>The code segment that the 64-bit \<^verbatim>\<open>sysretq\<close> loads.\<close>

definition sysretq_cs :: "u64 \<Rightarrow> u16" where
  "sysretq_cs star = ucast (drop_bit 48 star) + 16"

section \<open>Frames in memory\<close>

definition user_context_at :: "(u64 \<Rightarrow> u64) \<Rightarrow> u64 \<Rightarrow> UserContext" where
  "user_context_at m p = \<lparr>uc_r15 = m p, uc_r14 = m (p + 8), uc_r13 = m (p + 16), uc_r12 = m (p + 24),
     uc_rbx = m (p + 32), uc_rbp = m (p + 40), uc_r11 = m (p + 48), uc_r10 = m (p + 56), uc_r9 = m (p + 64),
     uc_r8 = m (p + 72), uc_rdi = m (p + 80), uc_rsi = m (p + 88), uc_rdx = m (p + 96), uc_rcx = m (p + 104),
     uc_rax = m (p + 112)\<rparr>"

definition syscall_context_at :: "(u64 \<Rightarrow> u64) \<Rightarrow> u64 \<Rightarrow> SyscallContext" where
  "syscall_context_at m p = \<lparr>ctx_number = m p, ctx_arg1 = m (p + 8), ctx_arg2 = m (p + 16),
     ctx_arg3 = m (p + 24), ctx_arg4 = m (p + 32), ctx_arg5 = m (p + 40)\<rparr>"

definition user_context_of :: "cpu \<Rightarrow> UserContext" where
  "user_context_of c = \<lparr>uc_r15 = regs c R15, uc_r14 = regs c R14, uc_r13 = regs c R13, uc_r12 = regs c R12,
     uc_rbx = regs c RBX, uc_rbp = regs c RBP, uc_r11 = regs c R11, uc_r10 = regs c R10, uc_r9 = regs c R9,
     uc_r8 = regs c R8, uc_rdi = regs c RDI, uc_rsi = regs c RSI, uc_rdx = regs c RDX, uc_rcx = regs c RCX,
     uc_rax = regs c RAX\<rparr>"

text \<open>
  The 21 cells below the kernel stack pointer that the stub uses: the user context, and under it
  the argument block of the dispatcher.
\<close>

definition frame_cells :: "u64 \<Rightarrow> u64 list" where
  "frame_cells base = map (\<lambda>i. base + 8 * of_nat i) [0..<21]"

definition percpu_ready :: "cpu \<Rightarrow> u64 \<Rightarrow> bool" where
  "percpu_ready c base \<longleftrightarrow> mem c (kernel_gs_base c) = base + 168 \<and>
     kernel_gs_base c \<notin> set (frame_cells base) \<and> kernel_gs_base c + 8 \<notin> set (frame_cells base)"

lemma frame_cells_eq:
  "frame_cells base = [base, base + 8, base + 16, base + 24, base + 32, base + 40, base + 48, base + 56,
     base + 64, base + 72, base + 80, base + 88, base + 96, base + 104, base + 112, base + 120, base + 128,
     base + 136, base + 144, base + 152, base + 160]"
  by (simp add: frame_cells_def upt_rec)

lemma word_add_diff_numeral: "(b :: u64) + numeral m - numeral n = b + (numeral m - numeral n)"
  by simp

lemma save_frame:
  assumes "percpu_ready c base"
  defines "s \<equiv> exec syscall_entry_save c"
  shows "user_context_at (mem s) (base + 48) = user_context_of c" "regs s RSP = base + 48"
    "mem s (kernel_gs_base c + 8) = regs c RSP" "gs_base s = kernel_gs_base c" "kernel_gs_base s = gs_base c"
  using assms(1) unfolding s_def
  by (simp_all add: percpu_ready_def frame_cells_eq syscall_entry_save_def user_context_at_def
      user_context_of_def word_add_diff_numeral fun_upd_def)

lemma args_block:
  assumes "regs s RSP = base + 48"
  defines "a \<equiv> exec syscall_entry_args s" and "u \<equiv> user_context_at (mem s) (base + 48)"
  shows "syscall_context_at (mem a) base = \<lparr>ctx_number = uc_rax u, ctx_arg1 = uc_r11 u, ctx_arg2 = uc_rbp u,
      ctx_arg3 = uc_r13 u, ctx_arg4 = uc_r12 u, ctx_arg5 = uc_rbx u\<rparr>"
    and "user_context_at (mem a) (base + 48) = u" "regs a RSP = base" "regs a RDI = base"
    "gs_base a = gs_base s" "kernel_gs_base a = kernel_gs_base s"
  using assms(1) unfolding a_def u_def
  by (simp_all add: syscall_entry_args_def syscall_context_at_def user_context_at_def)

lemma args_frame_only:
  assumes "regs s RSP = base + 48" "x \<notin> set (frame_cells base)"
  shows "mem (exec syscall_entry_args s) x = mem s x"
  using assms by (simp add: syscall_entry_args_def frame_cells_eq)

lemma before_spec:
  assumes "percpu_ready c base"
  defines "p \<equiv> exec syscall_entry_before c"
  shows "syscall_context_at (mem p) base = \<lparr>ctx_number = regs c RAX, ctx_arg1 = regs c R11,
      ctx_arg2 = regs c RBP, ctx_arg3 = regs c R13, ctx_arg4 = regs c R12, ctx_arg5 = regs c RBX\<rparr>"
    and "user_context_at (mem p) (base + 48) = user_context_of c"
    and "mem p (kernel_gs_base c + 8) = regs c RSP"
    and "regs p RDI = base"
proof -
  note s = save_frame [OF assms(1)] and a = args_block [OF save_frame(2) [OF assms(1)]]
  show "syscall_context_at (mem p) base = \<lparr>ctx_number = regs c RAX, ctx_arg1 = regs c R11,
      ctx_arg2 = regs c RBP, ctx_arg3 = regs c R13, ctx_arg4 = regs c R12, ctx_arg5 = regs c RBX\<rparr>"
    using a(1) s(1) by (simp add: p_def syscall_entry_before_def exec_append user_context_of_def)
  show "user_context_at (mem p) (base + 48) = user_context_of c"
    using a(2) s(1) by (simp add: p_def syscall_entry_before_def exec_append)
  show "mem p (kernel_gs_base c + 8) = regs c RSP"
    using args_frame_only [OF s(2), of "kernel_gs_base c + 8"] s(3) assms(1)
    by (simp add: p_def syscall_entry_before_def exec_append percpu_ready_def)
  show "regs p RDI = base"
    using a(4) by (simp add: p_def syscall_entry_before_def exec_append)
qed

lemma after_spec:
  assumes "regs d RSP = base" "gs_base d + 8 \<notin> set (frame_cells base)"
  defines "u \<equiv> user_context_at (mem d) (base + 48)" and "r \<equiv> exec syscall_entry_after d"
  shows "user_context_of r = u\<lparr>uc_rax := regs d RAX\<rparr>" "rip r = uc_rcx u" "rflags r = uc_r11 u"
    "regs r RSP = mem d (gs_base d + 8)" "gs_base r = kernel_gs_base d" "kernel_gs_base r = gs_base d"
  using assms(1,2) unfolding u_def r_def
  by (simp_all add: syscall_entry_after_def user_context_of_def user_context_at_def frame_cells_eq Let_def)

text \<open>
  With the user code descriptor placed right behind the user data descriptor, as the descriptor
  table is built, the return to user mode selects the segment after the user code segment.
\<close>

lemma star_user_field: "ucast (drop_bit 48 (star_value kcs uds)) = uds"
  by (rule bit_word_eqI) (auto simp: star_value_def bit_simps dest: bit_imp_le_length)

lemma sysretq_misses_user_code:
  "sysretq_cs (star_value kcs uds) = (uds + 8) + 8 \<and> sysretq_cs (star_value kcs uds) \<noteq> uds + 8"
  by (simp add: sysretq_cs_def star_user_field)

section \<open>Properties\<close>

text \<open>
  C34. The entry stub preserves the user's registers: it stores all fifteen of them as a user
  context on the kernel stack, and when the dispatcher returns, the user resumes at the saved
  instruction pointer, on the user stack, with exactly the context then held in that frame, except
  that \<open>rax\<close> is the dispatcher's result.
\<close>

theorem syscall_entry_saves_and_restores:
  assumes "percpu_ready c base"
    and "regs d RSP = base" "gs_base d = kernel_gs_base c" "kernel_gs_base d = gs_base c"
    and "mem d (kernel_gs_base c + 8) = mem (exec syscall_entry_before c) (kernel_gs_base c + 8)"
  shows "user_context_at (mem (exec syscall_entry_before c)) (base + 48) = user_context_of c \<and>
    (let u = user_context_at (mem d) (base + 48); r = exec syscall_entry_after d
     in user_context_of r = u\<lparr>uc_rax := regs d RAX\<rparr> \<and> rip r = uc_rcx u \<and> rflags r = uc_r11 u \<and>
        regs r RSP = regs c RSP \<and> gs_base r = gs_base c \<and> kernel_gs_base r = kernel_gs_base c)"
  using before_spec [OF assms(1)] after_spec [of d base] assms
  by (simp add: Let_def percpu_ready_def)

theorem syscall_entry_saves_and_restores_witness:
  "let c = \<lparr>regs = (\<lambda>_. 5)(RSP := 0x700000, RCX := 0x400000), mem = (\<lambda>_. 0)(0x100 := 0x9000 + 168),
            rip = 0, rflags = 0, gs_base = 0, kernel_gs_base = 0x100\<rparr>;
       p = exec syscall_entry_before c; d = p\<lparr>regs := (regs p)(RAX := 42)\<rparr>
   in rip (exec syscall_entry_after d) = 0x400000 \<and> regs (exec syscall_entry_after d) RSP = 0x700000"
proof -
  let ?c = "\<lparr>regs = (\<lambda>_. 5)(RSP := 0x700000, RCX := 0x400000), mem = (\<lambda>_. 0)(0x100 := 0x9000 + 168),
            rip = 0, rflags = 0, gs_base = 0, kernel_gs_base = 0x100\<rparr> :: cpu"
  let ?p = "exec syscall_entry_before ?c"
  have r: "percpu_ready ?c 0x9000" by (simp add: percpu_ready_def frame_cells_eq)
  note a = args_block [OF save_frame(2) [OF r]]
  have d: "regs (?p\<lparr>regs := (regs ?p)(RAX := 42)\<rparr>) RSP = 0x9000"
    "gs_base (?p\<lparr>regs := (regs ?p)(RAX := 42)\<rparr>) = kernel_gs_base ?c"
    "kernel_gs_base (?p\<lparr>regs := (regs ?p)(RAX := 42)\<rparr>) = gs_base ?c"
    "mem (?p\<lparr>regs := (regs ?p)(RAX := 42)\<rparr>) (kernel_gs_base ?c + 8) = mem ?p (kernel_gs_base ?c + 8)"
    using a save_frame(4,5) [OF r] by (simp_all add: syscall_entry_before_def exec_append)
  from syscall_entry_saves_and_restores [OF r d] show ?thesis
    by (simp add: Let_def user_context_of_def)
qed

text \<open>
  C40. What the stub passes to the dispatcher: the number is the user's \<open>rax\<close>, but the five
  arguments are read from the slots of \<open>r11\<close>, \<open>rbp\<close>, \<open>r13\<close>, \<open>r12\<close> and \<open>rbx\<close>, not from those of the
  documented argument registers \<open>rdi\<close>, \<open>rsi\<close>, \<open>rdx\<close>, \<open>r10\<close> and \<open>r8\<close>.
\<close>

theorem syscall_entry_argument_slots:
  assumes "percpu_ready c base"
  shows "regs (exec syscall_entry_before c) RDI = base \<and>
    syscall_context_at (mem (exec syscall_entry_before c)) base =
      \<lparr>ctx_number = regs c RAX, ctx_arg1 = regs c R11, ctx_arg2 = regs c RBP,
       ctx_arg3 = regs c R13, ctx_arg4 = regs c R12, ctx_arg5 = regs c RBX\<rparr>"
  using before_spec [OF assms] by simp

theorem syscall_entry_argument_slots_witness:
  "let c = \<lparr>regs = (\<lambda>_. 5)(RDI := 1, R11 := 2), mem = (\<lambda>_. 0)(0x100 := 0x9000 + 168), rip = 0, rflags = 0,
            gs_base = 0, kernel_gs_base = 0x100\<rparr>
   in ctx_arg1 (syscall_context_at (mem (exec syscall_entry_before c)) 0x9000) = 2"
proof -
  have r: "percpu_ready \<lparr>regs = (\<lambda>_. 5)(RDI := 1, R11 := 2), mem = (\<lambda>_. 0)(0x100 := 0x9000 + 168), rip = 0,
      rflags = 0, gs_base = 0, kernel_gs_base = 0x100\<rparr> 0x9000"
    by (simp add: percpu_ready_def frame_cells_eq)
  from syscall_entry_argument_slots [OF r] show ?thesis by (simp add: Let_def)
qed

end
