(* ===== verification/Process.thy ===== *)
theory Process
  imports Slot_Table Usermode
begin

text \<open>
  Processes, \<^verbatim>\<open>src/kernel/src/process.rs\<close>: process control blocks in a table of 128 slots,
  the memory regions of a process, and the pin/generation protocol of its address space. The
  table is an instance of the identifier-table and keyed-store contracts. \<open>get_mut\<close> followed by
  an update of the block is \<open>ProcessTable_modify\<close>.
\<close>

section \<open>Types\<close>

datatype ProcessState =
    Proc_Creating | Proc_Ready | Proc_Running | Proc_Blocked | Proc_Sleeping | Proc_Zombie | Proc_Terminated

record ProcessMemory =
  code_start :: u64
  code_size :: u64
  stack_top :: u64
  stack_size :: u64
  heap_start :: u64
  heap_end :: u64

record AddressSpaceState =
  as_generation :: u64
  as_pins :: u32

record AddressSpacePin =
  pin_pid :: Pid
  pin_generation :: u64

datatype AddressSpaceError =
    AsErr_NotFound | AsErr_Busy | AsErr_InvalidPin | AsErr_PinCountExhausted | AsErr_GenerationExhausted

definition AddressSpaceState_new :: AddressSpaceState where
  "AddressSpaceState_new = \<lparr>as_generation = 1, as_pins = 0\<rparr>"

definition AddressSpaceState_pin ::
  "Pid \<Rightarrow> AddressSpaceState \<Rightarrow> (AddressSpacePin, AddressSpaceError) result \<times> AddressSpaceState" where
  "AddressSpaceState_pin pid s =
     (case checked_add (as_pins s) 1 of
        None \<Rightarrow> (Err AsErr_PinCountExhausted, s)
      | Some n \<Rightarrow> (Ok \<lparr>pin_pid = pid, pin_generation = as_generation s\<rparr>, s\<lparr>as_pins := n\<rparr>))"

definition AddressSpaceState_release ::
  "AddressSpacePin \<Rightarrow> AddressSpaceState \<Rightarrow> (unit, AddressSpaceError) result \<times> AddressSpaceState" where
  "AddressSpaceState_release pin s =
     (if pin_generation pin \<noteq> as_generation s \<or> as_pins s = 0 then (Err AsErr_InvalidPin, s)
      else (Ok (), s\<lparr>as_pins := as_pins s - 1\<rparr>))"

definition AddressSpaceState_bump_generation ::
  "AddressSpaceState \<Rightarrow> (u64, AddressSpaceError) result \<times> AddressSpaceState" where
  "AddressSpaceState_bump_generation s =
     (if as_pins s \<noteq> 0 then (Err AsErr_Busy, s)
      else case checked_add (as_generation s) 1 of
             None \<Rightarrow> (Err AsErr_GenerationExhausted, s)
           | Some g \<Rightarrow> (Ok g, s\<lparr>as_generation := g\<rparr>))"

text \<open>The closure \<^verbatim>\<open>fits\<close> and the range check.\<close>

definition region_fits :: "u64 \<Rightarrow> u64 \<Rightarrow> u64 \<Rightarrow> u64 \<Rightarrow> bool" where
  "region_fits start end' region_start region_size =
     (case checked_add region_start region_size of
        None \<Rightarrow> False
      | Some region_end \<Rightarrow> start \<ge> region_start \<and> end' \<le> region_end)"

definition ProcessMemory_contains_user_range :: "ProcessMemory \<Rightarrow> u64 \<Rightarrow> u64 \<Rightarrow> bool" where
  "ProcessMemory_contains_user_range m start len =
     (if len = 0 then True
      else case checked_add start len of
        None \<Rightarrow> False
      | Some end' \<Rightarrow>
          (case checked_sub (stack_top m) (stack_size m) of
             None \<Rightarrow> False
           | Some stack_start \<Rightarrow>
               region_fits start end' (code_start m) (code_size m) \<or>
               region_fits start end' stack_start (stack_size m) \<or>
               region_fits start end' (heap_start m) (saturating_sub (heap_end m) (heap_start m))))"

record Process =
  proc_pid :: Pid
  proc_parent_pid :: "Pid option"
  proc_name :: bytes
  proc_name_len :: nat
  proc_state :: ProcessState
  proc_scheduler_task :: TaskId
  proc_capabilities :: "CapabilityId option list"
  proc_memory :: ProcessMemory
  proc_address_space :: AddressSpaceState
  proc_exit_code :: i32
  proc_cpu_ticks :: u64
  proc_syscall_count :: u64
  proc_signal_pending :: u64
  proc_signal_blocked :: u64
  proc_saved_context :: "UserContext option"

definition Process_name_str :: "Process \<Rightarrow> bytes" where
  "Process_name_str p = from_utf8_or (ascii ''???'') (take (proc_name_len p) (proc_name p))"

section \<open>The table\<close>

definition MAX_PROCESSES :: nat where "MAX_PROCESSES = 128"

record ProcessTable =
  pt_processes :: "Process option list"
  pt_next_pid :: Pid

definition ProcessTable_new :: ProcessTable where
  "ProcessTable_new = \<lparr>pt_processes = replicate MAX_PROCESSES None, pt_next_pid = 1\<rparr>"

definition new_process :: "bytes \<times> Pid option \<times> TaskId \<Rightarrow> Pid \<Rightarrow> Process" where
  "new_process x pid = (case x of (name, parent, scheduler_task) \<Rightarrow>
     \<lparr>proc_pid = pid, proc_parent_pid = parent, proc_name = fixed_buf 32 name,
      proc_name_len = min (length name) 32, proc_state = Proc_Creating,
      proc_scheduler_task = scheduler_task, proc_capabilities = replicate 8 None,
      proc_memory = \<lparr>code_start = 0x00400000, code_size = 0, stack_top = 0x00800000,
                     stack_size = 4096 * 16, heap_start = 0x01000000, heap_end = 0x01000000\<rparr>,
      proc_address_space = AddressSpaceState_new, proc_exit_code = 0, proc_cpu_ticks = 0,
      proc_syscall_count = 0, proc_signal_pending = 0, proc_signal_blocked = 0, proc_saved_context = None\<rparr>)"

definition ProcessTable_create ::
  "bytes \<times> Pid option \<times> TaskId \<Rightarrow> ProcessTable \<Rightarrow> (Pid \<times> ProcessTable) option" where
  "ProcessTable_create x t =
     (case first_free (pt_processes t) of
        Some k \<Rightarrow>
          (let pid = pt_next_pid t
           in Some (pid, t\<lparr>pt_next_pid := pt_next_pid t + 1,
                           pt_processes := (pt_processes t)[k := Some (new_process x pid)]\<rparr>))
      | None \<Rightarrow> None)"

definition ProcessTable_get :: "ProcessTable \<Rightarrow> Pid \<Rightarrow> Process option" where
  "ProcessTable_get t pid = List.find (\<lambda>p. proc_pid p = pid) (flatten (pt_processes t))"

definition ProcessTable_modify :: "Pid \<Rightarrow> (Process \<Rightarrow> Process) \<Rightarrow> ProcessTable \<Rightarrow> ProcessTable" where
  "ProcessTable_modify pid f t = t\<lparr>pt_processes := modify_id proc_pid pid f (pt_processes t)\<rparr>"

definition ProcessTable_start :: "Pid \<Rightarrow> ProcessTable \<Rightarrow> bool \<times> ProcessTable" where
  "ProcessTable_start pid t =
     (case ProcessTable_get t pid of
        Some _ \<Rightarrow> (True, ProcessTable_modify pid (\<lambda>p. p\<lparr>proc_state := Proc_Ready\<rparr>) t)
      | None \<Rightarrow> (False, t))"

definition ProcessTable_terminate :: "Pid \<Rightarrow> i32 \<Rightarrow> ProcessTable \<Rightarrow> bool \<times> ProcessTable" where
  "ProcessTable_terminate pid exit_code t =
     (case ProcessTable_get t pid of
        Some _ \<Rightarrow> (True, ProcessTable_modify pid
                     (\<lambda>p. p\<lparr>proc_state := Proc_Terminated, proc_exit_code := exit_code\<rparr>) t)
      | None \<Rightarrow> (False, t))"

definition ProcessTable_get_task_id_by_pid :: "ProcessTable \<Rightarrow> Pid \<Rightarrow> TaskId option" where
  "ProcessTable_get_task_id_by_pid t pid = map_option proc_scheduler_task (ProcessTable_get t pid)"

definition ProcessTable_is_self_or_child :: "ProcessTable \<Rightarrow> Pid \<Rightarrow> Pid \<Rightarrow> bool" where
  "ProcessTable_is_self_or_child t caller target \<longleftrightarrow>
     target = caller \<or> Option.bind (ProcessTable_get t target) proc_parent_pid = Some caller"

text \<open>An operation on the address space of a process.\<close>

definition with_address_space ::
  "Pid \<Rightarrow> (AddressSpaceState \<Rightarrow> ('a, AddressSpaceError) result \<times> AddressSpaceState) \<Rightarrow> ProcessTable \<Rightarrow>
   ('a, AddressSpaceError) result \<times> ProcessTable" where
  "with_address_space pid f t =
     (case ProcessTable_get t pid of
        None \<Rightarrow> (Err AsErr_NotFound, t)
      | Some p \<Rightarrow>
          (case f (proc_address_space p) of
             (r, s) \<Rightarrow> (r, ProcessTable_modify pid (\<lambda>p. p\<lparr>proc_address_space := s\<rparr>) t)))"

definition ProcessTable_pin_address_space ::
  "Pid \<Rightarrow> ProcessTable \<Rightarrow> (AddressSpacePin, AddressSpaceError) result \<times> ProcessTable" where
  "ProcessTable_pin_address_space pid t = with_address_space pid (AddressSpaceState_pin pid) t"

definition ProcessTable_release_address_space_pin ::
  "AddressSpacePin \<Rightarrow> ProcessTable \<Rightarrow> (unit, AddressSpaceError) result \<times> ProcessTable" where
  "ProcessTable_release_address_space_pin pin t =
     with_address_space (pin_pid pin) (AddressSpaceState_release pin) t"

definition ProcessTable_bump_address_space_generation ::
  "Pid \<Rightarrow> ProcessTable \<Rightarrow> (u64, AddressSpaceError) result \<times> ProcessTable" where
  "ProcessTable_bump_address_space_generation pid t =
     with_address_space pid AddressSpaceState_bump_generation t"

definition ProcessTable_slot_of :: "ProcessTable \<Rightarrow> Pid \<Rightarrow> nat option" where
  "ProcessTable_slot_of t pid = find_slot (\<lambda>p. proc_pid p = pid) (pt_processes t)"

definition proc_live :: "Process \<Rightarrow> bool" where
  "proc_live p \<longleftrightarrow> proc_state p \<noteq> Proc_Terminated \<and> proc_state p \<noteq> Proc_Zombie"

definition ProcessTable_get_pid_by_task_id :: "ProcessTable \<Rightarrow> TaskId \<Rightarrow> Pid option" where
  "ProcessTable_get_pid_by_task_id t task_id =
     (case map proc_pid (filter (\<lambda>p. proc_scheduler_task p = task_id \<and> proc_live p) (flatten (pt_processes t))) of
        [] \<Rightarrow> None
      | [pid] \<Rightarrow> Some pid
      | _ # _ # _ \<Rightarrow> None)"

definition ProcessTable_active_processes :: "ProcessTable \<Rightarrow> Process list" where
  "ProcessTable_active_processes t = filter proc_live (flatten (pt_processes t))"

definition ProcessTable_active_count :: "ProcessTable \<Rightarrow> nat" where
  "ProcessTable_active_count t = length (ProcessTable_active_processes t)"

definition ProcessTable_total_created :: "ProcessTable \<Rightarrow> u64" where
  "ProcessTable_total_created t = pt_next_pid t - 1"

section \<open>Contracts\<close>

interpretation procs: id_table pt_processes pt_next_pid proc_pid ProcessTable_create new_process
  by unfold_locales
    (auto simp: ProcessTable_create_def new_process_def Let_def split: option.splits prod.splits)

lemma ProcessTable_get_eq: "ProcessTable_get t pid = lookup_id proc_pid pid (pt_processes t)"
  by (simp add: ProcessTable_get_def lookup_id_def)

interpretation pstore: keyed_store ProcessTable_get ProcessTable_modify proc_pid
proof
  fix t k a f j
  show "ProcessTable_get t k = Some a \<Longrightarrow> proc_pid a = k"
    by (auto simp: ProcessTable_get_eq dest: lookup_id_SomeD)
  show "ProcessTable_get (ProcessTable_modify k f t) j =
      (if j = k then map_option f (ProcessTable_get t k) else ProcessTable_get t j)"
    if "\<And>a. proc_pid (f a) = proc_pid a"
    using that by (simp add: ProcessTable_get_eq ProcessTable_modify_def lookup_modify_id)
  show "ProcessTable_get t k = None \<Longrightarrow> ProcessTable_modify k f t = t"
    by (simp add: ProcessTable_get_eq ProcessTable_modify_def modify_id_None)
qed

definition procs_ok :: "ProcessTable \<Rightarrow> bool" where
  "procs_ok t \<longleftrightarrow> length (pt_processes t) = MAX_PROCESSES \<and>
     table_ok proc_pid (pt_next_pid t) (pt_processes t)"

lemma procs_ok_new: "procs_ok ProcessTable_new"
  by (simp add: procs_ok_def ProcessTable_new_def)

lemma procs_ok_modify: "(\<And>p. proc_pid (f p) = proc_pid p) \<Longrightarrow> procs_ok t \<Longrightarrow> procs_ok (ProcessTable_modify pid f t)"
  by (simp add: procs_ok_def ProcessTable_modify_def table_ok_modify_id)

lemma procs_ok_create:
  "procs_ok t \<Longrightarrow> pt_next_pid t \<noteq> - 1 \<Longrightarrow> ProcessTable_create x t = Some (pid, t') \<Longrightarrow> procs_ok t'"
  using procs.add_ok [of t x pid t'] procs.add_count(2) [of x t pid t'] by (simp add: procs_ok_def)

section \<open>The pin protocol\<close>

text \<open>
  Steps of a process table together with the pins that are held by their owners. A pin cannot be
  copied or forged, so a release consumes a held one. The last rule stands for every other update
  of a control block.
\<close>

inductive pin_step ::
  "ProcessTable \<times> AddressSpacePin list \<Rightarrow> ProcessTable \<times> AddressSpacePin list \<Rightarrow> bool" where
  step_pin: "ProcessTable_pin_address_space pid t = (Ok pin, t') \<Longrightarrow> pin_step (t, ps) (t', pin # ps)"
| step_release: "pin \<in> set ps \<Longrightarrow> ProcessTable_release_address_space_pin pin t = (r, t') \<Longrightarrow>
    pin_step (t, ps) (t', remove1 pin ps)"
| step_bump: "ProcessTable_bump_address_space_generation pid t = (r, t') \<Longrightarrow> pin_step (t, ps) (t', ps)"
| step_create: "pt_next_pid t \<noteq> - 1 \<Longrightarrow> ProcessTable_create x t = Some (pid, t') \<Longrightarrow> pin_step (t, ps) (t', ps)"
| step_update: "(\<And>p. proc_pid (f p) = proc_pid p \<and> proc_address_space (f p) = proc_address_space p) \<Longrightarrow>
    pin_step (t, ps) (ProcessTable_modify pid f t, ps)"

inductive pin_reach :: "ProcessTable \<times> AddressSpacePin list \<Rightarrow> bool" where
  reach_new: "pin_reach (ProcessTable_new, [])"
| reach_step: "pin_reach s \<Longrightarrow> pin_step s s' \<Longrightarrow> pin_reach s'"

inductive_cases pin_stepE [consumes 1, case_names step_pin step_release step_bump step_create step_update]: "pin_step (t, ps) s'"

abbreviation pins_of :: "Pid \<Rightarrow> AddressSpacePin list \<Rightarrow> AddressSpacePin list" where
  "pins_of pid ps \<equiv> filter (\<lambda>p. pin_pid p = pid) ps"

definition space_matches :: "AddressSpaceState \<Rightarrow> AddressSpacePin list \<Rightarrow> bool" where
  "space_matches s ps \<longleftrightarrow> unat (as_pins s) = length ps \<and> (\<forall>p \<in> set ps. pin_generation p = as_generation s)"

definition pins_ok :: "ProcessTable \<times> AddressSpacePin list \<Rightarrow> bool" where
  "pins_ok s \<longleftrightarrow> (case s of (t, ps) \<Rightarrow> procs_ok t \<and>
     (\<forall>pid p. ProcessTable_get t pid = Some p \<longrightarrow> space_matches (proc_address_space p) (pins_of pid ps)) \<and>
     (\<forall>pin \<in> set ps. ProcessTable_get t (pin_pid pin) \<noteq> None))"

lemma with_address_space_get:
  assumes "with_address_space pid f t = (r, t')"
  shows "ProcessTable_get t' j = (if j = pid
      then map_option (\<lambda>p. p\<lparr>proc_address_space := snd (f (proc_address_space p))\<rparr>) (ProcessTable_get t pid)
      else ProcessTable_get t j)"
  using assms
  by (auto simp: with_address_space_def pstore.get_modify split: option.splits prod.splits)

lemma with_address_space_ok: "with_address_space pid f t = (r, t') \<Longrightarrow> procs_ok t \<Longrightarrow> procs_ok t'"
  by (auto simp: with_address_space_def intro!: procs_ok_modify split: option.splits prod.splits)

lemma with_address_space_result:
  "ProcessTable_get t pid = Some p \<Longrightarrow> fst (with_address_space pid f t) = fst (f (proc_address_space p))"
  by (simp add: with_address_space_def split: prod.splits)

lemma with_address_space_found: "with_address_space pid f t = (Ok x, t') \<Longrightarrow> \<exists>p. ProcessTable_get t pid = Some p"
  by (auto simp: with_address_space_def split: option.splits)

lemma pin_matches:
  assumes "space_matches s ps" "AddressSpaceState_pin pid s = (Ok pin, s')"
  shows "space_matches s' (pin # ps) \<and> pin_pid pin = pid"
  using assms by (auto simp: AddressSpaceState_pin_def space_matches_def checked_add_Some_iff split: option.splits)

lemma release_matches:
  assumes "space_matches s ps" "pin \<in> set ps" "AddressSpaceState_release pin s = (r, s')"
  shows "space_matches s' (remove1 pin ps)" "r = Ok ()"
proof -
  have "0 < length ps" using assms(2) by (cases ps) auto
  then have pos: "0 < unat (as_pins s)" using assms(1) by (simp add: space_matches_def)
  then have nz: "as_pins s \<noteq> 0" by auto
  then have "unat (as_pins s - 1) = unat (as_pins s) - 1" by (rule unat_minus_one)
  then show "space_matches s' (remove1 pin ps)" "r = Ok ()"
    using assms nz
    by (auto simp: AddressSpaceState_release_def space_matches_def length_remove1
        dest: set_remove1_subset [THEN subsetD] split: if_splits)
qed

lemma bump_matches:
  assumes "space_matches s ps" "AddressSpaceState_bump_generation s = (r, s')"
  shows "space_matches s' ps"
  using assms by (auto simp: AddressSpaceState_bump_generation_def space_matches_def unat_eq_zero
      split: if_splits option.splits)

text \<open>An address-space operation that keeps the match of its own process keeps the invariant.\<close>

lemma pins_ok_with_address_space:
  assumes "pins_ok (t, ps)" "with_address_space pid f t = (r, t')"
    and own: "\<And>p. ProcessTable_get t pid = Some p \<Longrightarrow>
      space_matches (proc_address_space p) (pins_of pid ps) \<Longrightarrow>
      space_matches (snd (f (proc_address_space p))) (pins_of pid ps')"
    and others: "\<And>j. j \<noteq> pid \<Longrightarrow> pins_of j ps' = pins_of j ps"
    and found: "\<And>pin. pin \<in> set ps' \<Longrightarrow> ProcessTable_get t (pin_pid pin) \<noteq> None"
  shows "pins_ok (t', ps')"
  unfolding pins_ok_def prod.case
proof (intro conjI allI impI ballI)
  show "procs_ok t'" using with_address_space_ok [OF assms(2)] assms(1) by (simp add: pins_ok_def)
  note get = with_address_space_get [OF assms(2)]
  show "space_matches (proc_address_space p) (pins_of j ps')" if "ProcessTable_get t' j = Some p" for j p
  proof (cases "j = pid")
    case True
    with that get own assms(1) show ?thesis by (auto simp: pins_ok_def)
  next
    case False
    with that get others assms(1) show ?thesis by (auto simp: pins_ok_def)
  qed
  show "ProcessTable_get t' (pin_pid pin) \<noteq> None" if "pin \<in> set ps'" for pin
    using found [OF that] get by auto
qed

lemma pins_of_remove1: "pins_of j (remove1 pin ps) = (if pin_pid pin = j then remove1 pin (pins_of j ps) else pins_of j ps)"
  by (induction ps) auto

lemma create_get:
  assumes "procs_ok t" "ProcessTable_create x t = Some (pid, t')"
  shows "ProcessTable_get t' j = (if j = pid then Some (new_process x pid) else ProcessTable_get t j)"
    and "ProcessTable_get t pid = None"
  using assms procs.add_lookup [of t x pid t'] procs.add_fresh [of t x pid t']
  by (auto simp: ProcessTable_get_eq procs_ok_def)

lemma pins_ok_step:
  assumes "pins_ok (t, ps)" "pin_step (t, ps) s'"
  shows "pins_ok s'"
  using assms(2)
proof (cases rule: pin_stepE)
  case (step_pin pid pin t')
  note w = step_pin(2) [unfolded ProcessTable_pin_address_space_def]
  obtain p where p: "ProcessTable_get t pid = Some p" using with_address_space_found [OF w] by auto
  have a: "AddressSpaceState_pin pid (proc_address_space p) = (Ok pin, snd (AddressSpaceState_pin pid (proc_address_space p)))"
    using with_address_space_result [OF p, of "AddressSpaceState_pin pid"] w by (simp add: prod_eq_iff)
  have pid: "pin_pid pin = pid" using a by (auto simp: AddressSpaceState_pin_def split: option.splits)
  show ?thesis unfolding step_pin(1)
    by (rule pins_ok_with_address_space [OF assms(1) w])
      (use p a pid pin_matches [OF _ a] assms(1) in \<open>auto simp: pins_ok_def\<close>)
next
  case (step_release pin r t')
  note w = step_release(3) [unfolded ProcessTable_release_address_space_pin_def]
  show ?thesis unfolding step_release(1)
  proof (rule pins_ok_with_address_space [OF assms(1) w])
    fix p assume "space_matches (proc_address_space p) (pins_of (pin_pid pin) ps)"
    then show "space_matches (snd (AddressSpaceState_release pin (proc_address_space p)))
        (pins_of (pin_pid pin) (remove1 pin ps))"
      using release_matches(1) step_release(2) by (simp add: pins_of_remove1 prod_eq_iff)
  qed (use assms(1) in \<open>auto simp: pins_of_remove1 pins_ok_def dest: set_remove1_subset [THEN subsetD]\<close>)
next
  case (step_bump pid r t')
  note w = step_bump(2) [unfolded ProcessTable_bump_address_space_generation_def]
  show ?thesis unfolding step_bump(1)
    by (rule pins_ok_with_address_space [OF assms(1) w])
      (use assms(1) bump_matches in \<open>auto simp: pins_ok_def prod_eq_iff\<close>)
next
  case (step_create x pid t')
  have ok: "procs_ok t" using assms(1) by (simp add: pins_ok_def)
  note g = create_get [OF ok step_create(3)]
  have "pins_of pid ps = []" using assms(1) g(2) by (auto simp: pins_ok_def filter_empty_conv)
  then show ?thesis using assms(1) g procs_ok_create [OF ok step_create(2,3)] step_create(1)
    by (auto simp: pins_ok_def new_process_def AddressSpaceState_new_def space_matches_def split: prod.splits)
next
  case (step_update f pid)
  then show ?thesis using assms(1)
    by (auto simp: pins_ok_def pstore.get_modify procs_ok_modify)
qed

lemma pins_ok_reach: "pin_reach s \<Longrightarrow> pins_ok s"
proof (induction rule: pin_reach.induct)
  case reach_new
  show ?case by (simp add: pins_ok_def procs_ok_new) (simp add: ProcessTable_get_def ProcessTable_new_def)
next
  case (reach_step s s')
  then show ?case using pins_ok_step [of "fst s" "snd s" s'] by simp
qed

section \<open>Memory regions and task ownership\<close>

definition in_region :: "nat \<Rightarrow> nat \<Rightarrow> nat \<Rightarrow> nat \<Rightarrow> bool" where
  "in_region start len base extent \<longleftrightarrow>
     base \<le> start \<and> start + len \<le> base + extent \<and> base + extent < 2 ^ 64"

lemma region_fits_iff:
  assumes "checked_add start len = Some end'"
  shows "region_fits start end' b z \<longleftrightarrow> in_region (unat start) (unat len) (unat b) (unat z)"
proof -
  have e: "unat end' = unat start + unat len" using assms unfolding checked_add_Some_iff by blast
  have s: "unat (b + z) = unat b + unat z" if "unat b + unat z < 2 ^ 64"
    using that by (simp add: unat_word_ariths)
  show ?thesis using e s by (auto simp: region_fits_def checked_add_def in_region_def word_le_nat_alt)
qed

lemma in_region_no_overflow: "in_region s l b z \<Longrightarrow> s + l < 2 ^ 64"
  by (simp add: in_region_def)

lemma contains_user_range_iff:
  "ProcessMemory_contains_user_range m start len \<longleftrightarrow> len = 0 \<or> (stack_size m \<le> stack_top m \<and>
     (in_region (unat start) (unat len) (unat (code_start m)) (unat (code_size m)) \<or>
      in_region (unat start) (unat len) (unat (stack_top m - stack_size m)) (unat (stack_size m)) \<or>
      in_region (unat start) (unat len) (unat (heap_start m))
        (unat (saturating_sub (heap_end m) (heap_start m)))))"
proof (cases "checked_add start len")
  case None
  then have "\<not> in_region (unat start) (unat len) b z" for b z
    using in_region_no_overflow by (fastforce simp: checked_add_None_iff)
  with None show ?thesis by (simp add: ProcessMemory_contains_user_range_def)
next
  case (Some e)
  then show ?thesis
    by (auto simp: ProcessMemory_contains_user_range_def region_fits_iff [OF Some] checked_sub_def)
qed

lemma get_pid_by_task_id_iff:
  "ProcessTable_get_pid_by_task_id t task = Some pid \<longleftrightarrow>
     (\<exists>p. filter (\<lambda>p. proc_scheduler_task p = task \<and> proc_live p) (flatten (pt_processes t)) = [p] \<and>
          proc_pid p = pid)"
  by (auto simp: ProcessTable_get_pid_by_task_id_def split: list.splits)

text \<open>Process slots are not reclaimed: termination keeps the block, so a full table stays full.\<close>

lemma length_flatten_modify: "length (flatten (modify_id ident i f xs)) = length (flatten xs)"
  by (auto simp: modify_id_def length_flatten_replace dest!: find_slot_SomeD split: option.splits)

lemma terminate_keeps_slot:
  "length (flatten (pt_processes (snd (ProcessTable_terminate pid code t)))) = length (flatten (pt_processes t))"
  by (simp add: ProcessTable_terminate_def ProcessTable_modify_def length_flatten_modify split: option.splits)

lemma create_after_terminations:
  assumes "length (flatten (pt_processes t)) = length (pt_processes t)"
  shows "ProcessTable_create x (fold (\<lambda>pid t. snd (ProcessTable_terminate pid 0 t)) pids t) = None"
  using assms
proof (induction pids arbitrary: t)
  case Nil
  then show ?case by (simp add: procs.add_None_iff)
next
  case (Cons pid pids)
  have "length (pt_processes (snd (ProcessTable_terminate pid 0 t))) = length (pt_processes t)"
    by (simp add: ProcessTable_terminate_def ProcessTable_modify_def split: option.splits)
  with Cons terminate_keeps_slot [of pid 0 t] show ?case by simp
qed

section \<open>Properties\<close>

text \<open>
  C9. A held pin freezes the address space it was taken on: in every reachable state, the process
  of a held pin exists and still has the generation recorded in the pin, a mapping update of that
  process is refused as busy, and the release of the pin succeeds.
\<close>

theorem held_pin_freezes_address_space:
  assumes "pin_reach (t, ps)" "pin \<in> set ps"
  shows "\<exists>p. ProcessTable_get t (pin_pid pin) = Some p \<and>
      as_generation (proc_address_space p) = pin_generation pin \<and>
      fst (ProcessTable_bump_address_space_generation (pin_pid pin) t) = Err AsErr_Busy \<and>
      fst (ProcessTable_release_address_space_pin pin t) = Ok ()"
proof -
  have inv: "pins_ok (t, ps)" using assms(1) by (rule pins_ok_reach)
  then obtain p where p: "ProcessTable_get t (pin_pid pin) = Some p" using assms(2) by (auto simp: pins_ok_def)
  have m: "space_matches (proc_address_space p) (pins_of (pin_pid pin) ps)" using inv p by (simp add: pins_ok_def)
  have mem: "pin \<in> set (pins_of (pin_pid pin) ps)" using assms(2) by simp
  have "as_pins (proc_address_space p) \<noteq> 0" using m mem by (auto simp: space_matches_def filter_empty_conv)
  moreover have "as_generation (proc_address_space p) = pin_generation pin"
    using m mem by (simp add: space_matches_def)
  ultimately show ?thesis using p
    by (simp add: ProcessTable_bump_address_space_generation_def ProcessTable_release_address_space_pin_def
        with_address_space_result AddressSpaceState_bump_generation_def AddressSpaceState_release_def)
qed

theorem held_pin_freezes_address_space_witness:
  "let t1 = snd (the (ProcessTable_create (ascii ''init'', None, 1) ProcessTable_new));
       t2 = snd (ProcessTable_pin_address_space 1 t1)
   in fst (ProcessTable_bump_address_space_generation 1 t2) = Err AsErr_Busy"
proof -
  let ?x = "(ascii ''init'', None, 1 :: TaskId)"
  let ?t1 = "snd (the (ProcessTable_create ?x ProcessTable_new))"
  let ?t2 = "snd (ProcessTable_pin_address_space 1 ?t1)"
  let ?pin = "\<lparr>pin_pid = 1, pin_generation = 1\<rparr>"
  have c: "ProcessTable_create ?x ProcessTable_new = Some (1, ?t1)"
    by (simp add: ProcessTable_create_def ProcessTable_new_def MAX_PROCESSES_def)
  have p: "ProcessTable_pin_address_space 1 ?t1 = (Ok ?pin, ?t2)"
    by (simp add: ProcessTable_create_def ProcessTable_new_def MAX_PROCESSES_def
        ProcessTable_pin_address_space_def with_address_space_def ProcessTable_get_def new_process_def
        AddressSpaceState_pin_def AddressSpaceState_new_def checked_add_def)
  have n: "pt_next_pid ProcessTable_new \<noteq> - 1" by (simp add: ProcessTable_new_def)
  have "pin_reach (?t2, [?pin])"
    by (rule reach_step [OF reach_step [OF reach_new step_create [OF n c]] step_pin [OF p]])
  from held_pin_freezes_address_space [OF this, of ?pin] show ?thesis by (auto simp: Let_def)
qed

text \<open>
  The range check of a process is exact: a non-empty range is accepted if and only if, without
  wrap-around, all of it lies in the code region, in the stack region or in the heap region.
\<close>

theorem contains_user_range_exact:
  "ProcessMemory_contains_user_range m start len \<longleftrightarrow> len = 0 \<or> (stack_size m \<le> stack_top m \<and>
     (in_region (unat start) (unat len) (unat (code_start m)) (unat (code_size m)) \<or>
      in_region (unat start) (unat len) (unat (stack_top m - stack_size m)) (unat (stack_size m)) \<or>
      in_region (unat start) (unat len) (unat (heap_start m))
        (unat (saturating_sub (heap_end m) (heap_start m)))))"
  by (rule contains_user_range_iff)

text \<open>
  A task identity resolves to a process only if it is unambiguous: the lookup returns a
  process identifier exactly when one single live process is attached to the task.
\<close>

theorem task_resolves_to_unique_live_process:
  "ProcessTable_get_pid_by_task_id t task = Some pid \<longleftrightarrow>
     (\<exists>p. filter (\<lambda>p. proc_scheduler_task p = task \<and> proc_live p) (flatten (pt_processes t)) = [p] \<and>
          proc_pid p = pid)"
  by (rule get_pid_by_task_id_iff)

end
