(* ===== verification/Signals.thy ===== *)
theory Signals
  imports Process
begin

text \<open>
  Signals, \<^verbatim>\<open>src/kernel/src/signal.rs\<close>: signal numbers, the action tables (one per process
  slot), sending a signal to a process, and the delivery of the pending signals in the fixed
  priority order. The process table that the source reaches through the global
  \<^verbatim>\<open>PROCESS_TABLE\<close> is passed explicitly.
\<close>

section \<open>Signals and actions\<close>

datatype Signal =
    Sig_Hup | Sig_Int | Sig_Quit | Sig_Kill | Sig_Usr1 | Sig_Usr2 | Sig_Term | Sig_Chld | Sig_Cont | Sig_Stop

fun Signal_number :: "Signal \<Rightarrow> nat" where
  "Signal_number Sig_Hup = 1"
| "Signal_number Sig_Int = 2"
| "Signal_number Sig_Quit = 3"
| "Signal_number Sig_Kill = 9"
| "Signal_number Sig_Usr1 = 10"
| "Signal_number Sig_Usr2 = 12"
| "Signal_number Sig_Term = 15"
| "Signal_number Sig_Chld = 17"
| "Signal_number Sig_Cont = 18"
| "Signal_number Sig_Stop = 19"

definition Signal_try_from :: "u8 \<Rightarrow> (Signal, string) result" where
  "Signal_try_from val =
     (if val = 1 then Ok Sig_Hup
      else if val = 2 then Ok Sig_Int
      else if val = 3 then Ok Sig_Quit
      else if val = 9 then Ok Sig_Kill
      else if val = 10 then Ok Sig_Usr1
      else if val = 12 then Ok Sig_Usr2
      else if val = 15 then Ok Sig_Term
      else if val = 17 then Ok Sig_Chld
      else if val = 18 then Ok Sig_Cont
      else if val = 19 then Ok Sig_Stop
      else Err ''Invalid signal number'')"

datatype SignalAction = Action_Default | Action_Ignore | Action_Handler u64

type_synonym SignalTable = "SignalAction list"

definition SignalTable_new :: SignalTable where
  "SignalTable_new = replicate 32 Action_Default"

type_synonym SignalManager = "SignalTable list"

definition SignalManager_new :: SignalManager where
  "SignalManager_new = replicate MAX_PROCESSES SignalTable_new"

definition sig_bit :: "Signal \<Rightarrow> u64" where
  "sig_bit sig = push_bit (Signal_number sig) 1"

section \<open>Operations\<close>

definition SignalManager_send :: "Pid \<Rightarrow> Signal \<Rightarrow> ProcessTable \<Rightarrow> (unit, string) result \<times> ProcessTable" where
  "SignalManager_send pid sig t =
     (case ProcessTable_get t pid of
        Some p \<Rightarrow>
          if proc_state p = Proc_Terminated then (Err ''Process already terminated'', t)
          else (Ok (), ProcessTable_modify pid
                  (\<lambda>p. p\<lparr>proc_signal_pending := proc_signal_pending p OR sig_bit sig\<rparr>) t)
      | None \<Rightarrow> (Err ''Process not found'', t))"

definition SignalManager_set_action ::
  "ProcessTable \<Rightarrow> Pid \<Rightarrow> Signal \<Rightarrow> SignalAction \<Rightarrow> SignalManager \<Rightarrow> (unit, string) result \<times> SignalManager" where
  "SignalManager_set_action t pid sig action mgr =
     (if sig = Sig_Kill \<or> sig = Sig_Stop then (Err ''SIGKILL and SIGSTOP cannot be caught or ignored'', mgr)
      else case ProcessTable_slot_of t pid of
        Some slot \<Rightarrow>
          if Signal_number sig < 32
          then (Ok (), mgr[slot := (mgr ! slot)[Signal_number sig := action]])
          else (Err ''Signal number out of range'', mgr)
      | None \<Rightarrow> (Err ''Process not found'', mgr))"

definition SignalManager_get_action :: "SignalManager \<Rightarrow> ProcessTable \<Rightarrow> Pid \<Rightarrow> Signal \<Rightarrow> SignalAction" where
  "SignalManager_get_action mgr t pid sig =
     (case ProcessTable_slot_of t pid of
        Some slot \<Rightarrow> if Signal_number sig < 32 then mgr ! slot ! Signal_number sig else Action_Default
      | None \<Rightarrow> Action_Default)"

definition SignalManager_pending_for :: "ProcessTable \<Rightarrow> Pid \<Rightarrow> u64" where
  "SignalManager_pending_for t pid =
     (case ProcessTable_get t pid of
        Some p \<Rightarrow> proc_signal_pending p AND NOT (proc_signal_blocked p)
      | None \<Rightarrow> 0)"

definition SignalManager_clear_pending :: "Pid \<Rightarrow> Signal \<Rightarrow> ProcessTable \<Rightarrow> ProcessTable" where
  "SignalManager_clear_pending pid sig t =
     ProcessTable_modify pid (\<lambda>p. p\<lparr>proc_signal_pending := proc_signal_pending p AND NOT (sig_bit sig)\<rparr>) t"

definition signals_to_check :: "Signal list" where
  "signals_to_check =
     [Sig_Kill, Sig_Term, Sig_Int, Sig_Quit, Sig_Hup, Sig_Usr1, Sig_Usr2, Sig_Chld, Sig_Cont, Sig_Stop]"

fun deliver_loop ::
  "SignalManager \<Rightarrow> Pid \<Rightarrow> u64 \<Rightarrow> Signal list \<Rightarrow> ProcessTable \<Rightarrow> (Signal \<times> u64) option \<times> ProcessTable" where
  "deliver_loop mgr pid pending_mask [] t = (None, t)"
| "deliver_loop mgr pid pending_mask (sig # sigs) t =
     (if pending_mask AND sig_bit sig \<noteq> 0 then
        let t = SignalManager_clear_pending pid sig t
        in case SignalManager_get_action mgr t pid sig of
             Action_Ignore \<Rightarrow> deliver_loop mgr pid pending_mask sigs t
           | Action_Default \<Rightarrow>
               if sig = Sig_Chld \<or> sig = Sig_Cont then deliver_loop mgr pid pending_mask sigs t
               else if sig = Sig_Stop then deliver_loop mgr pid pending_mask sigs t
               else (None, snd (ProcessTable_terminate pid (128 + of_nat (Signal_number sig)) t))
           | Action_Handler handler_addr \<Rightarrow> (Some (sig, handler_addr), t)
      else deliver_loop mgr pid pending_mask sigs t)"

definition SignalManager_deliver_pending ::
  "SignalManager \<Rightarrow> Pid \<Rightarrow> ProcessTable \<Rightarrow> (Signal \<times> u64) option \<times> ProcessTable" where
  "SignalManager_deliver_pending mgr pid t =
     (let pending_mask = SignalManager_pending_for t pid
      in if pending_mask = 0 then (None, t)
         else deliver_loop mgr pid pending_mask signals_to_check t)"

section \<open>Specification vocabulary\<close>

text \<open>What an action does with a signal: skip it, end the process, or run a handler.\<close>

datatype disposition = Skip | Kill_Process | Run_Handler u64

fun effect_of :: "SignalAction \<Rightarrow> Signal \<Rightarrow> disposition" where
  "effect_of Action_Ignore sig = Skip"
| "effect_of Action_Default sig =
     (if sig \<in> {Sig_Chld, Sig_Cont, Sig_Stop} then Skip else Kill_Process)"
| "effect_of (Action_Handler h) sig = Run_Handler h"

definition pending_unblocked :: "Process \<Rightarrow> Signal \<Rightarrow> bool" where
  "pending_unblocked p sig \<longleftrightarrow>
     bit (proc_signal_pending p) (Signal_number sig) \<and> \<not> bit (proc_signal_blocked p) (Signal_number sig)"

text \<open>The slots of \<^verbatim>\<open>SIGKILL\<close> and \<^verbatim>\<open>SIGSTOP\<close> hold the default action.\<close>

definition uncatchable_default :: "SignalManager \<Rightarrow> bool" where
  "uncatchable_default mgr \<longleftrightarrow> length mgr = MAX_PROCESSES \<and>
     (\<forall>tb \<in> set mgr. length tb = 32 \<and> tb ! 9 = Action_Default \<and> tb ! 19 = Action_Default)"

text \<open>
  The decision of a delivery: the first signal, in the given order, that is in the mask and is not
  skipped; what happens to the process; and the signals consumed on the way.
\<close>

definition decides :: "(Signal \<Rightarrow> SignalAction) \<Rightarrow> u64 \<Rightarrow> Signal \<Rightarrow> bool" where
  "decides act msk s \<longleftrightarrow> bit msk (Signal_number s) \<and> effect_of (act s) s \<noteq> Skip"

definition delivered :: "(Signal \<Rightarrow> SignalAction) \<Rightarrow> Signal option \<Rightarrow> (Signal \<times> u64) option" where
  "delivered act d = (case d of None \<Rightarrow> None
     | Some s \<Rightarrow> (case effect_of (act s) s of Run_Handler h \<Rightarrow> Some (s, h) | _ \<Rightarrow> None))"

definition after_decision :: "(Signal \<Rightarrow> SignalAction) \<Rightarrow> Signal option \<Rightarrow> Process \<Rightarrow> Process" where
  "after_decision act d p = (case d of None \<Rightarrow> p
     | Some s \<Rightarrow> (case effect_of (act s) s of
          Kill_Process \<Rightarrow> p\<lparr>proc_state := Proc_Terminated, proc_exit_code := 128 + of_nat (Signal_number s)\<rparr>
        | _ \<Rightarrow> p))"

definition consumed :: "(Signal \<Rightarrow> SignalAction) \<Rightarrow> u64 \<Rightarrow> Signal list \<Rightarrow> Signal list" where
  "consumed act msk order =
     filter (\<lambda>s. bit msk (Signal_number s)) (takeWhile (\<lambda>s. \<not> decides act msk s) order) @
     (case List.find (decides act msk) order of None \<Rightarrow> [] | Some s \<Rightarrow> [s])"

definition clear_signals :: "Signal list \<Rightarrow> u64 \<Rightarrow> u64" where
  "clear_signals sigs w = fold (\<lambda>s w. w AND NOT (sig_bit s)) sigs w"

lemma Signal_number_lt: "Signal_number s < 32"
  by (cases s) simp_all

lemma Signal_number_eq_iff [simp]: "Signal_number s = Signal_number s' \<longleftrightarrow> s = s'"
  by (cases s; cases s') simp_all

lemma Signal_try_from_iff: "Signal_try_from v = Ok s \<longleftrightarrow> v = of_nat (Signal_number s)"
  by (cases s) (auto simp: Signal_try_from_def)

lemma in_signals_to_check: "s \<in> set signals_to_check"
  by (cases s) (simp_all add: signals_to_check_def)

lemma sig_bit_iff: "w AND sig_bit s \<noteq> 0 \<longleftrightarrow> bit w (Signal_number s)"
  using and_bit_eq_0_iff [of "Signal_number s" w] Signal_number_lt [of s] by (simp add: sig_bit_def)

lemma bit_sig_bit: "bit (sig_bit s) n \<longleftrightarrow> n = Signal_number s"
  using Signal_number_lt [of s] by (auto simp: sig_bit_def bit_simps)

lemma bit_not_sig_bit: "n < 64 \<Longrightarrow> bit (NOT (sig_bit s)) n \<longleftrightarrow> n \<noteq> Signal_number s"
  by (simp add: bit_simps bit_sig_bit)

lemma slot_of_modify:
  assumes "\<And>p. proc_pid (f p) = proc_pid p"
  shows "ProcessTable_slot_of (ProcessTable_modify j f t) pid = ProcessTable_slot_of t pid"
proof -
  have eq: "map (map_option proc_pid) (modify_id proc_pid j f xs) = map (map_option proc_pid) xs" for xs
    using assms by (auto simp: modify_id_def map_update option.map_comp comp_def list_update_same_conv
        dest!: find_slot_SomeD split: option.splits)
  have find: "find_slot (\<lambda>p. proc_pid p = pid) xs = position (\<lambda>s. s = Some pid) (map (map_option proc_pid) xs)" for xs
    unfolding find_slot_def by (induction xs) (auto split: option.splits)
  show ?thesis by (simp add: ProcessTable_slot_of_def find ProcessTable_modify_def eq)
qed

lemma get_action_clear [simp]:
  "SignalManager_get_action mgr (SignalManager_clear_pending pid s t) q sig = SignalManager_get_action mgr t q sig"
  by (simp add: SignalManager_get_action_def SignalManager_clear_pending_def slot_of_modify)

lemma slot_of_lt: "procs_ok t \<Longrightarrow> ProcessTable_slot_of t pid = Some k \<Longrightarrow> k < MAX_PROCESSES"
  by (auto simp: ProcessTable_slot_of_def procs_ok_def dest: find_slot_SomeD)

lemma get_action_uncatchable:
  assumes "uncatchable_default mgr" "procs_ok t" "s = Sig_Kill \<or> s = Sig_Stop"
  shows "SignalManager_get_action mgr t pid s = Action_Default"
  using assms slot_of_lt [OF assms(2), of pid]
  by (auto simp: SignalManager_get_action_def uncatchable_default_def split: option.splits)

lemma uncatchable_new: "uncatchable_default SignalManager_new"
  by (simp add: uncatchable_default_def SignalManager_new_def SignalTable_new_def)

lemma uncatchable_set_action:
  assumes "uncatchable_default mgr" "procs_ok t"
  shows "uncatchable_default (snd (SignalManager_set_action t pid sig action mgr))"
proof -
  have "Signal_number sig \<noteq> 9 \<and> Signal_number sig \<noteq> 19" if "sig \<noteq> Sig_Kill" "sig \<noteq> Sig_Stop"
    using that by (cases sig) simp_all
  then show ?thesis using assms slot_of_lt [OF assms(2), of pid]
    by (auto simp: SignalManager_set_action_def uncatchable_default_def nth_list_update
        dest!: set_update_subset_insert [THEN subsetD] split: option.splits)
qed

section \<open>Delivery\<close>

lemma get_clear:
  "ProcessTable_get (SignalManager_clear_pending pid s t) j =
     (if j = pid then map_option (\<lambda>p. p\<lparr>proc_signal_pending := proc_signal_pending p AND NOT (sig_bit s)\<rparr>) (ProcessTable_get t pid)
      else ProcessTable_get t j)"
  by (simp add: SignalManager_clear_pending_def pstore.get_modify)

lemma get_terminate:
  "ProcessTable_get (snd (ProcessTable_terminate pid code t)) j =
     (if j = pid then map_option (\<lambda>p. p\<lparr>proc_state := Proc_Terminated, proc_exit_code := code\<rparr>) (ProcessTable_get t pid)
      else ProcessTable_get t j)"
  by (auto simp: ProcessTable_terminate_def pstore.get_modify split: option.splits)

lemma consumed_Cons:
  "consumed act msk (s # order) =
     (if decides act msk s then [s]
      else if bit msk (Signal_number s) then s # consumed act msk order else consumed act msk order)"
  by (simp add: consumed_def)

lemma clear_signals_simps [simp]:
  "clear_signals [] w = w" "clear_signals (s # sigs) w = clear_signals sigs (w AND NOT (sig_bit s))"
  by (simp_all add: clear_signals_def)

lemma bit_clear_signals:
  "bit (clear_signals sigs w) (Signal_number s) \<longleftrightarrow> bit w (Signal_number s) \<and> s \<notin> set sigs"
  using Signal_number_lt [of s] by (induction sigs arbitrary: w) (auto simp: bit_simps bit_sig_bit)

lemma after_decision_pending [simp]:
  "after_decision act d (p\<lparr>proc_signal_pending := w\<rparr>) = (after_decision act d p)\<lparr>proc_signal_pending := w\<rparr>"
  by (simp add: after_decision_def split: option.splits disposition.splits)

text \<open>How a delivery changes the table, as a relation.\<close>

definition delivery ::
  "(Signal \<Rightarrow> SignalAction) \<Rightarrow> Pid \<Rightarrow> u64 \<Rightarrow> Signal list \<Rightarrow> ProcessTable \<Rightarrow> (Signal \<times> u64) option \<times> ProcessTable \<Rightarrow> bool" where
  "delivery act pid msk order t res \<longleftrightarrow>
     fst res = delivered act (List.find (decides act msk) order) \<and>
     (\<forall>j. j \<noteq> pid \<longrightarrow> ProcessTable_get (snd res) j = ProcessTable_get t j) \<and>
     ProcessTable_get (snd res) pid =
       map_option (\<lambda>p. (after_decision act (List.find (decides act msk) order) p)
          \<lparr>proc_signal_pending := clear_signals (consumed act msk order) (proc_signal_pending p)\<rparr>)
         (ProcessTable_get t pid)"

lemma delivery_skip:
  assumes "\<not> decides act msk s" "\<not> bit msk (Signal_number s)" "delivery act pid msk order t res"
  shows "delivery act pid msk (s # order) t res"
  using assms by (simp add: delivery_def consumed_Cons)

lemma delivery_clear:
  assumes "\<not> decides act msk s" "bit msk (Signal_number s)"
    "delivery act pid msk order (SignalManager_clear_pending pid s t) res"
  shows "delivery act pid msk (s # order) t res"
  using assms by (cases "ProcessTable_get t pid") (simp_all add: delivery_def consumed_Cons get_clear)

lemma delivery_decided:
  assumes "decides act msk s" "fst res = delivered act (Some s)"
    "snd res = (case effect_of (act s) s of
       Kill_Process \<Rightarrow> snd (ProcessTable_terminate pid (128 + of_nat (Signal_number s)) (SignalManager_clear_pending pid s t))
     | _ \<Rightarrow> SignalManager_clear_pending pid s t)"
  shows "delivery act pid msk (s # order) t res"
  using assms
  by (cases "ProcessTable_get t pid"; cases "effect_of (act s) s")
    (simp_all add: delivery_def consumed_Cons get_clear get_terminate after_decision_def)

lemma deliver_loop_spec:
  "delivery (SignalManager_get_action mgr t pid) pid msk order t (deliver_loop mgr pid msk order t)"
proof (induction order arbitrary: t)
  case Nil
  show ?case by (cases "ProcessTable_get t pid") (simp_all add: delivery_def delivered_def after_decision_def consumed_def)
next
  case (Cons s order)
  let ?act = "SignalManager_get_action mgr t pid" and ?t = "SignalManager_clear_pending pid s t"
  have act: "SignalManager_get_action mgr ?t pid = ?act" by (simp add: fun_eq_iff)
  have ih: "delivery ?act pid msk order ?t (deliver_loop mgr pid msk order ?t)"
    using Cons.IH [of ?t] act by simp
  show ?case
  proof (cases "bit msk (Signal_number s)")
    case False
    then show ?thesis
      using delivery_skip [OF _ False Cons.IH [of t]] by (simp add: sig_bit_iff decides_def)
  next
    case True
    show ?thesis
    proof (cases "effect_of (?act s) s = Skip")
      case skip: True
      then have "deliver_loop mgr pid msk (s # order) t = deliver_loop mgr pid msk order ?t"
        using True by (auto simp: sig_bit_iff Let_def split: SignalAction.splits if_splits)
      then show ?thesis using delivery_clear [OF _ True ih] skip by (simp add: decides_def)
    next
      case False
      with True have d: "decides ?act msk s" by (simp add: decides_def)
      show ?thesis
        by (rule delivery_decided [OF d])
          (use True False in \<open>auto simp: sig_bit_iff Let_def delivered_def split: SignalAction.splits if_splits\<close>)
    qed
  qed
qed

lemma deliver_pending_spec:
  "delivery (SignalManager_get_action mgr t pid) pid (SignalManager_pending_for t pid) signals_to_check t
     (SignalManager_deliver_pending mgr pid t)"
proof (cases "SignalManager_pending_for t pid = 0")
  case True
  have n: "List.find (decides act 0) order = None" for act order
    by (simp add: decides_def find_None_iff)
  then have "consumed act 0 order = []" for act order by (simp add: consumed_def)
  with True n show ?thesis
    by (cases "ProcessTable_get t pid")
      (simp_all add: SignalManager_deliver_pending_def delivery_def delivered_def after_decision_def)
next
  case False
  then show ?thesis using deliver_loop_spec by (simp add: SignalManager_deliver_pending_def Let_def)
qed

lemma pending_for_bit:
  "ProcessTable_get t pid = Some p \<Longrightarrow>
   bit (SignalManager_pending_for t pid) (Signal_number s) \<longleftrightarrow> pending_unblocked p s"
  using Signal_number_lt [of s] by (auto simp: SignalManager_pending_for_def pending_unblocked_def bit_simps)

lemma kill_delivered:
  assumes "procs_ok t" "uncatchable_default mgr" "ProcessTable_get t pid = Some p" "pending_unblocked p Sig_Kill"
  shows "fst (SignalManager_deliver_pending mgr pid t) = None \<and>
    (\<exists>p'. ProcessTable_get (snd (SignalManager_deliver_pending mgr pid t)) pid = Some p' \<and>
       proc_state p' = Proc_Terminated \<and> proc_exit_code p' = 137)"
proof -
  have a: "SignalManager_get_action mgr t pid Sig_Kill = Action_Default"
    using get_action_uncatchable assms(1,2) by blast
  have "decides (SignalManager_get_action mgr t pid) (SignalManager_pending_for t pid) Sig_Kill"
    using a assms(4) pending_for_bit [OF assms(3), of Sig_Kill] by (simp add: decides_def)
  then have "List.find (decides (SignalManager_get_action mgr t pid) (SignalManager_pending_for t pid))
      signals_to_check = Some Sig_Kill"
    by (simp add: signals_to_check_def)
  then show ?thesis using deliver_pending_spec [of mgr t pid] a assms(3)
    by (simp add: delivery_def delivered_def after_decision_def)
qed

section \<open>Properties\<close>

text \<open>
  C35. Signal delivery follows the priority order and the masks: on an existing process it acts on
  the first pending, unblocked signal that is not ignored. That signal runs its handler or ends the
  process with code 128 plus its number; it and the ignored pending ones before it are
  consumed, every other signal (blocked, or of lower priority) stays pending, and no other process
  changes.
\<close>

theorem signal_delivery:
  assumes "ProcessTable_get t pid = Some p"
    "act = SignalManager_get_action mgr t pid" "msk = SignalManager_pending_for t pid"
    "d = List.find (decides act msk) signals_to_check"
  shows "(\<forall>s. decides act msk s \<longleftrightarrow> pending_unblocked p s \<and> effect_of (act s) s \<noteq> Skip) \<and>
    fst (SignalManager_deliver_pending mgr pid t) = delivered act d \<and>
    (\<exists>p'. ProcessTable_get (snd (SignalManager_deliver_pending mgr pid t)) pid = Some p' \<and>
       p' = (after_decision act d p)\<lparr>proc_signal_pending := proc_signal_pending p'\<rparr> \<and>
       (\<forall>s. bit (proc_signal_pending p') (Signal_number s) \<longleftrightarrow>
          bit (proc_signal_pending p) (Signal_number s) \<and> s \<notin> set (consumed act msk signals_to_check))) \<and>
    (\<forall>j. j \<noteq> pid \<longrightarrow>
       ProcessTable_get (snd (SignalManager_deliver_pending mgr pid t)) j = ProcessTable_get t j)"
  using deliver_pending_spec [of mgr t pid] assms
  by (simp add: delivery_def bit_clear_signals decides_def pending_for_bit)

theorem signal_delivery_witness:
  "let t = snd (the (ProcessTable_create (ascii ''init'', None, 1) ProcessTable_new))
   in fst (SignalManager_deliver_pending SignalManager_new 1 t) = None"
proof -
  let ?t = "snd (the (ProcessTable_create (ascii ''init'', None, 1) ProcessTable_new))"
  have g: "ProcessTable_get ?t 1 = Some (new_process (ascii ''init'', None, 1) 1)"
    by (simp add: ProcessTable_create_def ProcessTable_new_def MAX_PROCESSES_def ProcessTable_get_def new_process_def)
  have m: "SignalManager_pending_for ?t 1 = 0"
    by (simp add: SignalManager_pending_for_def g new_process_def)
  have "List.find (decides act 0) signals_to_check = None" for act
    by (simp add: decides_def find_None_iff)
  with signal_delivery [OF g refl refl refl, of SignalManager_new] m show ?thesis
    by (simp add: Let_def delivered_def)
qed

end
