(* ===== verification/Run_Queue.thy ===== *)
theory Run_Queue
  imports Prelude "HOL-Library.Multiset"
begin

text \<open>
  The per-CPU run queue of \<^verbatim>\<open>src/kernel/src/sched.rs\<close>: a fixed array of task identifiers
  with a length and a round-robin cursor. Its live prefix is the list \<open>rq_contents\<close>, and each
  operation is characterised by what it does to that list.
\<close>

section \<open>The queue\<close>

definition MAX_TASKS :: nat where "MAX_TASKS = 64"
definition MAX_RUN_QUEUE_TASKS :: nat where "MAX_RUN_QUEUE_TASKS = MAX_TASKS"

datatype RunQueueError = Rq_InvalidCpu | Rq_InvalidTask | Rq_Full | Rq_Duplicate

record CpuRunQueue =
  rq_tasks :: "TaskId list"
  rq_len :: nat
  rq_cursor :: nat

definition CpuRunQueue_new :: CpuRunQueue where
  "CpuRunQueue_new = \<lparr>rq_tasks = replicate MAX_RUN_QUEUE_TASKS 0, rq_len = 0, rq_cursor = 0\<rparr>"

definition CpuRunQueue_is_empty :: "CpuRunQueue \<Rightarrow> bool" where
  "CpuRunQueue_is_empty q \<longleftrightarrow> rq_len q = 0"

definition CpuRunQueue_contains :: "CpuRunQueue \<Rightarrow> TaskId \<Rightarrow> bool" where
  "CpuRunQueue_contains q task_id \<longleftrightarrow> List.member (take (rq_len q) (rq_tasks q)) task_id"

definition CpuRunQueue_enqueue :: "TaskId \<Rightarrow> CpuRunQueue \<Rightarrow> (unit, RunQueueError) result \<times> CpuRunQueue" where
  "CpuRunQueue_enqueue task_id q =
     (if task_id = 0 then (Err Rq_InvalidTask, q)
      else if CpuRunQueue_contains q task_id then (Err Rq_Duplicate, q)
      else if rq_len q = MAX_RUN_QUEUE_TASKS then (Err Rq_Full, q)
      else (Ok (), q\<lparr>rq_tasks := (rq_tasks q)[rq_len q := task_id], rq_len := rq_len q + 1\<rparr>))"

text \<open>\<^verbatim>\<open>slice.copy_within(from..until, dest)\<close>.\<close>

definition copy_within :: "nat \<Rightarrow> nat \<Rightarrow> nat \<Rightarrow> 'a list \<Rightarrow> 'a list" where
  "copy_within from until dest xs =
     take dest xs @ take (until - from) (drop from xs) @ drop (dest + (until - from)) xs"

definition CpuRunQueue_remove :: "TaskId \<Rightarrow> CpuRunQueue \<Rightarrow> bool \<times> CpuRunQueue" where
  "CpuRunQueue_remove task_id q =
     (case position (\<lambda>id. id = task_id) (take (rq_len q) (rq_tasks q)) of
        None \<Rightarrow> (False, q)
      | Some index \<Rightarrow>
          (let tasks = copy_within (index + 1) (rq_len q) index (rq_tasks q);
               len = rq_len q - 1;
               tasks = tasks[len := 0];
               cursor = (if len = 0 then 0 else rq_cursor q mod len)
           in (True, q\<lparr>rq_tasks := tasks, rq_len := len, rq_cursor := cursor\<rparr>)))"

definition CpuRunQueue_next :: "CpuRunQueue \<Rightarrow> TaskId option \<times> CpuRunQueue" where
  "CpuRunQueue_next q =
     (if rq_len q = 0 then (None, q)
      else (Some (rq_tasks q ! (rq_cursor q mod rq_len q)), q\<lparr>rq_cursor := (rq_cursor q + 1) mod rq_len q\<rparr>))"

definition CpuRunQueue_pop_next :: "CpuRunQueue \<Rightarrow> TaskId option \<times> CpuRunQueue" where
  "CpuRunQueue_pop_next q =
     (case CpuRunQueue_next q of
        (None, q) \<Rightarrow> (None, q)
      | (Some task_id, q) \<Rightarrow> (Some task_id, snd (CpuRunQueue_remove task_id q)))"

text \<open>The loop of \<^verbatim>\<open>pop_next_excluding\<close>, with the number of attempts left.\<close>

fun pop_excluding_loop :: "nat \<Rightarrow> TaskId option \<Rightarrow> CpuRunQueue \<Rightarrow> TaskId option \<times> CpuRunQueue" where
  "pop_excluding_loop 0 excluded q = (None, q)"
| "pop_excluding_loop (Suc attempts) excluded q =
     (case CpuRunQueue_next q of
        (None, q) \<Rightarrow> (None, q)
      | (Some task_id, q) \<Rightarrow>
          if Some task_id \<noteq> excluded then (Some task_id, snd (CpuRunQueue_remove task_id q))
          else pop_excluding_loop attempts excluded q)"

definition CpuRunQueue_pop_next_excluding :: "TaskId option \<Rightarrow> CpuRunQueue \<Rightarrow> TaskId option \<times> CpuRunQueue" where
  "CpuRunQueue_pop_next_excluding excluded q = pop_excluding_loop (rq_len q) excluded q"

section \<open>Contents and invariant\<close>

definition rq_contents :: "CpuRunQueue \<Rightarrow> TaskId list" where
  "rq_contents q = take (rq_len q) (rq_tasks q)"

definition rq_ok :: "CpuRunQueue \<Rightarrow> bool" where
  "rq_ok q \<longleftrightarrow> length (rq_tasks q) = MAX_RUN_QUEUE_TASKS \<and> rq_len q \<le> MAX_RUN_QUEUE_TASKS \<and>
     0 \<notin> set (rq_contents q) \<and> distinct (rq_contents q) \<and>
     (if rq_len q = 0 then rq_cursor q = 0 else rq_cursor q < rq_len q)"

lemma length_rq_contents: "rq_ok q \<Longrightarrow> length (rq_contents q) = rq_len q"
  by (simp add: rq_ok_def rq_contents_def)

lemma rq_ok_new: "rq_ok CpuRunQueue_new" "rq_contents CpuRunQueue_new = []" "rq_len CpuRunQueue_new = 0"
  by (simp_all add: rq_ok_def CpuRunQueue_new_def rq_contents_def)

lemma contains_iff: "CpuRunQueue_contains q t \<longleftrightarrow> t \<in> set (rq_contents q)"
  by (simp add: CpuRunQueue_contains_def rq_contents_def)

lemma enqueue_spec:
  assumes "rq_ok q"
  shows "CpuRunQueue_enqueue t q =
    (if t = 0 then (Err Rq_InvalidTask, q)
     else if t \<in> set (rq_contents q) then (Err Rq_Duplicate, q)
     else if length (rq_contents q) = MAX_RUN_QUEUE_TASKS then (Err Rq_Full, q)
     else (Ok (), q\<lparr>rq_tasks := (rq_tasks q)[rq_len q := t], rq_len := rq_len q + 1\<rparr>))"
  by (simp add: CpuRunQueue_enqueue_def contains_iff length_rq_contents [OF assms])

lemma enqueue_ok:
  assumes "rq_ok q" "CpuRunQueue_enqueue t q = (Ok (), q')"
  shows "rq_ok q' \<and> rq_contents q' = rq_contents q @ [t]"
proof -
  have l: "rq_len q < length (rq_tasks q)" and q': "q' = q\<lparr>rq_tasks := (rq_tasks q)[rq_len q := t], rq_len := rq_len q + 1\<rparr>"
    and t: "t \<noteq> 0" "t \<notin> set (rq_contents q)"
    using assms by (auto simp: enqueue_spec [OF assms(1)] length_rq_contents rq_ok_def split: if_splits)
  have "rq_contents q' = rq_contents q @ [t]"
    using l by (simp add: q' rq_contents_def take_Suc_conv_app_nth)
  then show ?thesis using assms(1) t l by (auto simp: rq_ok_def q' split: if_splits)
qed

lemma enqueue_Err: "CpuRunQueue_enqueue t q = (Err e, q') \<Longrightarrow> q' = q"
  by (auto simp: CpuRunQueue_enqueue_def split: if_splits)

lemma take_copy_within:
  assumes "i \<le> n" "Suc n \<le> length xs"
  shows "take n ((copy_within (i + 1) (Suc n) i xs)[n := y]) = take i (take (Suc n) xs) @ drop (Suc i) (take (Suc n) xs)"
proof -
  have "length (take i xs @ take (n - i) (drop (Suc i) xs)) = n" using assms by simp
  then have "take n (take i xs @ take (n - i) (drop (Suc i) xs) @ drop n xs) =
      take i xs @ take (n - i) (drop (Suc i) xs)"
    by (metis append.assoc append_eq_conv_conj)
  then show ?thesis using assms by (simp add: copy_within_def drop_take min_def)
qed

lemma remove_contents:
  assumes "rq_ok q" "t \<in> set (rq_contents q)"
  shows "\<exists>q'. CpuRunQueue_remove t q = (True, q') \<and> rq_ok q' \<and> rq_contents q' = remove1 t (rq_contents q)"
proof -
  let ?c = "rq_contents q"
  obtain i where i: "position (\<lambda>id. id = t) ?c = Some i"
    using assms(2) position_None_iff [of "\<lambda>id. id = t" ?c] by (cases "position (\<lambda>id. id = t) ?c") auto
  then have il: "i < rq_len q" "?c ! i = t" "\<forall>j < i. ?c ! j \<noteq> t"
    using length_rq_contents [OF assms(1)] by (auto simp: position_Some_iff)
  have len: "rq_len q \<le> length (rq_tasks q)" using assms(1) by (simp add: rq_ok_def)
  let ?ts = "(copy_within (i + 1) (rq_len q) i (rq_tasks q))[rq_len q - 1 := 0]"
  obtain n where n: "rq_len q = Suc n" using il(1) by (cases "rq_len q") auto
  have c: "take (rq_len q - 1) ?ts = take i ?c @ drop (Suc i) ?c"
    using take_copy_within [of i n "rq_tasks q" 0] il(1) len n by (simp add: rq_contents_def)
  have "?c = take i ?c @ t # drop (Suc i) ?c"
    using il length_rq_contents [OF assms(1)] by (metis id_take_nth_drop)
  moreover have "t \<notin> set (take i ?c)" using il by (auto simp: in_set_conv_nth)
  ultimately have r: "remove1 t ?c = take i ?c @ drop (Suc i) ?c"
    by (metis remove1.simps(2) remove1_append)
  let ?q = "snd (CpuRunQueue_remove t q)"
  have q: "CpuRunQueue_remove t q = (True, ?q)" and lq: "rq_len ?q = rq_len q - 1" and tq: "rq_tasks ?q = ?ts"
    and cq: "rq_cursor ?q = (if rq_len q - 1 = 0 then 0 else rq_cursor q mod (rq_len q - 1))"
    using i by (simp_all add: CpuRunQueue_remove_def rq_contents_def Let_def)
  have cont: "rq_contents ?q = remove1 t ?c" using c r lq tq by (simp add: rq_contents_def)
  have "length ?ts = MAX_RUN_QUEUE_TASKS" using il(1) len assms(1) n by (auto simp: copy_within_def rq_ok_def)
  then have "rq_ok ?q"
    using assms(1) cont lq tq cq il(1) by (auto simp: rq_ok_def dest: notin_set_remove1 intro: mod_less_divisor)
  then show ?thesis using q cont by blast
qed

lemma remove_absent: "t \<notin> set (rq_contents q) \<Longrightarrow> CpuRunQueue_remove t q = (False, q)"
  by (auto simp: CpuRunQueue_remove_def rq_contents_def position_Some_iff in_set_conv_nth split: option.splits)

lemma next_spec:
  assumes "rq_ok q"
  shows "if rq_contents q = [] then CpuRunQueue_next q = (None, q)
    else \<exists>q'. CpuRunQueue_next q = (Some (rq_contents q ! rq_cursor q), q') \<and> rq_ok q' \<and>
      rq_contents q' = rq_contents q \<and> rq_len q' = rq_len q \<and> rq_cursor q' = (rq_cursor q + 1) mod rq_len q \<and>
      rq_cursor q < rq_len q"
  using assms length_rq_contents [OF assms]
  by (auto simp: CpuRunQueue_next_def rq_ok_def rq_contents_def split: if_splits)

text \<open>
  What a selection returns: a task of the queue other than the excluded one, which leaves the
  queue; or nothing, when the queue holds no other task.
\<close>

definition pop_result :: "TaskId option \<Rightarrow> CpuRunQueue \<Rightarrow> TaskId option \<times> CpuRunQueue \<Rightarrow> bool" where
  "pop_result excluded q res \<longleftrightarrow> rq_ok (snd res) \<and>
     (case fst res of
        None \<Rightarrow> rq_contents (snd res) = rq_contents q
      | Some t \<Rightarrow> t \<in> set (rq_contents q) \<and> Some t \<noteq> excluded \<and> rq_contents (snd res) = remove1 t (rq_contents q))"

lemma pop_excluding_loop_result:
  assumes "rq_ok q"
  shows "pop_result excluded q (pop_excluding_loop n excluded q)"
  using assms
proof (induction n arbitrary: q)
  case 0
  then show ?case by (simp add: pop_result_def)
next
  case (Suc n)
  show ?case
  proof (cases "rq_contents q = []")
    case True
    then show ?thesis using next_spec [OF Suc.prems] Suc.prems by (simp add: pop_result_def)
  next
    case False
    then obtain q' where q': "CpuRunQueue_next q = (Some (rq_contents q ! rq_cursor q), q')" "rq_ok q'"
      "rq_contents q' = rq_contents q" "rq_cursor q < rq_len q" using next_spec [OF Suc.prems] by auto
    let ?t = "rq_contents q ! rq_cursor q"
    have t: "?t \<in> set (rq_contents q)" using q'(4) length_rq_contents [OF Suc.prems] by simp
    then obtain q2 where q2: "CpuRunQueue_remove ?t q' = (True, q2)" "rq_ok q2"
      "rq_contents q2 = remove1 ?t (rq_contents q)" using remove_contents [OF q'(2)] q'(3) by auto
    show ?thesis using q' q2 t Suc.IH [OF q'(2)] by (auto simp: pop_result_def split: option.splits)
  qed
qed

lemma pop_excluding_None:
  assumes "rq_ok q" "x \<in> set (rq_contents q)" "Some x \<noteq> excluded"
  shows "fst (CpuRunQueue_pop_next_excluding excluded q) \<noteq> None"
proof -
  have len: "length (rq_contents q) = rq_len q" by (rule length_rq_contents [OF assms(1)])
  have ne: "rq_contents q \<noteq> []" using assms(2) by auto
  obtain q' where q': "CpuRunQueue_next q = (Some (rq_contents q ! rq_cursor q), q')" "rq_ok q'"
    "rq_contents q' = rq_contents q" "rq_len q' = rq_len q" "rq_cursor q' = (rq_cursor q + 1) mod rq_len q"
    "rq_cursor q < rq_len q" using next_spec [OF assms(1)] ne by auto
  obtain n where n: "rq_len q = Suc n" using ne len by (cases "rq_len q") auto
  show ?thesis
  proof (cases "Some (rq_contents q ! rq_cursor q) = excluded")
    case False
    then show ?thesis using q'(1) n by (simp add: CpuRunQueue_pop_next_excluding_def)
  next
    case True
    have "rq_contents q ! rq_cursor q \<noteq> x" using True assms(3) by auto
    then have "1 < rq_len q" using assms(2) len n ne q'(6) by (cases n) (auto simp: in_set_conv_nth)
    then obtain m where m: "n = Suc m" using n by (cases n) auto
    obtain q2 where q2: "CpuRunQueue_next q' = (Some (rq_contents q ! rq_cursor q'), q2)" "rq_cursor q' < rq_len q"
      using next_spec [OF q'(2)] ne q'(3,4) by auto
    have "rq_cursor q' \<noteq> rq_cursor q" using q'(5,6) n m by (auto simp: mod_Suc split: if_splits)
    moreover have "distinct (rq_contents q)" using assms(1) by (simp add: rq_ok_def)
    ultimately have "rq_contents q ! rq_cursor q' \<noteq> rq_contents q ! rq_cursor q"
      using q'(6) q2(2) len by (simp add: nth_eq_iff_index_eq)
    then have "Some (rq_contents q ! rq_cursor q') \<noteq> excluded" using True by auto
    then show ?thesis using True [symmetric] q'(1) q2(1) n m by (simp add: CpuRunQueue_pop_next_excluding_def)
  qed
qed

lemma pop_excluding_spec:
  assumes "rq_ok q"
  shows "pop_result excluded q (CpuRunQueue_pop_next_excluding excluded q)"
    and "fst (CpuRunQueue_pop_next_excluding excluded q) = None \<longleftrightarrow>
      (\<forall>x \<in> set (rq_contents q). Some x = excluded)"
proof -
  show r: "pop_result excluded q (CpuRunQueue_pop_next_excluding excluded q)"
    unfolding CpuRunQueue_pop_next_excluding_def by (rule pop_excluding_loop_result [OF assms])
  show "fst (CpuRunQueue_pop_next_excluding excluded q) = None \<longleftrightarrow>
      (\<forall>x \<in> set (rq_contents q). Some x = excluded)"
  proof
    assume "\<forall>x \<in> set (rq_contents q). Some x = excluded"
    with r show "fst (CpuRunQueue_pop_next_excluding excluded q) = None"
      by (auto simp: pop_result_def split: option.splits)
  qed (use pop_excluding_None [OF assms] in blast)
qed

section \<open>Quanta\<close>

text \<open>
  One quantum of a CPU that only works on its own queue: select a task, run it, give it back (the
  queue side of \<^verbatim>\<open>dispatch\<close> followed by \<^verbatim>\<open>complete\<close>).
\<close>

definition quantum :: "CpuRunQueue \<Rightarrow> TaskId option \<times> CpuRunQueue" where
  "quantum q = (case CpuRunQueue_pop_next_excluding None q of
     (None, q) \<Rightarrow> (None, q) | (Some t, q) \<Rightarrow> (Some t, snd (CpuRunQueue_enqueue t q)))"

fun quanta :: "nat \<Rightarrow> CpuRunQueue \<Rightarrow> TaskId option list" where
  "quanta 0 q = []"
| "quanta (Suc n) q = (case quantum q of (t, q') \<Rightarrow> t # quanta n q')"

definition three_tasks :: CpuRunQueue where
  "three_tasks = snd (CpuRunQueue_enqueue 3 (snd (CpuRunQueue_enqueue 2 (snd (CpuRunQueue_enqueue 1 CpuRunQueue_new)))))"

lemma quantum_keeps_tasks:
  assumes "rq_ok q"
  shows "rq_ok (snd (quantum q)) \<and> mset (rq_contents (snd (quantum q))) = mset (rq_contents q)"
proof -
  obtain r q1 where p: "CpuRunQueue_pop_next_excluding None q = (r, q1)" by fastforce
  note ps = pop_excluding_spec(1) [OF assms, of None, unfolded p]
  show ?thesis
  proof (cases r)
    case None
    then show ?thesis using p ps by (simp add: quantum_def pop_result_def)
  next
    case (Some t)
    have q1: "rq_ok q1" "t \<in> set (rq_contents q)" "rq_contents q1 = remove1 t (rq_contents q)"
      using ps Some by (simp_all add: pop_result_def)
    have "t \<noteq> 0" "t \<notin> set (rq_contents q1)" using assms q1 by (auto simp: rq_ok_def)
    moreover have "length (rq_contents q1) < length (rq_contents q)"
      using q1 length_pos_if_in_set [OF q1(2)] by (simp add: length_remove1)
    then have "length (rq_contents q1) \<noteq> MAX_RUN_QUEUE_TASKS"
      using assms length_rq_contents [OF assms] by (simp add: rq_ok_def)
    ultimately obtain q2 where e: "CpuRunQueue_enqueue t q1 = (Ok (), q2)"
      by (auto simp: enqueue_spec [OF q1(1)])
    show ?thesis using enqueue_ok [OF q1(1) e] p Some e q1(2,3) by (simp add: quantum_def insert_DiffM)
  qed
qed

lemma three_tasks_cycle:
  "fst (quantum (((snd \<circ> quantum) ^^ 0) three_tasks)) = Some 1"
  "fst (quantum (((snd \<circ> quantum) ^^ 1) three_tasks)) = Some 3"
  "fst (quantum (((snd \<circ> quantum) ^^ 2) three_tasks)) = Some 2"
  "fst (quantum (((snd \<circ> quantum) ^^ 3) three_tasks)) = Some 3"
  "((snd \<circ> quantum) ^^ 4) three_tasks = three_tasks"
  by code_simp+

section \<open>Properties\<close>

text \<open>
  The run queue is not round robin: because the cursor is advanced before the selected entry is
  removed, the entry that moves up is skipped. With tasks 1, 2 and 3 the selections repeat 1, 3, 2,
  3 for ever, so that task 3 gets every second quantum.
\<close>

theorem run_queue_skips_entries:
  "quanta (4 * n) three_tasks = concat (replicate n [Some 1, Some 3, Some 2, Some 3])"
proof (induction n)
  case (Suc n)
  have "quanta (4 + m) three_tasks = [Some 1, Some 3, Some 2, Some 3] @ quanta m three_tasks" for m
    using three_tasks_cycle by (simp add: numeral_eq_Suc case_prod_beta)
  with Suc show ?case by simp
qed simp

end
