(* ===== verification/Context_Switch.thy ===== *)
theory Context_Switch
  imports Cpu
begin

text \<open>
  Cooperative context switching, \<^verbatim>\<open>src/kernel/src/context.rs\<close>: the saved task context, the
  context of a new task, the switch primitive as its instruction sequence, and the alignment of a
  task stack.
\<close>

section \<open>Saved contexts\<close>

record TaskContext =
  tc_rbx :: u64
  tc_r12 :: u64
  tc_r13 :: u64
  tc_r14 :: u64
  tc_r15 :: u64
  tc_rbp :: u64
  tc_rsp :: u64
  tc_rip :: u64

definition TaskContext_empty :: TaskContext where
  "TaskContext_empty = \<lparr>tc_rbx = 0, tc_r12 = 0, tc_r13 = 0, tc_r14 = 0, tc_r15 = 0, tc_rbp = 0,
     tc_rsp = 0, tc_rip = 0\<rparr>"

definition TaskContext_new_task :: "u64 \<Rightarrow> u64 \<Rightarrow> TaskContext" where
  "TaskContext_new_task stack_top entry =
     \<lparr>tc_rbx = 0, tc_r12 = 0, tc_r13 = 0, tc_r14 = 0, tc_r15 = 0, tc_rbp = stack_top,
      tc_rsp = stack_top - 16, tc_rip = entry\<rparr>"

section \<open>The switch primitive\<close>

definition switch_context_save :: "instr list" where
  "switch_context_save =
    [Store RDI 0x00 RBX,
     Store RDI 0x08 R12,
     Store RDI 0x10 R13,
     Store RDI 0x18 R14,
     Store RDI 0x20 R15,
     Store RDI 0x28 RBP,
     Store RDI 0x30 RSP,
     Load RAX RSP 0,
     Store RDI 0x38 RAX]"

definition switch_context_restore :: "instr list" where
  "switch_context_restore =
    [Load RBX RSI 0x00,
     Load R12 RSI 0x08,
     Load R13 RSI 0x10,
     Load R14 RSI 0x18,
     Load R15 RSI 0x20,
     Load RBP RSI 0x28,
     Load RSP RSI 0x30,
     AddImm RSP 8,
     Load RAX RSI 0x38,
     Jmp RAX]"

definition switch_context :: "instr list" where
  "switch_context = switch_context_save @ switch_context_restore"

definition KernelStack_SIZE :: u64 where "KernelStack_SIZE = 16 * 1024"

text \<open>The top of the stack, as a function of the address of its data.\<close>

definition KernelStack_top :: "u64 \<Rightarrow> u64" where
  "KernelStack_top base = (base + KernelStack_SIZE) AND NOT 0xF"

section \<open>Contexts in memory\<close>

definition context_at :: "(u64 \<Rightarrow> u64) \<Rightarrow> u64 \<Rightarrow> TaskContext" where
  "context_at m p = \<lparr>tc_rbx = m p, tc_r12 = m (p + 0x08), tc_r13 = m (p + 0x10), tc_r14 = m (p + 0x18),
     tc_r15 = m (p + 0x20), tc_rbp = m (p + 0x28), tc_rsp = m (p + 0x30), tc_rip = m (p + 0x38)\<rparr>"

definition context_cells :: "u64 \<Rightarrow> u64 list" where
  "context_cells p = [p, p + 0x08, p + 0x10, p + 0x18, p + 0x20, p + 0x28, p + 0x30, p + 0x38]"

text \<open>The context of the code that called the primitive, to be resumed at its return address.\<close>

definition caller_context :: "cpu \<Rightarrow> TaskContext" where
  "caller_context c = \<lparr>tc_rbx = regs c RBX, tc_r12 = regs c R12, tc_r13 = regs c R13, tc_r14 = regs c R14,
     tc_r15 = regs c R15, tc_rbp = regs c RBP, tc_rsp = regs c RSP, tc_rip = mem c (regs c RSP)\<rparr>"

definition running_as :: "cpu \<Rightarrow> TaskContext \<Rightarrow> bool" where
  "running_as c t \<longleftrightarrow> regs c RBX = tc_rbx t \<and> regs c R12 = tc_r12 t \<and> regs c R13 = tc_r13 t \<and>
     regs c R14 = tc_r14 t \<and> regs c R15 = tc_r15 t \<and> regs c RBP = tc_rbp t \<and>
     regs c RSP = tc_rsp t + 8 \<and> rip c = tc_rip t"

lemma context_at_cong: "(\<And>a. a \<in> set (context_cells p) \<Longrightarrow> m a = m' a) \<Longrightarrow> context_at m p = context_at m' p"
  by (simp add: context_at_def context_cells_def)

lemma save_spec:
  assumes "regs c RSP \<notin> set (context_cells (regs c RDI))"
  shows "context_at (mem (exec switch_context_save c)) (regs c RDI) = caller_context c"
    and "\<And>a. a \<notin> set (context_cells (regs c RDI)) \<Longrightarrow> mem (exec switch_context_save c) a = mem c a"
    and "regs (exec switch_context_save c) RSI = regs c RSI"
  using assms
  by (auto simp: switch_context_save_def context_at_def caller_context_def context_cells_def)

lemma restore_spec:
  "running_as (exec switch_context_restore c) (context_at (mem c) (regs c RSI)) \<and>
   mem (exec switch_context_restore c) = mem c"
  by (simp add: switch_context_restore_def running_as_def context_at_def)

lemma switch_spec:
  assumes "regs c RSP \<notin> set (context_cells (regs c RDI))"
    and "set (context_cells (regs c RSI)) \<inter> set (context_cells (regs c RDI)) = {}"
  shows "running_as (exec switch_context c) (context_at (mem c) (regs c RSI))"
    and "context_at (mem (exec switch_context c)) (regs c RDI) = caller_context c"
    and "\<And>a. a \<notin> set (context_cells (regs c RDI)) \<Longrightarrow> mem (exec switch_context c) a = mem c a"
proof -
  let ?s = "exec switch_context_save c"
  have e: "exec switch_context c = exec switch_context_restore ?s"
    by (simp add: switch_context_def exec_append)
  note s = save_spec [OF assms(1)] and r = restore_spec [of ?s]
  have "context_at (mem ?s) (regs c RSI) = context_at (mem c) (regs c RSI)"
    using s(2) assms(2) by (intro context_at_cong) blast
  then show "running_as (exec switch_context c) (context_at (mem c) (regs c RSI))"
    using r s(3) e by simp
  show "context_at (mem (exec switch_context c)) (regs c RDI) = caller_context c"
    using r s(1) e by simp
  show "\<And>a. a \<notin> set (context_cells (regs c RDI)) \<Longrightarrow> mem (exec switch_context c) a = mem c a"
    using r s(2) e by simp
qed

lemma KernelStack_top_aligned: "(KernelStack_top base - 8) mod 16 = 8"
proof -
  let ?t = "KernelStack_top base"
  have m: "(0xF :: u64) = mask 4" by (simp add: mask_eq_exp_minus_1)
  have "take_bit 4 ?t = 0" unfolding KernelStack_top_def m by (simp add: take_bit_not_mask_eq_0)
  then have "take_bit 4 (unat ?t) = 0" by (metis unsigned_take_bit_eq unsigned_0)
  then have t: "unat ?t mod 16 = 0" by (simp add: take_bit_eq_mod)
  show ?thesis
  proof (cases "?t = 0")
    case False
    obtain q where q: "unat ?t = 16 * q" using t by (auto simp: mod_eq_0_iff_dvd dvd_def)
    with False obtain p where p: "q = Suc p" by (cases q) (auto simp: unat_eq_zero)
    have "unat (?t - 8) = unat ?t - unat (8 :: u64)"
      by (rule unat_sub) (simp add: word_le_nat_alt q p)
    then have "unat (?t - 8) mod 16 = 8" by (simp add: q p)
    then show ?thesis by (simp add: word_unat_eq_iff unat_mod)
  qed simp
qed

section \<open>Properties\<close>

text \<open>
  C7. A context switch is transparent to the task that yields: after the switch the processor runs
  the new task, and when any later switch, from whatever state, selects the context saved by the
  first one and finds it untouched, the yielding task continues at its return address with its
  callee-saved registers and with the stack it has after the call returns.
\<close>

theorem context_switch_roundtrip:
  assumes "regs c RSP \<notin> set (context_cells (regs c RDI))"
    and "set (context_cells (regs c RSI)) \<inter> set (context_cells (regs c RDI)) = {}"
    and "regs d RSI = regs c RDI"
    and "\<And>a. a \<in> set (context_cells (regs c RDI)) \<Longrightarrow> mem d a = mem (exec switch_context c) a"
    and "regs d RSP \<notin> set (context_cells (regs d RDI))"
    and "set (context_cells (regs d RSI)) \<inter> set (context_cells (regs d RDI)) = {}"
  shows "running_as (exec switch_context c) (context_at (mem c) (regs c RSI)) \<and>
    running_as (exec switch_context d) (caller_context c)"
proof
  show "running_as (exec switch_context c) (context_at (mem c) (regs c RSI))"
    by (rule switch_spec(1) [OF assms(1,2)])
  have "context_at (mem d) (regs d RSI) = caller_context c"
    using context_at_cong [OF assms(4)] switch_spec(2) [OF assms(1,2)] assms(3) by simp
  then show "running_as (exec switch_context d) (caller_context c)"
    using switch_spec(1) [OF assms(5,6)] by simp
qed

theorem context_switch_roundtrip_witness:
  "let c = \<lparr>regs = (\<lambda>_. 0)(RDI := 0x1000, RSI := 0x2000, RSP := 0x8000, RBX := 7),
            mem = (\<lambda>_. 0)(0x8000 := 0x4444), rip = 0, rflags = 0, gs_base = 0, kernel_gs_base = 0\<rparr>;
       d = (exec switch_context c)\<lparr>regs := (\<lambda>_. 0)(RDI := 0x2000, RSI := 0x1000, RSP := 0x9000)\<rparr>
   in running_as (exec switch_context d) (caller_context c)"
  unfolding Let_def
  by (rule context_switch_roundtrip [THEN conjunct2]) (simp_all add: context_cells_def)

text \<open>
  A new task starts with a stack aligned as the System V ABI requires on function entry: the
  first switch to a context made by \<open>new_task\<close> for the top of a kernel stack jumps to the entry
  point with \<open>rsp\<close> equal to 8 modulo 16, one word below the top.
\<close>

theorem new_task_entry_alignment:
  assumes "regs c RSP \<notin> set (context_cells (regs c RDI))"
    and "set (context_cells (regs c RSI)) \<inter> set (context_cells (regs c RDI)) = {}"
    and "context_at (mem c) (regs c RSI) = TaskContext_new_task (KernelStack_top base) entry"
  shows "rip (exec switch_context c) = entry \<and>
    regs (exec switch_context c) RSP = KernelStack_top base - 8 \<and>
    regs (exec switch_context c) RSP mod 16 = 8"
proof -
  have r: "regs (exec switch_context c) RSP = KernelStack_top base - 8" "rip (exec switch_context c) = entry"
    using switch_spec(1) [OF assms(1,2)] assms(3) by (simp_all add: running_as_def TaskContext_new_task_def)
  with KernelStack_top_aligned show ?thesis by simp
qed

theorem new_task_entry_alignment_witness:
  "let t = TaskContext_new_task (KernelStack_top 0x10000) 0x4444;
       c = \<lparr>regs = (\<lambda>_. 0)(RDI := 0x1000, RSI := 0x2000, RSP := 0x8000),
            mem = (\<lambda>_. 0)(0x2028 := tc_rbp t, 0x2030 := tc_rsp t, 0x2038 := tc_rip t), rip = 0, rflags = 0,
            gs_base = 0, kernel_gs_base = 0\<rparr>
   in rip (exec switch_context c) = 0x4444 \<and> regs (exec switch_context c) RSP = KernelStack_top 0x10000 - 8 \<and>
      regs (exec switch_context c) RSP mod 16 = 8"
  unfolding Let_def
  by (rule new_task_entry_alignment)
    (simp_all add: context_cells_def context_at_def TaskContext_new_task_def)

end
