(* ===== verification/Multicore.thy ===== *)
theory Multicore
  imports Run_Queue Context_Switch
begin

text \<open>
  The multi-core run-queue coordinator of \<^verbatim>\<open>src/kernel/src/sched.rs\<close>: one run queue and
  one runtime record per CPU, assignment of tasks to the least loaded CPU, work stealing,
  dispatch and completion. The \<^verbatim>\<open>expect\<close> of \<^verbatim>\<open>steal\<close> is a branch of the model: the
  operations that reach it return \<open>None\<close> when it would panic.
\<close>

section \<open>State\<close>

definition MAX_CPUS :: nat where "MAX_CPUS = 32"

datatype DispatchResult = Dispatched TaskId | Stole TaskId | Disp_Idle | Disp_InvalidCpu | Busy TaskId

record CpuRuntimeSnapshot =
  rt_current :: "TaskId option"
  rt_dispatches :: u64
  rt_steals :: u64
  rt_idle_dispatches :: u64

definition CpuRuntimeSnapshot_new :: CpuRuntimeSnapshot where
  "CpuRuntimeSnapshot_new = \<lparr>rt_current = None, rt_dispatches = 0, rt_steals = 0, rt_idle_dispatches = 0\<rparr>"

record MultiCoreScheduler =
  mc_queues :: "CpuRunQueue list"
  mc_runtime :: "CpuRuntimeSnapshot list"
  mc_cpu_count :: nat
  mc_next_assignment :: nat

definition MultiCoreScheduler_new :: MultiCoreScheduler where
  "MultiCoreScheduler_new = \<lparr>mc_queues = replicate MAX_CPUS CpuRunQueue_new,
     mc_runtime = replicate MAX_CPUS CpuRuntimeSnapshot_new, mc_cpu_count = 1, mc_next_assignment = 0\<rparr>"

abbreviation set_queue :: "nat \<Rightarrow> CpuRunQueue \<Rightarrow> MultiCoreScheduler \<Rightarrow> MultiCoreScheduler" where
  "set_queue cpu q m \<equiv> m\<lparr>mc_queues := (mc_queues m)[cpu := q]\<rparr>"

abbreviation set_runtime :: "nat \<Rightarrow> CpuRuntimeSnapshot \<Rightarrow> MultiCoreScheduler \<Rightarrow> MultiCoreScheduler" where
  "set_runtime cpu r m \<equiv> m\<lparr>mc_runtime := (mc_runtime m)[cpu := r]\<rparr>"

section \<open>Operations\<close>

definition MultiCoreScheduler_configure :: "nat \<Rightarrow> MultiCoreScheduler \<Rightarrow> nat \<times> MultiCoreScheduler" where
  "MultiCoreScheduler_configure cpu_count m =
     (let n = max 1 (min cpu_count MAX_CPUS)
      in (n, m\<lparr>mc_cpu_count := n, mc_queues := replicate MAX_CPUS CpuRunQueue_new,
               mc_runtime := replicate MAX_CPUS CpuRuntimeSnapshot_new, mc_next_assignment := 0\<rparr>))"

text \<open>The duplicate test shared by both ways of enqueueing.\<close>

definition mc_task_known :: "MultiCoreScheduler \<Rightarrow> TaskId \<Rightarrow> bool" where
  "mc_task_known m task_id \<longleftrightarrow>
     list_ex (\<lambda>q. CpuRunQueue_contains q task_id) (take (mc_cpu_count m) (mc_queues m)) \<or>
     list_ex (\<lambda>r. rt_current r = Some task_id) (take (mc_cpu_count m) (mc_runtime m))"

definition select_step :: "MultiCoreScheduler \<Rightarrow> nat \<Rightarrow> nat \<times> nat \<Rightarrow> nat \<times> nat" where
  "select_step m offset sel =
     (let candidate = (mc_next_assignment m + offset) mod mc_cpu_count m;
          candidate_load = rq_len (mc_queues m ! candidate)
      in if candidate_load < snd sel then (candidate, candidate_load) else sel)"

definition select_cpu :: "MultiCoreScheduler \<Rightarrow> nat" where
  "select_cpu m =
     (let selected = mc_next_assignment m mod mc_cpu_count m
      in fst (fold (select_step m) [1..<mc_cpu_count m] (selected, rq_len (mc_queues m ! selected))))"

definition MultiCoreScheduler_enqueue ::
  "TaskId \<Rightarrow> MultiCoreScheduler \<Rightarrow> (nat, RunQueueError) result \<times> MultiCoreScheduler" where
  "MultiCoreScheduler_enqueue task_id m =
     (if task_id = 0 then (Err Rq_InvalidTask, m)
      else if mc_task_known m task_id then (Err Rq_Duplicate, m)
      else let selected = select_cpu m
           in case CpuRunQueue_enqueue task_id (mc_queues m ! selected) of
                (Inl e, q) \<Rightarrow> (Err e, set_queue selected q m)
              | (Inr _, q) \<Rightarrow>
                  (Ok selected, (set_queue selected q m)\<lparr>mc_next_assignment := (selected + 1) mod mc_cpu_count m\<rparr>))"

definition MultiCoreScheduler_enqueue_on_cpu ::
  "nat \<Rightarrow> TaskId \<Rightarrow> MultiCoreScheduler \<Rightarrow> (unit, RunQueueError) result \<times> MultiCoreScheduler" where
  "MultiCoreScheduler_enqueue_on_cpu cpu task_id m =
     (if cpu \<ge> mc_cpu_count m then (Err Rq_InvalidCpu, m)
      else if task_id = 0 then (Err Rq_InvalidTask, m)
      else if mc_task_known m task_id then (Err Rq_Duplicate, m)
      else case CpuRunQueue_enqueue task_id (mc_queues m ! cpu) of (r, q) \<Rightarrow> (r, set_queue cpu q m))"

definition MultiCoreScheduler_dequeue ::
  "nat \<Rightarrow> TaskId \<Rightarrow> MultiCoreScheduler \<Rightarrow> (bool, RunQueueError) result \<times> MultiCoreScheduler" where
  "MultiCoreScheduler_dequeue cpu task_id m =
     (if cpu \<ge> mc_cpu_count m then (Err Rq_InvalidCpu, m)
      else if rt_current (mc_runtime m ! cpu) = Some task_id
      then (Ok True, set_runtime cpu ((mc_runtime m ! cpu)\<lparr>rt_current := None\<rparr>) m)
      else case CpuRunQueue_remove task_id (mc_queues m ! cpu) of (b, q) \<Rightarrow> (Ok b, set_queue cpu q m))"

definition MultiCoreScheduler_pick_next ::
  "nat \<Rightarrow> MultiCoreScheduler \<Rightarrow> (TaskId option, RunQueueError) result \<times> MultiCoreScheduler" where
  "MultiCoreScheduler_pick_next cpu m =
     (if cpu \<ge> mc_cpu_count m then (Err Rq_InvalidCpu, m)
      else case CpuRunQueue_next (mc_queues m ! cpu) of (t, q) \<Rightarrow> (Ok t, set_queue cpu q m))"

text \<open>\<^verbatim>\<open>max_by_key\<close> keeps the later of two elements with equal keys.\<close>

definition victim_key_le :: "nat \<times> nat \<Rightarrow> nat \<times> nat \<Rightarrow> bool" where
  "victim_key_le a b \<longleftrightarrow> fst a < fst b \<or> fst a = fst b \<and> snd a \<le> snd b"

definition victim_key :: "nat \<times> CpuRunQueue \<Rightarrow> nat \<times> nat" where
  "victim_key x = (rq_len (snd x), 2 ^ 64 - 1 - fst x)"

fun max_victim :: "(nat \<times> CpuRunQueue) list \<Rightarrow> (nat \<times> CpuRunQueue) option" where
  "max_victim [] = None"
| "max_victim (x # xs) = Some (fold (\<lambda>y best. if victim_key_le (victim_key best) (victim_key y) then y else best) xs x)"

definition steal_candidates :: "nat \<Rightarrow> MultiCoreScheduler \<Rightarrow> (nat \<times> CpuRunQueue) list" where
  "steal_candidates thief_cpu m =
     filter (\<lambda>(cpu, q). cpu \<noteq> thief_cpu \<and> \<not> CpuRunQueue_is_empty q)
       (zip [0..<mc_cpu_count m] (take (mc_cpu_count m) (mc_queues m)))"

definition MultiCoreScheduler_steal ::
  "nat \<Rightarrow> MultiCoreScheduler \<Rightarrow> ((TaskId option, RunQueueError) result \<times> MultiCoreScheduler) option" where
  "MultiCoreScheduler_steal thief_cpu m =
     (if thief_cpu \<ge> mc_cpu_count m then Some (Err Rq_InvalidCpu, m)
      else if rq_len (mc_queues m ! thief_cpu) = MAX_RUN_QUEUE_TASKS then Some (Err Rq_Full, m)
      else case max_victim (steal_candidates thief_cpu m) of
        None \<Rightarrow> Some (Ok None, m)
      | Some (victim, _) \<Rightarrow>
          (let task_id = rq_tasks (mc_queues m ! victim) ! 0;
               m = set_queue victim (snd (CpuRunQueue_remove task_id (mc_queues m ! victim))) m
           in case CpuRunQueue_enqueue task_id (mc_queues m ! thief_cpu) of
                (Inl _, _) \<Rightarrow> None
              | (Inr _, q) \<Rightarrow> Some (Ok (Some task_id), set_queue thief_cpu q m)))"

definition start_running :: "nat \<Rightarrow> TaskId \<Rightarrow> bool \<Rightarrow> MultiCoreScheduler \<Rightarrow> MultiCoreScheduler" where
  "start_running cpu task_id stolen m =
     (let r = mc_runtime m ! cpu
      in set_runtime cpu (r\<lparr>rt_current := Some task_id, rt_dispatches := rt_dispatches r + 1,
                            rt_steals := (if stolen then rt_steals r + 1 else rt_steals r)\<rparr>) m)"

definition record_idle :: "nat \<Rightarrow> MultiCoreScheduler \<Rightarrow> MultiCoreScheduler" where
  "record_idle cpu m =
     (let r = mc_runtime m ! cpu in set_runtime cpu (r\<lparr>rt_idle_dispatches := rt_idle_dispatches r + 1\<rparr>) m)"

definition MultiCoreScheduler_dispatch_excluding_mode ::
  "nat \<Rightarrow> TaskId option \<Rightarrow> bool \<Rightarrow> MultiCoreScheduler \<Rightarrow> (DispatchResult \<times> MultiCoreScheduler) option" where
  "MultiCoreScheduler_dispatch_excluding_mode cpu excluded allow_steal m =
     (if cpu \<ge> mc_cpu_count m then Some (Disp_InvalidCpu, m)
      else case rt_current (mc_runtime m ! cpu) of
        Some task_id \<Rightarrow> Some (Busy task_id, m)
      | None \<Rightarrow>
          (case CpuRunQueue_pop_next_excluding excluded (mc_queues m ! cpu) of
             (Some task_id, q) \<Rightarrow> Some (Dispatched task_id, start_running cpu task_id False (set_queue cpu q m))
           | (None, q) \<Rightarrow>
               (let m = set_queue cpu q m
                in if allow_steal then
                     (case MultiCoreScheduler_steal cpu m of
                        None \<Rightarrow> None
                      | Some (Inr (Some task_id), m) \<Rightarrow>
                          (case CpuRunQueue_pop_next_excluding excluded (mc_queues m ! cpu) of
                             (sel, q) \<Rightarrow>
                               let selected = (case sel of Some s \<Rightarrow> s | None \<Rightarrow> task_id)
                               in Some (Stole selected, start_running cpu selected True (set_queue cpu q m)))
                      | Some (_, m) \<Rightarrow> Some (Disp_Idle, record_idle cpu m))
                   else Some (Disp_Idle, record_idle cpu m))))"

definition MultiCoreScheduler_dispatch ::
  "nat \<Rightarrow> MultiCoreScheduler \<Rightarrow> (DispatchResult \<times> MultiCoreScheduler) option" where
  "MultiCoreScheduler_dispatch cpu m = MultiCoreScheduler_dispatch_excluding_mode cpu None True m"

definition MultiCoreScheduler_complete ::
  "nat \<Rightarrow> MultiCoreScheduler \<Rightarrow> (TaskId option, RunQueueError) result \<times> MultiCoreScheduler" where
  "MultiCoreScheduler_complete cpu m =
     (if cpu \<ge> mc_cpu_count m then (Err Rq_InvalidCpu, m)
      else case rt_current (mc_runtime m ! cpu) of
        None \<Rightarrow> (Ok None, m)
      | Some task_id \<Rightarrow>
          (let m = set_runtime cpu ((mc_runtime m ! cpu)\<lparr>rt_current := None\<rparr>) m
           in case CpuRunQueue_enqueue task_id (mc_queues m ! cpu) of
                (Inl e, q) \<Rightarrow> (Err e, set_queue cpu q m)
              | (Inr _, q) \<Rightarrow> (Ok (Some task_id), set_queue cpu q m)))"

definition MultiCoreScheduler_bounded_handoff ::
  "nat \<Rightarrow> bool \<Rightarrow> MultiCoreScheduler \<Rightarrow> ((TaskId option \<times> DispatchResult) \<times> MultiCoreScheduler) option" where
  "MultiCoreScheduler_bounded_handoff cpu allow_steal m =
     (if cpu \<ge> mc_cpu_count m then Some ((None, Disp_InvalidCpu), m)
      else let previous = rt_current (mc_runtime m ! cpu)
           in if previous \<noteq> None then Some ((previous, Disp_Idle), snd (MultiCoreScheduler_complete cpu m))
              else case MultiCoreScheduler_dispatch_excluding_mode cpu None allow_steal m of
                     None \<Rightarrow> None
                   | Some (r, m) \<Rightarrow> Some ((None, r), m))"

definition MultiCoreScheduler_runtime :: "MultiCoreScheduler \<Rightarrow> nat \<Rightarrow> CpuRuntimeSnapshot option" where
  "MultiCoreScheduler_runtime m cpu = (if cpu < mc_cpu_count m then Some (mc_runtime m ! cpu) else None)"

definition MultiCoreScheduler_queue_load :: "MultiCoreScheduler \<Rightarrow> nat \<Rightarrow> nat option" where
  "MultiCoreScheduler_queue_load m cpu = (if cpu < mc_cpu_count m then Some (rq_len (mc_queues m ! cpu)) else None)"

definition MultiCoreScheduler_loads :: "MultiCoreScheduler \<Rightarrow> nat list" where
  "MultiCoreScheduler_loads m =
     map (\<lambda>i. if i < mc_cpu_count m then rq_len (mc_queues m ! i) else 0) [0..<MAX_CPUS]"

section \<open>Task ownership\<close>

text \<open>The tasks a scheduler owns, queued or running, counted with multiplicity.\<close>

definition mc_queued :: "MultiCoreScheduler \<Rightarrow> TaskId multiset" where
  "mc_queued m = mset (concat (map rq_contents (mc_queues m)))"

definition mc_running :: "MultiCoreScheduler \<Rightarrow> TaskId multiset" where
  "mc_running m = mset (flatten (map rt_current (mc_runtime m)))"

definition mc_owned :: "MultiCoreScheduler \<Rightarrow> TaskId multiset" where
  "mc_owned m = mc_queued m + mc_running m"

definition mc_ok :: "MultiCoreScheduler \<Rightarrow> bool" where
  "mc_ok m \<longleftrightarrow> 1 \<le> mc_cpu_count m \<and> mc_cpu_count m \<le> MAX_CPUS \<and>
     length (mc_queues m) = MAX_CPUS \<and> length (mc_runtime m) = MAX_CPUS \<and>
     (\<forall>q \<in> set (mc_queues m). rq_ok q) \<and>
     (\<forall>i. mc_cpu_count m \<le> i \<and> i < MAX_CPUS \<longrightarrow>
        rq_contents (mc_queues m ! i) = [] \<and> rt_current (mc_runtime m ! i) = None) \<and>
     (\<forall>t. count (mc_owned m) t \<le> 1) \<and> 0 \<notin># mc_owned m"

abbreviation opt_mset :: "'a option \<Rightarrow> 'a multiset" where
  "opt_mset x \<equiv> (case x of None \<Rightarrow> {#} | Some a \<Rightarrow> {#a#})"

lemma mset_concat_update:
  "i < length xs \<Longrightarrow> mset (concat (map f (xs[i := y]))) + mset (f (xs ! i)) = mset (concat (map f xs)) + mset (f y)"
proof (induction xs arbitrary: i)
  case (Cons x xs)
  show ?case
  proof (cases i)
    case 0
    then show ?thesis by simp
  next
    case (Suc j)
    with Cons.prems Cons.IH [of j] show ?thesis by (simp add: add.assoc)
  qed
qed simp

lemma mset_flatten_update:
  "i < length xs \<Longrightarrow> mset (flatten (map f (xs[i := y]))) + opt_mset (f (xs ! i)) = mset (flatten (map f xs)) + opt_mset (f y)"
proof (induction xs arbitrary: i)
  case (Cons x xs)
  show ?case
  proof (cases i)
    case 0
    then show ?thesis by (cases "f x"; cases "f y") simp_all
  next
    case (Suc j)
    with Cons.prems Cons.IH [of j] show ?thesis by (cases "f x") (simp_all add: add.assoc)
  qed
qed simp

lemma owned_set_queue:
  assumes "length (mc_queues m) = MAX_CPUS" "cpu < MAX_CPUS"
  shows "mc_owned (set_queue cpu q m) + mset (rq_contents (mc_queues m ! cpu)) = mc_owned m + mset (rq_contents q)"
  using mset_concat_update [of cpu "mc_queues m" rq_contents q] assms
  by (simp add: mc_owned_def mc_queued_def mc_running_def ac_simps)

lemma owned_set_runtime:
  assumes "length (mc_runtime m) = MAX_CPUS" "cpu < MAX_CPUS"
  shows "mc_owned (set_runtime cpu r m) + opt_mset (rt_current (mc_runtime m ! cpu)) =
    mc_owned m + opt_mset (rt_current r)"
  using mset_flatten_update [of cpu "mc_runtime m" rt_current r] assms
  by (simp add: mc_owned_def mc_queued_def mc_running_def ac_simps)

lemma owned_next_assignment [simp]: "mc_owned (m\<lparr>mc_next_assignment := n\<rparr>) = mc_owned m"
  by (simp add: mc_owned_def mc_queued_def mc_running_def)

lemma mc_ok_next_assignment [simp]: "mc_ok (m\<lparr>mc_next_assignment := n\<rparr>) = mc_ok m"
  by (simp add: mc_ok_def)

lemma count_le_1_subset: "(\<And>t. count B t \<le> 1) \<Longrightarrow> A \<subseteq># B \<Longrightarrow> count A t \<le> (1 :: nat)"
  by (meson le_trans mset_subset_eq_count)

text \<open>
  Every operation changes the tables by storing one queue or one runtime record of an active CPU;
  the invariant then only depends on the tasks owned afterwards.
\<close>

lemma mc_ok_set_queue:
  assumes "mc_ok m" "cpu < mc_cpu_count m" "rq_ok q"
    "\<And>t. count (mc_owned (set_queue cpu q m)) t \<le> 1" "0 \<notin># mc_owned (set_queue cpu q m)"
  shows "mc_ok (set_queue cpu q m)"
  using assms unfolding mc_ok_def
  by (auto simp: nth_list_update dest!: set_update_subset_insert [THEN subsetD])

lemma mc_ok_set_runtime:
  assumes "mc_ok m" "cpu < mc_cpu_count m"
    "\<And>t. count (mc_owned (set_runtime cpu r m)) t \<le> 1" "0 \<notin># mc_owned (set_runtime cpu r m)"
  shows "mc_ok (set_runtime cpu r m)"
  using assms unfolding mc_ok_def by (auto simp: nth_list_update)

lemma mc_ok_facts:
  assumes "mc_ok m"
  shows "mc_cpu_count m \<le> MAX_CPUS" "length (mc_queues m) = MAX_CPUS" "length (mc_runtime m) = MAX_CPUS"
    "count (mc_owned m) t \<le> 1" "0 \<notin># mc_owned m" "1 \<le> mc_cpu_count m"
  using assms by (auto simp: mc_ok_def)

lemma mc_queue_ok: "mc_ok m \<Longrightarrow> cpu < mc_cpu_count m \<Longrightarrow> rq_ok (mc_queues m ! cpu)"
  by (simp add: mc_ok_def)

text \<open>Storing a queue with the same, one more, or one fewer task.\<close>

lemma store_queue_same:
  assumes "mc_ok m" "cpu < mc_cpu_count m" "rq_ok q" "mset (rq_contents q) = mset (rq_contents (mc_queues m ! cpu))"
  shows "mc_ok (set_queue cpu q m) \<and> mc_owned (set_queue cpu q m) = mc_owned m"
proof -
  note f = mc_ok_facts [OF assms(1)]
  have "mc_owned (set_queue cpu q m) = mc_owned m"
    using owned_set_queue [of m cpu q] f(1,2) assms(2,4) by simp
  then show ?thesis using mc_ok_set_queue [OF assms(1,2,3)] f(4,5) by simp
qed

lemma store_queue_add:
  assumes "mc_ok m" "cpu < mc_cpu_count m" "rq_ok q" "rq_contents q = rq_contents (mc_queues m ! cpu) @ [t]"
    "t \<noteq> 0" "t \<notin># mc_owned m"
  shows "mc_ok (set_queue cpu q m) \<and> mc_owned (set_queue cpu q m) = add_mset t (mc_owned m)"
proof -
  note f = mc_ok_facts [OF assms(1)]
  have o: "mc_owned (set_queue cpu q m) = add_mset t (mc_owned m)"
    using owned_set_queue [of m cpu q] f(1,2) assms(2,4) by simp
  have "count (add_mset t (mc_owned m)) x \<le> 1" for x using f(4) [of x] assms(6) by (auto simp: not_in_iff)
  then show ?thesis using mc_ok_set_queue [OF assms(1,2,3)] o f(5) assms(5) by simp
qed

lemma store_queue_remove:
  assumes "mc_ok m" "cpu < mc_cpu_count m" "rq_ok q" "t \<in> set (rq_contents (mc_queues m ! cpu))"
    "rq_contents q = remove1 t (rq_contents (mc_queues m ! cpu))"
  shows "mc_ok (set_queue cpu q m) \<and> mc_owned m = add_mset t (mc_owned (set_queue cpu q m))"
proof -
  note f = mc_ok_facts [OF assms(1)]
  have "mset (rq_contents (mc_queues m ! cpu)) = add_mset t (mset (rq_contents q))"
    using assms(4,5) by (simp add: insert_DiffM)
  then have o: "mc_owned m = add_mset t (mc_owned (set_queue cpu q m))"
    using owned_set_queue [of m cpu q] f(1,2) assms(2) by simp
  then have s: "mc_owned (set_queue cpu q m) \<subseteq># mc_owned m" by simp
  then show ?thesis
    using mc_ok_set_queue [OF assms(1,2,3)] o f(4,5) count_le_1_subset [OF f(4) s] mset_subset_eqD [OF s] by auto
qed

lemma store_runtime:
  assumes "mc_ok m" "cpu < mc_cpu_count m" "rt_current r = rt_current (mc_runtime m ! cpu)"
  shows "mc_ok (set_runtime cpu r m) \<and> mc_owned (set_runtime cpu r m) = mc_owned m"
proof -
  note f = mc_ok_facts [OF assms(1)]
  have "mc_owned (set_runtime cpu r m) = mc_owned m"
    using owned_set_runtime [of m cpu r] f(1,3) assms(2,3) by simp
  then show ?thesis using mc_ok_set_runtime [OF assms(1,2)] f(4,5) by simp
qed

lemma store_runtime_start:
  assumes "mc_ok m" "cpu < mc_cpu_count m" "rt_current (mc_runtime m ! cpu) = None" "rt_current r = Some t"
    "t \<noteq> 0" "t \<notin># mc_owned m"
  shows "mc_ok (set_runtime cpu r m) \<and> mc_owned (set_runtime cpu r m) = add_mset t (mc_owned m)"
proof -
  note f = mc_ok_facts [OF assms(1)]
  have o: "mc_owned (set_runtime cpu r m) = add_mset t (mc_owned m)"
    using owned_set_runtime [of m cpu r] f(1,3) assms(2,3,4) by simp
  have "count (add_mset t (mc_owned m)) x \<le> 1" for x using f(4) [of x] assms(6) by (auto simp: not_in_iff)
  then show ?thesis using mc_ok_set_runtime [OF assms(1,2)] o f(5) assms(5) by simp
qed

lemma store_runtime_stop:
  assumes "mc_ok m" "cpu < mc_cpu_count m" "rt_current (mc_runtime m ! cpu) = Some t" "rt_current r = None"
  shows "mc_ok (set_runtime cpu r m) \<and> mc_owned m = add_mset t (mc_owned (set_runtime cpu r m))"
proof -
  note f = mc_ok_facts [OF assms(1)]
  have o: "mc_owned m = add_mset t (mc_owned (set_runtime cpu r m))"
    using owned_set_runtime [of m cpu r] f(1,3) assms(2,3,4) by simp
  then have s: "mc_owned (set_runtime cpu r m) \<subseteq># mc_owned m" by simp
  then show ?thesis
    using mc_ok_set_runtime [OF assms(1,2)] o f(4,5) count_le_1_subset [OF f(4) s] mset_subset_eqD [OF s] by auto
qed

section \<open>Enqueueing\<close>

lemma contents_in_owned: "cpu < length (mc_queues m) \<Longrightarrow> t \<in> set (rq_contents (mc_queues m ! cpu)) \<Longrightarrow> t \<in># mc_owned m"
  by (force simp: mc_owned_def mc_queued_def)

lemma current_in_owned: "cpu < length (mc_runtime m) \<Longrightarrow> rt_current (mc_runtime m ! cpu) = Some t \<Longrightarrow> t \<in># mc_owned m"
  by (force simp: mc_owned_def mc_running_def in_flatten_iff)

lemma list_ex_take: "k \<le> length xs \<Longrightarrow> list_ex P (take k xs) \<longleftrightarrow> (\<exists>i < k. P (xs ! i))"
  by (force simp: list_ex_iff in_set_conv_nth)

lemma task_known_iff:
  assumes "mc_ok m"
  shows "mc_task_known m t \<longleftrightarrow> t \<in># mc_owned m"
proof -
  note f = mc_ok_facts [OF assms]
  have known: "mc_task_known m t \<longleftrightarrow> (\<exists>i < mc_cpu_count m. t \<in> set (rq_contents (mc_queues m ! i))) \<or>
      (\<exists>i < mc_cpu_count m. rt_current (mc_runtime m ! i) = Some t)"
    using f(1,2,3) by (simp add: mc_task_known_def list_ex_take contains_iff)
  have owned: "t \<in># mc_owned m \<longleftrightarrow> (\<exists>i < MAX_CPUS. t \<in> set (rq_contents (mc_queues m ! i))) \<or>
      (\<exists>i < MAX_CPUS. rt_current (mc_runtime m ! i) = Some t)"
    using f(2,3) by (fastforce simp: mc_owned_def mc_queued_def mc_running_def in_flatten_iff in_set_conv_nth [of _ "mc_queues m"])
  have "i < mc_cpu_count m" if "i < MAX_CPUS" "t \<in> set (rq_contents (mc_queues m ! i)) \<or> rt_current (mc_runtime m ! i) = Some t" for i
    using that assms by (cases "i < mc_cpu_count m") (auto simp: mc_ok_def)
  then show ?thesis using known owned f(1) by (meson less_le_trans)
qed

lemma rotate_covers:
  assumes "c < n"
  shows "\<exists>off < n. (a + off) mod n = (c :: nat)"
proof (intro exI conjI)
  show "(c + (n - a mod n)) mod n < n" using assms by simp
  have "(a + (c + (n - a mod n)) mod n) mod n = (a mod n + (c + (n - a mod n))) mod n"
    by (simp add: mod_add_left_eq mod_add_right_eq)
  also have "a mod n + (c + (n - a mod n)) = c + n"
  proof -
    have "a mod n < n" using assms by simp
    then show ?thesis by linarith
  qed
  finally show "(a + (c + (n - a mod n)) mod n) mod n = c" using assms by simp
qed

definition select_inv :: "MultiCoreScheduler \<Rightarrow> nat \<Rightarrow> nat \<times> nat \<Rightarrow> bool" where
  "select_inv m k sel \<longleftrightarrow> fst sel < mc_cpu_count m \<and> snd sel = rq_len (mc_queues m ! fst sel) \<and>
     (\<forall>off < k. snd sel \<le> rq_len (mc_queues m ! ((mc_next_assignment m + off) mod mc_cpu_count m)))"

lemma select_fold:
  assumes "1 \<le> mc_cpu_count m" "select_inv m 1 sel"
  shows "select_inv m (Suc k) (fold (select_step m) [1..<Suc k] sel)"
  using assms
proof (induction k)
  case (Suc k)
  then have ih: "select_inv m (Suc k) (fold (select_step m) [1..<Suc k] sel)" by simp
  have "select_inv m (Suc (Suc k)) (select_step m (Suc k) s)" if "select_inv m (Suc k) s" for s
    using that Suc.prems(1) by (auto simp: select_inv_def select_step_def Let_def less_Suc_eq)
  with ih show ?case by simp
qed simp

lemma select_cpu_least:
  assumes "1 \<le> mc_cpu_count m"
  shows "select_cpu m < mc_cpu_count m"
    and "c < mc_cpu_count m \<Longrightarrow> rq_len (mc_queues m ! select_cpu m) \<le> rq_len (mc_queues m ! c)"
proof -
  let ?s = "mc_next_assignment m mod mc_cpu_count m"
  let ?r = "fold (select_step m) [1..<mc_cpu_count m] (?s, rq_len (mc_queues m ! ?s))"
  obtain k where k: "mc_cpu_count m = Suc k" using assms by (cases "mc_cpu_count m") auto
  have "select_inv m 1 (?s, rq_len (mc_queues m ! ?s))" using assms by (simp add: select_inv_def)
  then have inv: "select_inv m (mc_cpu_count m) ?r" using select_fold [OF assms, of _ k] k by simp
  have sel: "select_cpu m = fst ?r" by (simp add: select_cpu_def Let_def)
  show "select_cpu m < mc_cpu_count m" using inv sel by (simp add: select_inv_def)
  show "c < mc_cpu_count m \<Longrightarrow> rq_len (mc_queues m ! select_cpu m) \<le> rq_len (mc_queues m ! c)"
    using inv sel rotate_covers [of c "mc_cpu_count m" "mc_next_assignment m"] by (auto simp: select_inv_def)
qed

lemma enqueue_mc:
  assumes "mc_ok m"
  obtains (invalid) "t = 0" "MultiCoreScheduler_enqueue t m = (Err Rq_InvalidTask, m)"
  | (duplicate) "t \<in># mc_owned m" "MultiCoreScheduler_enqueue t m = (Err Rq_Duplicate, m)"
  | (full) "\<forall>c < mc_cpu_count m. rq_len (mc_queues m ! c) = MAX_RUN_QUEUE_TASKS"
      "MultiCoreScheduler_enqueue t m = (Err Rq_Full, m)"
  | (placed) m' where "t \<noteq> 0" "t \<notin># mc_owned m" "MultiCoreScheduler_enqueue t m = (Ok (select_cpu m), m')"
      "mc_ok m'" "mc_owned m' = add_mset t (mc_owned m)"
proof (cases "t = 0 \<or> mc_task_known m t")
  case True
  then show ?thesis
    using invalid duplicate by (cases "t = 0") (auto simp: MultiCoreScheduler_enqueue_def task_known_iff [OF assms])
next
  case False
  note f = mc_ok_facts [OF assms]
  let ?s = "select_cpu m"
  let ?q = "mc_queues m ! ?s"
  have s: "?s < mc_cpu_count m" by (rule select_cpu_least(1) [OF f(6)])
  have q: "rq_ok ?q" by (rule mc_queue_ok [OF assms s])
  have fresh: "t \<noteq> 0" "t \<notin># mc_owned m" using False by (auto simp: task_known_iff [OF assms])
  have nin: "t \<notin> set (rq_contents ?q)" using fresh contents_in_owned [of ?s m t] s f(1,2) by auto
  show ?thesis
  proof (cases "rq_len ?q = MAX_RUN_QUEUE_TASKS")
    case len: True
    have "\<forall>c < mc_cpu_count m. rq_len (mc_queues m ! c) = MAX_RUN_QUEUE_TASKS"
    proof (intro allI impI)
      fix c assume c: "c < mc_cpu_count m"
      have "rq_len (mc_queues m ! c) \<le> MAX_RUN_QUEUE_TASKS" using mc_queue_ok [OF assms c] by (simp add: rq_ok_def)
      with select_cpu_least(2) [OF f(6) c] len show "rq_len (mc_queues m ! c) = MAX_RUN_QUEUE_TASKS" by simp
    qed
    moreover have "MultiCoreScheduler_enqueue t m = (Err Rq_Full, m)"
      using False nin len fresh by (simp add: MultiCoreScheduler_enqueue_def CpuRunQueue_enqueue_def contains_iff Let_def)
    ultimately show ?thesis by (rule full)
  next
    case len: False
    obtain q' where e: "CpuRunQueue_enqueue t ?q = (Ok (), q')"
      using nin len fresh by (simp add: CpuRunQueue_enqueue_def contains_iff)
    note q' = enqueue_ok [OF q e]
    let ?m = "(set_queue ?s q' m)\<lparr>mc_next_assignment := (?s + 1) mod mc_cpu_count m\<rparr>"
    have "mc_ok (set_queue ?s q' m) \<and> mc_owned (set_queue ?s q' m) = add_mset t (mc_owned m)"
      using store_queue_add [OF assms s] q' fresh by simp
    then have "mc_ok ?m" "mc_owned ?m = add_mset t (mc_owned m)" by simp_all
    then show ?thesis
      using placed [of ?m] fresh False e by (simp add: MultiCoreScheduler_enqueue_def Let_def)
  qed
qed

section \<open>Stealing, dispatching and completing\<close>

lemma max_victim_in: "max_victim xs = Some x \<Longrightarrow> x \<in> set xs"
proof (cases xs)
  case (Cons y ys)
  have F: "fold (\<lambda>y best. if victim_key_le (victim_key best) (victim_key y) then y else best) zs b \<in> insert b (set zs)" for zs b
    by (induction zs arbitrary: b) auto
  show "max_victim xs = Some x \<Longrightarrow> x \<in> set xs" using F [of ys y] Cons by auto
qed simp

lemma max_victim_None: "max_victim xs = None \<longleftrightarrow> xs = []"
  by (cases xs) auto

lemma steal_candidates_iff:
  assumes "mc_ok m"
  shows "(c, q) \<in> set (steal_candidates thief m) \<longleftrightarrow>
    c < mc_cpu_count m \<and> c \<noteq> thief \<and> q = mc_queues m ! c \<and> rq_contents q \<noteq> []"
proof -
  note f = mc_ok_facts [OF assms]
  have e: "CpuRunQueue_is_empty (mc_queues m ! c) \<longleftrightarrow> rq_contents (mc_queues m ! c) = []" if "c < mc_cpu_count m"
    using length_rq_contents [OF mc_queue_ok [OF assms that]] by (auto simp: CpuRunQueue_is_empty_def)
  show ?thesis using f(1,2) e by (auto simp: steal_candidates_def set_zip intro!: exI [of _ c])
qed

lemma hd_contents: "rq_contents q \<noteq> [] \<Longrightarrow> rq_tasks q ! 0 = hd (rq_contents q)"
  by (simp add: rq_contents_def hd_take hd_conv_nth)

lemma steal_spec:
  assumes "mc_ok m" "thief < mc_cpu_count m"
  obtains (full) "rq_len (mc_queues m ! thief) = MAX_RUN_QUEUE_TASKS" "MultiCoreScheduler_steal thief m = Some (Err Rq_Full, m)"
  | (none) "\<forall>c < mc_cpu_count m. c \<noteq> thief \<longrightarrow> rq_contents (mc_queues m ! c) = []"
      "MultiCoreScheduler_steal thief m = Some (Ok None, m)"
  | (stolen) t m' where "MultiCoreScheduler_steal thief m = Some (Ok (Some t), m')" "mc_ok m'" "mc_owned m' = mc_owned m"
      "rq_contents (mc_queues m' ! thief) = rq_contents (mc_queues m ! thief) @ [t]"
      "mc_cpu_count m' = mc_cpu_count m" "mc_runtime m' = mc_runtime m"
proof (cases "rq_len (mc_queues m ! thief) = MAX_RUN_QUEUE_TASKS \<or> max_victim (steal_candidates thief m) = None")
  case True
  then show ?thesis
  proof (cases "rq_len (mc_queues m ! thief) = MAX_RUN_QUEUE_TASKS")
    case t: True
    then show ?thesis using full assms(2) by (simp add: MultiCoreScheduler_steal_def)
  next
    case t: False
    with True have n: "steal_candidates thief m = []" by (simp add: max_victim_None)
    have "\<forall>c < mc_cpu_count m. c \<noteq> thief \<longrightarrow> rq_contents (mc_queues m ! c) = []"
      using steal_candidates_iff [OF assms(1)] n by (metis empty_iff empty_set)
    with n t assms(2) none show ?thesis by (simp add: MultiCoreScheduler_steal_def)
  qed
next
  case False
  note f = mc_ok_facts [OF assms(1)]
  obtain v vq where v: "max_victim (steal_candidates thief m) = Some (v, vq)" using False by auto
  have vic: "v < mc_cpu_count m" "v \<noteq> thief" "rq_contents (mc_queues m ! v) \<noteq> []"
    using max_victim_in [OF v] steal_candidates_iff [OF assms(1)] by auto
  let ?vq = "mc_queues m ! v"
  let ?t = "hd (rq_contents ?vq)"
  have t: "?t \<in> set (rq_contents ?vq)" using vic(3) by simp
  obtain q1 where q1: "CpuRunQueue_remove ?t ?vq = (True, q1)" "rq_ok q1" "rq_contents q1 = remove1 ?t (rq_contents ?vq)"
    using remove_contents [OF mc_queue_ok [OF assms(1) vic(1)] t] by auto
  let ?m1 = "set_queue v q1 m"
  have m1: "mc_ok ?m1" "mc_owned m = add_mset ?t (mc_owned ?m1)"
    using store_queue_remove [OF assms(1) vic(1) q1(2) t q1(3)] by auto
  have nt: "?t \<notin># mc_owned ?m1" using f(4) [of ?t] m1(2) by (simp add: not_in_iff)
  have t0: "?t \<noteq> 0" using f(5) m1(2) by auto
  have thief: "mc_queues ?m1 ! thief = mc_queues m ! thief" using vic(2) by simp
  have tq: "rq_ok (mc_queues m ! thief)" by (rule mc_queue_ok [OF assms])
  have "?t \<notin> set (rq_contents (mc_queues ?m1 ! thief))"
    using nt contents_in_owned [of thief ?m1 ?t] f(1,2) assms(2) by auto
  then obtain q2 where q2: "CpuRunQueue_enqueue ?t (mc_queues m ! thief) = (Ok (), q2)"
    using t0 False thief by (auto simp: CpuRunQueue_enqueue_def contains_iff)
  note q2' = enqueue_ok [OF tq q2]
  let ?m2 = "set_queue thief q2 ?m1"
  have m2: "mc_ok ?m2 \<and> mc_owned ?m2 = mc_owned m"
    using store_queue_add [OF m1(1), of thief q2 ?t] assms(2) q2' thief t0 nt m1(2) by simp
  show ?thesis
  proof (rule stolen [of ?t ?m2])
    show "MultiCoreScheduler_steal thief m = Some (Ok (Some ?t), ?m2)"
      using False assms(2) v q1(1) q2 thief hd_contents [OF vic(3)] by (simp add: MultiCoreScheduler_steal_def Let_def)
    show "rq_contents (mc_queues ?m2 ! thief) = rq_contents (mc_queues m ! thief) @ [?t]"
      using q2' assms(2) f(1,2) by simp
  qed (use m2 in simp_all)
qed

lemma start_running_spec:
  assumes "mc_ok m" "cpu < mc_cpu_count m" "rt_current (mc_runtime m ! cpu) = None" "t \<noteq> 0" "t \<notin># mc_owned m"
  shows "mc_ok (start_running cpu t b m) \<and> mc_owned (start_running cpu t b m) = add_mset t (mc_owned m)"
  unfolding start_running_def Let_def using store_runtime_start [OF assms(1,2,3) _ assms(4,5)] by simp

text \<open>Taking a task off the local queue and running it keeps the owned tasks.\<close>

lemma pop_and_run:
  assumes "mc_ok m" "cpu < mc_cpu_count m" "rt_current (mc_runtime m ! cpu) = None"
    "CpuRunQueue_pop_next_excluding None (mc_queues m ! cpu) = (Some t, q)"
  shows "mc_ok (start_running cpu t b (set_queue cpu q m)) \<and>
    mc_owned (start_running cpu t b (set_queue cpu q m)) = mc_owned m"
proof -
  note f = mc_ok_facts [OF assms(1)]
  have "pop_result None (mc_queues m ! cpu) (Some t, q)"
    using pop_excluding_spec(1) [OF mc_queue_ok [OF assms(1,2)], of None] assms(4) by simp
  then have q: "rq_ok q" "t \<in> set (rq_contents (mc_queues m ! cpu))" "rq_contents q = remove1 t (rq_contents (mc_queues m ! cpu))"
    by (simp_all add: pop_result_def)
  have s: "mc_ok (set_queue cpu q m)" "mc_owned m = add_mset t (mc_owned (set_queue cpu q m))"
    using store_queue_remove [OF assms(1,2) q] by auto
  have "t \<noteq> 0" using s(2) f(5) by auto
  moreover have "t \<notin># mc_owned (set_queue cpu q m)" using f(4) [of t] s(2) by (simp add: not_in_iff)
  ultimately show ?thesis using start_running_spec [OF s(1), of cpu t b] assms(2,3) s(2) by simp
qed

lemma record_idle_spec:
  "mc_ok m \<Longrightarrow> cpu < mc_cpu_count m \<Longrightarrow> mc_ok (record_idle cpu m) \<and> mc_owned (record_idle cpu m) = mc_owned m"
  unfolding record_idle_def Let_def by (rule store_runtime) simp_all

lemma queued_empty_iff:
  assumes "mc_ok m"
  shows "mc_queued m = {#} \<longleftrightarrow> (\<forall>c < mc_cpu_count m. rq_contents (mc_queues m ! c) = [])"
proof -
  note f = mc_ok_facts [OF assms]
  have "mc_queued m = {#} \<longleftrightarrow> (\<forall>c < MAX_CPUS. rq_contents (mc_queues m ! c) = [])"
    using f(2) by (auto simp: mc_queued_def all_set_conv_all_nth)
  also have "\<dots> \<longleftrightarrow> (\<forall>c < mc_cpu_count m. rq_contents (mc_queues m ! c) = [])"
    using assms f(1) unfolding mc_ok_def by (meson less_le_trans not_le)
  finally show ?thesis .
qed

lemma dispatch_busy_or_invalid:
  assumes "\<not> cpu < mc_cpu_count m \<or> rt_current (mc_runtime m ! cpu) \<noteq> None"
  shows "\<exists>r. MultiCoreScheduler_dispatch_excluding_mode cpu excluded b m = Some (r, m) \<and> r \<noteq> Disp_Idle"
  using assms by (auto simp: MultiCoreScheduler_dispatch_excluding_mode_def)

text \<open>An idle CPU with an empty queue steals a task and runs one, or no other CPU has a queued task.\<close>

lemma steal_for_idle:
  assumes "mc_ok m" "cpu < mc_cpu_count m" "rt_current (mc_runtime m ! cpu) = None" "rq_contents (mc_queues m ! cpu) = []"
  obtains (none) "\<forall>i < mc_cpu_count m. i \<noteq> cpu \<longrightarrow> rq_contents (mc_queues m ! i) = []"
      "MultiCoreScheduler_steal cpu m = Some (Ok None, m)"
  | (run) t m' t' q where "MultiCoreScheduler_steal cpu m = Some (Ok (Some t), m')"
      "CpuRunQueue_pop_next_excluding None (mc_queues m' ! cpu) = (Some t', q)"
      "mc_ok (start_running cpu t' True (set_queue cpu q m'))"
      "mc_owned (start_running cpu t' True (set_queue cpu q m')) = mc_owned m"
proof (cases rule: steal_spec [OF assms(1,2)])
  case 1
  then have "length (rq_contents (mc_queues m ! cpu)) = MAX_RUN_QUEUE_TASKS"
    using length_rq_contents [OF mc_queue_ok [OF assms(1,2)]] by simp
  then show ?thesis using assms(4) by (simp add: MAX_RUN_QUEUE_TASKS_def MAX_TASKS_def)
next
  case 2
  then show ?thesis by (rule none)
next
  case (3 t m')
  have c': "cpu < mc_cpu_count m'" "rt_current (mc_runtime m' ! cpu) = None" using 3 assms(2,3) by simp_all
  obtain s q where p: "CpuRunQueue_pop_next_excluding None (mc_queues m' ! cpu) = (s, q)" by fastforce
  then obtain t' where s: "s = Some t'"
    using pop_excluding_spec(2) [OF mc_queue_ok [OF 3(2) c'(1)], of None] 3(4) by (cases s) auto
  show ?thesis using run [OF 3(1)] p s pop_and_run [OF 3(2) c' p [unfolded s]] 3(3) by simp
qed

lemma dispatch_spec:
  assumes "mc_ok m"
  shows "\<exists>r m'. MultiCoreScheduler_dispatch_excluding_mode cpu None b m = Some (r, m') \<and> mc_ok m' \<and>
    mc_owned m' = mc_owned m \<and> (b \<and> r = Disp_Idle \<longrightarrow> mc_queued m = {#})"
proof (cases "cpu < mc_cpu_count m \<and> rt_current (mc_runtime m ! cpu) = None")
  case False
  with dispatch_busy_or_invalid [of cpu m None b] assms show ?thesis by auto
next
  case True
  then have c: "cpu < mc_cpu_count m" and cur: "rt_current (mc_runtime m ! cpu) = None" by auto
  note f = mc_ok_facts [OF assms]
  obtain r q where p: "CpuRunQueue_pop_next_excluding None (mc_queues m ! cpu) = (r, q)" by fastforce
  show ?thesis
  proof (cases r)
    case (Some t)
    with pop_and_run [OF assms c cur] p c cur show ?thesis
      by (simp add: MultiCoreScheduler_dispatch_excluding_mode_def)
  next
    case None
    note ps = pop_excluding_spec [OF mc_queue_ok [OF assms c], of None]
    have q: "rq_ok q" "rq_contents q = rq_contents (mc_queues m ! cpu)" "rq_contents (mc_queues m ! cpu) = []"
      using ps p None by (auto simp: pop_result_def)
    let ?m = "set_queue cpu q m"
    have m: "mc_ok ?m" "mc_owned ?m = mc_owned m"
      using store_queue_same [OF assms c q(1)] q(2) by auto
    have mc: "cpu < mc_cpu_count ?m" using c by simp
    have mq: "rq_contents (mc_queues ?m ! cpu) = []" using c f(1,2) q by simp
    have same: "rq_contents (mc_queues ?m ! i) = rq_contents (mc_queues m ! i)" if "i < mc_cpu_count m" for i
      using that q f(1,2) by (cases "i = cpu") simp_all
    have queued: "mc_queued m = {#}" if "\<forall>i < mc_cpu_count ?m. i \<noteq> cpu \<longrightarrow> rq_contents (mc_queues ?m ! i) = []"
      using that same q(3) queued_empty_iff [OF assms] by auto
    show ?thesis
    proof (cases b)
      case False
      then show ?thesis using p None c cur record_idle_spec [OF m(1) mc] m(2)
        by (simp add: MultiCoreScheduler_dispatch_excluding_mode_def)
    next
      case b: True
      have mcur: "rt_current (mc_runtime ?m ! cpu) = None" using cur by simp
      show ?thesis
      proof (cases rule: steal_for_idle [OF m(1) mc mcur mq])
        case 1
        then show ?thesis using p None c cur b record_idle_spec [OF m(1) mc] m(2) queued
          by (simp add: MultiCoreScheduler_dispatch_excluding_mode_def)
      next
        case (2 t m' t' q')
        then show ?thesis using p None c cur b m(2)
          by (simp add: MultiCoreScheduler_dispatch_excluding_mode_def)
      qed
    qed
  qed
qed

lemma complete_spec:
  assumes "mc_ok m" "cpu < mc_cpu_count m" "rt_current (mc_runtime m ! cpu) = Some t"
  shows "if rq_len (mc_queues m ! cpu) = MAX_RUN_QUEUE_TASKS
    then \<exists>m'. MultiCoreScheduler_complete cpu m = (Err Rq_Full, m') \<and> mc_ok m' \<and> mc_owned m = add_mset t (mc_owned m')
    else \<exists>m'. MultiCoreScheduler_complete cpu m = (Ok (Some t), m') \<and> mc_ok m' \<and> mc_owned m' = mc_owned m"
proof -
  note f = mc_ok_facts [OF assms(1)]
  let ?m1 = "set_runtime cpu ((mc_runtime m ! cpu)\<lparr>rt_current := None\<rparr>) m"
  let ?q = "mc_queues m ! cpu"
  have q: "rq_ok ?q" by (rule mc_queue_ok [OF assms(1,2)])
  have m1: "mc_ok ?m1" "mc_owned m = add_mset t (mc_owned ?m1)"
    using store_runtime_stop [OF assms] by auto
  have nt: "t \<notin># mc_owned ?m1" using f(4) [of t] m1(2) by (simp add: not_in_iff)
  have t0: "t \<noteq> 0" using f(5) m1(2) by auto
  have nin: "t \<notin> set (rq_contents ?q)"
    using nt contents_in_owned [of cpu ?m1 t] f(1,2) assms(2) by auto
  show ?thesis
  proof (cases "rq_len ?q = MAX_RUN_QUEUE_TASKS")
    case True
    then have "MultiCoreScheduler_complete cpu m = (Err Rq_Full, set_queue cpu ?q ?m1)"
      using assms t0 nin by (simp add: MultiCoreScheduler_complete_def CpuRunQueue_enqueue_def contains_iff Let_def)
    then show ?thesis using True m1 by simp
  next
    case False
    then obtain q' where e: "CpuRunQueue_enqueue t ?q = (Ok (), q')"
      using t0 nin by (simp add: CpuRunQueue_enqueue_def contains_iff)
    note q' = enqueue_ok [OF q e]
    have "mc_ok (set_queue cpu q' ?m1) \<and> mc_owned (set_queue cpu q' ?m1) = mc_owned m"
      using store_queue_add [OF m1(1), of cpu q' t] assms(2) q' t0 nt m1(2) by simp
    then show ?thesis using False assms e by (simp add: MultiCoreScheduler_complete_def Let_def)
  qed
qed

lemma complete_ok:
  assumes "mc_ok m"
  shows "mc_ok (snd (MultiCoreScheduler_complete cpu m))"
proof (cases "cpu < mc_cpu_count m \<and> rt_current (mc_runtime m ! cpu) \<noteq> None")
  case True
  then obtain t where "cpu < mc_cpu_count m" "rt_current (mc_runtime m ! cpu) = Some t" by auto
  from complete_spec [OF assms this] show ?thesis by (auto split: if_splits)
next
  case False
  with assms show ?thesis by (auto simp: MultiCoreScheduler_complete_def)
qed

lemma enqueue_on_cpu_ok:
  assumes "mc_ok m"
  shows "mc_ok (snd (MultiCoreScheduler_enqueue_on_cpu cpu t m))"
proof (cases "cpu < mc_cpu_count m \<and> t \<noteq> 0 \<and> t \<notin># mc_owned m")
  case True
  then have c: "cpu < mc_cpu_count m" by simp
  obtain r q where e: "CpuRunQueue_enqueue t (mc_queues m ! cpu) = (r, q)" by fastforce
  have "mc_ok (set_queue cpu q m)"
  proof (cases r)
    case (Inl x)
    with e enqueue_Err show ?thesis using assms by (metis list_update_id MultiCoreScheduler.surjective MultiCoreScheduler.update_convs(1))
  next
    case (Inr u)
    with e have "CpuRunQueue_enqueue t (mc_queues m ! cpu) = (Ok (), q)" by simp
    from enqueue_ok [OF mc_queue_ok [OF assms c] this] store_queue_add [OF assms c] True show ?thesis by simp
  qed
  then show ?thesis using True e by (simp add: MultiCoreScheduler_enqueue_on_cpu_def task_known_iff [OF assms])
next
  case False
  with assms show ?thesis by (auto simp: MultiCoreScheduler_enqueue_on_cpu_def task_known_iff)
qed

lemma dequeue_ok:
  assumes "mc_ok m"
  shows "mc_ok (snd (MultiCoreScheduler_dequeue cpu t m))"
proof (cases "cpu < mc_cpu_count m")
  case c: True
  show ?thesis
  proof (cases "rt_current (mc_runtime m ! cpu) = Some t")
    case True
    with store_runtime_stop [OF assms c True] c show ?thesis by (simp add: MultiCoreScheduler_dequeue_def)
  next
    case False
    have q: "rq_ok (mc_queues m ! cpu)" by (rule mc_queue_ok [OF assms c])
    show ?thesis
    proof (cases "t \<in> set (rq_contents (mc_queues m ! cpu))")
      case True
      with remove_contents [OF q True] store_queue_remove [OF assms c _ True] c False show ?thesis
        by (auto simp: MultiCoreScheduler_dequeue_def)
    next
      case nin: False
      with remove_absent [OF nin] c False assms show ?thesis by (simp add: MultiCoreScheduler_dequeue_def)
    qed
  qed
qed (simp add: MultiCoreScheduler_dequeue_def assms)

lemma pick_next_ok:
  assumes "mc_ok m"
  shows "mc_ok (snd (MultiCoreScheduler_pick_next cpu m))"
proof (cases "cpu < mc_cpu_count m")
  case c: True
  obtain r q where n: "CpuRunQueue_next (mc_queues m ! cpu) = (r, q)" by fastforce
  have "rq_ok q \<and> rq_contents q = rq_contents (mc_queues m ! cpu)"
    using next_spec [OF mc_queue_ok [OF assms c]] n mc_queue_ok [OF assms c] by (auto split: if_splits)
  then have "mc_ok (set_queue cpu q m)" using store_queue_same [OF assms c] by simp
  then show ?thesis using c n by (simp add: MultiCoreScheduler_pick_next_def)
qed (simp add: MultiCoreScheduler_pick_next_def assms)

lemma mc_ok_new: "1 \<le> n \<Longrightarrow> n \<le> MAX_CPUS \<Longrightarrow>
  mc_ok (m\<lparr>mc_cpu_count := n, mc_queues := replicate MAX_CPUS CpuRunQueue_new,
    mc_runtime := replicate MAX_CPUS CpuRuntimeSnapshot_new, mc_next_assignment := k\<rparr>)"
proof -
  have "concat (map rq_contents (replicate j CpuRunQueue_new)) = []" for j
    by (induction j) (simp_all add: rq_ok_new)
  moreover have "flatten (map rt_current (replicate j CpuRuntimeSnapshot_new)) = []" for j
    by (simp add: map_replicate CpuRuntimeSnapshot_new_def)
  ultimately show "1 \<le> n \<Longrightarrow> n \<le> MAX_CPUS \<Longrightarrow> ?thesis"
    by (simp add: mc_ok_def mc_owned_def mc_queued_def mc_running_def rq_ok_new CpuRuntimeSnapshot_new_def)
qed

section \<open>Runs\<close>

datatype McOp =
    Mc_Configure nat | Mc_Enqueue TaskId | Mc_EnqueueOn nat TaskId | Mc_Dequeue nat TaskId | Mc_PickNext nat
  | Mc_Steal nat | Mc_Dispatch nat | Mc_Complete nat | Mc_Handoff nat bool

fun mc_exec :: "McOp \<Rightarrow> MultiCoreScheduler \<Rightarrow> MultiCoreScheduler option" where
  "mc_exec (Mc_Configure n) m = Some (snd (MultiCoreScheduler_configure n m))"
| "mc_exec (Mc_Enqueue t) m = Some (snd (MultiCoreScheduler_enqueue t m))"
| "mc_exec (Mc_EnqueueOn c t) m = Some (snd (MultiCoreScheduler_enqueue_on_cpu c t m))"
| "mc_exec (Mc_Dequeue c t) m = Some (snd (MultiCoreScheduler_dequeue c t m))"
| "mc_exec (Mc_PickNext c) m = Some (snd (MultiCoreScheduler_pick_next c m))"
| "mc_exec (Mc_Steal c) m = map_option snd (MultiCoreScheduler_steal c m)"
| "mc_exec (Mc_Dispatch c) m = map_option snd (MultiCoreScheduler_dispatch c m)"
| "mc_exec (Mc_Complete c) m = Some (snd (MultiCoreScheduler_complete c m))"
| "mc_exec (Mc_Handoff c b) m = map_option snd (MultiCoreScheduler_bounded_handoff c b m)"

fun mc_run :: "McOp list \<Rightarrow> MultiCoreScheduler \<Rightarrow> MultiCoreScheduler option" where
  "mc_run [] m = Some m"
| "mc_run (x # xs) m = (case mc_exec x m of None \<Rightarrow> None | Some m' \<Rightarrow> mc_run xs m')"

lemma mc_exec_ok:
  assumes "mc_ok m"
  shows "\<exists>m'. mc_exec x m = Some m' \<and> mc_ok m'"
proof (cases x)
  case (Mc_Configure n)
  have "1 \<le> max 1 (min n MAX_CPUS)" "max 1 (min n MAX_CPUS) \<le> MAX_CPUS" by (simp_all add: MAX_CPUS_def)
  from mc_ok_new [OF this] show ?thesis by (simp add: Mc_Configure MultiCoreScheduler_configure_def Let_def)
next
  case (Mc_Enqueue t)
  then show ?thesis using assms by (cases rule: enqueue_mc [OF assms, of t]) simp_all
next
  case (Mc_Steal c)
  show ?thesis
  proof (cases "c < mc_cpu_count m")
    case True
    then show ?thesis using assms Mc_Steal by (cases rule: steal_spec [OF assms True]) simp_all
  next
    case False
    then show ?thesis using assms Mc_Steal by (simp add: MultiCoreScheduler_steal_def)
  qed
next
  case (Mc_Dispatch c)
  then show ?thesis using dispatch_spec [OF assms, of c True] by (auto simp: MultiCoreScheduler_dispatch_def)
next
  case (Mc_Handoff c b)
  then show ?thesis
    using dispatch_spec [OF assms, of c b] complete_ok [OF assms, of c] assms
    by (auto simp: MultiCoreScheduler_bounded_handoff_def Let_def)
qed (use assms enqueue_on_cpu_ok dequeue_ok pick_next_ok complete_ok in \<open>auto simp del: One_nat_def\<close>)

lemma mc_run_ok: "mc_ok m \<Longrightarrow> \<exists>m'. mc_run ops m = Some m' \<and> mc_ok m'"
proof (induction ops arbitrary: m)
  case (Cons x ops)
  from mc_exec_ok [OF Cons.prems] obtain m1 where "mc_exec x m = Some m1" "mc_ok m1" by blast
  with Cons.IH [of m1] show ?case by simp
qed simp

lemma mc_ok_initial: "mc_ok MultiCoreScheduler_new"
  using mc_ok_new [where n = 1 and m = MultiCoreScheduler_new and k = 0]
  by (simp add: MultiCoreScheduler_new_def MAX_CPUS_def)

section \<open>Properties\<close>

text \<open>
  C8. Tasks have one owner: no sequence of coordinator operations panics, and after it every task
  identifier is held at most once over all run queues and running slots together, zero is never a
  task, and no queue exceeds its 64 entries.
\<close>

theorem multicore_unique_ownership:
  "\<exists>m. mc_run ops MultiCoreScheduler_new = Some m \<and>
     (\<forall>t. count (mc_owned m) t \<le> 1) \<and> 0 \<notin># mc_owned m \<and>
     (\<forall>cpu. MultiCoreScheduler_queue_load m cpu = None \<or>
        the (MultiCoreScheduler_queue_load m cpu) \<le> MAX_RUN_QUEUE_TASKS)"
proof -
  obtain m where m: "mc_run ops MultiCoreScheduler_new = Some m" "mc_ok m"
    using mc_run_ok [OF mc_ok_initial] by blast
  have "rq_len (mc_queues m ! cpu) \<le> MAX_RUN_QUEUE_TASKS" if "cpu < mc_cpu_count m" for cpu
    using mc_queue_ok [OF m(2) that] by (simp add: rq_ok_def)
  with m mc_ok_facts(4,5) [OF m(2)] show ?thesis by (auto simp: MultiCoreScheduler_queue_load_def)
qed

text \<open>
  C33. Dispatch is work conserving and loses nothing: in every reachable state it returns, owns
  afterwards the same tasks as before, and reports an idle CPU only when no task is queued on any
  CPU.
\<close>

theorem dispatch_work_conserving:
  assumes "mc_run ops MultiCoreScheduler_new = Some m"
  shows "\<exists>r m'. MultiCoreScheduler_dispatch cpu m = Some (r, m') \<and> mc_owned m' = mc_owned m \<and>
    (r = Disp_Idle \<longrightarrow> mc_queued m = {#})"
proof -
  have "mc_ok m" using mc_run_ok [OF mc_ok_initial, of ops] assms by simp
  from dispatch_spec [OF this, of cpu True] show ?thesis by (auto simp: MultiCoreScheduler_dispatch_def)
qed

theorem dispatch_work_conserving_witness:
  "\<exists>r m'. MultiCoreScheduler_dispatch 0 MultiCoreScheduler_new = Some (r, m') \<and>
     mc_owned m' = mc_owned MultiCoreScheduler_new \<and> (r = Disp_Idle \<longrightarrow> mc_queued MultiCoreScheduler_new = {#})"
  by (rule dispatch_work_conserving [of "[]"]) simp

text \<open>
  New work goes to a least loaded CPU: when a task is accepted, no active CPU has fewer queued
  tasks than the chosen one, and the task is added to the owned tasks; a new task is
  refused only when the queues of all active CPUs are full.
\<close>

theorem enqueue_least_loaded:
  assumes "mc_run ops MultiCoreScheduler_new = Some m" "t \<noteq> 0" "t \<notin># mc_owned m"
  shows "case MultiCoreScheduler_enqueue t m of
      (Inr cpu, m') \<Rightarrow> cpu < mc_cpu_count m \<and> mc_owned m' = add_mset t (mc_owned m) \<and>
        (\<forall>c. c < mc_cpu_count m \<longrightarrow> rq_len (mc_queues m ! cpu) \<le> rq_len (mc_queues m ! c))
    | (Inl e, m') \<Rightarrow> e = Rq_Full \<and> m' = m \<and>
        (\<forall>c. c < mc_cpu_count m \<longrightarrow> rq_len (mc_queues m ! c) = MAX_RUN_QUEUE_TASKS)"
proof -
  have ok: "mc_ok m" using mc_run_ok [OF mc_ok_initial, of ops] assms(1) by simp
  show ?thesis
    by (cases rule: enqueue_mc [OF ok, of t])
      (use assms select_cpu_least [OF mc_ok_facts(6) [OF ok]] in auto)
qed

theorem enqueue_least_loaded_witness:
  "case MultiCoreScheduler_enqueue 7 MultiCoreScheduler_new of
     (Inr cpu, m') \<Rightarrow> cpu < mc_cpu_count MultiCoreScheduler_new \<and>
       mc_owned m' = add_mset 7 (mc_owned MultiCoreScheduler_new) \<and>
       (\<forall>c. c < mc_cpu_count MultiCoreScheduler_new \<longrightarrow>
          rq_len (mc_queues MultiCoreScheduler_new ! cpu) \<le> rq_len (mc_queues MultiCoreScheduler_new ! c))
   | (Inl e, m') \<Rightarrow> e = Rq_Full \<and> m' = MultiCoreScheduler_new \<and>
       (\<forall>c. c < mc_cpu_count MultiCoreScheduler_new \<longrightarrow>
          rq_len (mc_queues MultiCoreScheduler_new ! c) = MAX_RUN_QUEUE_TASKS)"
proof (rule enqueue_least_loaded [of "[]"])
  have "\<not> mc_task_known MultiCoreScheduler_new 7"
    by (simp add: mc_task_known_def MultiCoreScheduler_new_def MAX_CPUS_def CpuRunQueue_contains_def
        CpuRunQueue_new_def CpuRuntimeSnapshot_new_def take_Cons' numeral_eq_Suc)
  then show "7 \<notin># mc_owned MultiCoreScheduler_new" by (simp add: task_known_iff [OF mc_ok_initial])
qed simp_all

text \<open>
  Completion gives the running task back, except into a full queue: when the queue of the CPU
  already holds 64 tasks the completed task is neither queued nor running afterwards, although the
  handoff comment states that completion cannot fail.
\<close>

theorem complete_keeps_task_unless_full:
  assumes "mc_run ops MultiCoreScheduler_new = Some m" "cpu < mc_cpu_count m"
    "rt_current (mc_runtime m ! cpu) = Some t"
  shows "if rq_len (mc_queues m ! cpu) = MAX_RUN_QUEUE_TASKS
    then fst (MultiCoreScheduler_complete cpu m) = Err Rq_Full \<and>
      mc_owned m = add_mset t (mc_owned (snd (MultiCoreScheduler_complete cpu m)))
    else fst (MultiCoreScheduler_complete cpu m) = Ok (Some t) \<and>
      mc_owned (snd (MultiCoreScheduler_complete cpu m)) = mc_owned m"
proof -
  have ok: "mc_ok m" using mc_run_ok [OF mc_ok_initial, of ops] assms(1) by simp
  from complete_spec [OF ok assms(2,3)] show ?thesis by (auto split: if_splits)
qed

theorem complete_keeps_task_unless_full_witness:
  "let m = the (mc_run [Mc_EnqueueOn 0 7, Mc_Dispatch 0] MultiCoreScheduler_new)
   in mc_owned (snd (MultiCoreScheduler_complete 0 m)) = mc_owned m"
proof -
  let ?m = "the (mc_run [Mc_EnqueueOn 0 7, Mc_Dispatch 0] MultiCoreScheduler_new)"
  have ex: "\<exists>m. mc_run [Mc_EnqueueOn 0 7, Mc_Dispatch 0] MultiCoreScheduler_new = Some m"
    using mc_run_ok [OF mc_ok_initial] by blast
  then have r: "mc_run [Mc_EnqueueOn 0 7, Mc_Dispatch 0] MultiCoreScheduler_new = Some ?m" by auto
  have e: "mc_cpu_count ?m = 1 \<and> rt_current (mc_runtime ?m ! 0) = Some 7 \<and> rq_len (mc_queues ?m ! 0) = 0"
    by code_simp
  then have "0 < mc_cpu_count ?m" "rt_current (mc_runtime ?m ! 0) = Some 7" by simp_all
  from complete_keeps_task_unless_full [OF r this] e show ?thesis
    by (simp add: Let_def MAX_RUN_QUEUE_TASKS_def MAX_TASKS_def)
qed

end
