(* ===== verification/Scheduler.thy ===== *)
theory Scheduler
  imports Slot_Table Context_Switch Run_Queue
begin

text \<open>
  The cooperative scheduler of \<^verbatim>\<open>src/kernel/src/sched.rs\<close>: tasks in a table of 64 slots, a
  cursor to the running one, the round-robin timer tick and the preparation of a context switch.
  The kernel stack of a task with an entry point is allocated by the heap; its base address is a
  parameter of the operation. The pair of context pointers that \<^verbatim>\<open>prepare_switch\<close>
  returns is the pair of slot indices they point into.
\<close>

section \<open>Tasks\<close>

datatype Priority = Prio_Idle | Prio_Low | Prio_Normal | Prio_High | Prio_Realtime | Prio_System

datatype TaskState = Task_Ready | Task_Running | Task_Blocked | Task_Finished

record Task =
  task_id :: TaskId
  task_name :: bytes
  task_name_len :: nat
  task_priority :: Priority
  task_state :: TaskState
  task_ticks :: u64
  task_ctx :: TaskContext
  task_stack :: "u64 option"

definition Task_new_boot :: "TaskId \<Rightarrow> bytes \<Rightarrow> Priority \<Rightarrow> Task" where
  "Task_new_boot tid name priority =
     \<lparr>task_id = tid, task_name = fixed_buf 32 name, task_name_len = min (length name) 32,
      task_priority = priority, task_state = Task_Ready, task_ticks = 0,
      task_ctx = TaskContext_empty, task_stack = None\<rparr>"

definition Task_new_with_stack :: "TaskId \<Rightarrow> bytes \<Rightarrow> Priority \<Rightarrow> u64 \<Rightarrow> u64 \<Rightarrow> Task" where
  "Task_new_with_stack tid name priority entry stack_base =
     \<lparr>task_id = tid, task_name = fixed_buf 32 name, task_name_len = min (length name) 32,
      task_priority = priority, task_state = Task_Ready, task_ticks = 0,
      task_ctx = TaskContext_new_task (KernelStack_top stack_base) entry, task_stack = Some stack_base\<rparr>"

definition Task_name_str :: "Task \<Rightarrow> bytes" where
  "Task_name_str t = from_utf8_or (ascii ''???'') (take (task_name_len t) (task_name t))"

section \<open>The scheduler\<close>

record Scheduler =
  sc_tasks :: "Task option list"
  sc_current :: nat
  sc_next_id :: TaskId
  sc_tick_count :: u64

definition Scheduler_new :: Scheduler where
  "Scheduler_new = \<lparr>sc_tasks = replicate MAX_TASKS None, sc_current = 0, sc_next_id = 1, sc_tick_count = 0\<rparr>"

text \<open>Both ways of adding a task store a new descriptor in the first free slot.\<close>

definition insert_task :: "(TaskId \<Rightarrow> Task) \<Rightarrow> Scheduler \<Rightarrow> (TaskId \<times> Scheduler) option" where
  "insert_task mk s =
     (case first_free (sc_tasks s) of
        Some k \<Rightarrow>
          (let id = sc_next_id s
           in Some (id, s\<lparr>sc_next_id := sc_next_id s + 1, sc_tasks := (sc_tasks s)[k := Some (mk id)]\<rparr>))
      | None \<Rightarrow> None)"

definition Scheduler_add_task :: "bytes \<Rightarrow> Priority \<Rightarrow> Scheduler \<Rightarrow> (TaskId \<times> Scheduler) option" where
  "Scheduler_add_task name priority s = insert_task (\<lambda>id. Task_new_boot id name priority) s"

definition Scheduler_add_task_with_entry ::
  "bytes \<Rightarrow> Priority \<Rightarrow> u64 \<Rightarrow> u64 \<Rightarrow> Scheduler \<Rightarrow> (TaskId \<times> Scheduler) option" where
  "Scheduler_add_task_with_entry name priority entry stack_base s =
     insert_task (\<lambda>id. Task_new_with_stack id name priority entry stack_base) s"

definition Scheduler_remove_task :: "TaskId \<Rightarrow> Scheduler \<Rightarrow> bool \<times> Scheduler" where
  "Scheduler_remove_task tid s =
     (case find_slot (\<lambda>t. task_id t = tid) (sc_tasks s) of
        Some k \<Rightarrow> (True, s\<lparr>sc_tasks := (sc_tasks s)[k := None]\<rparr>)
      | None \<Rightarrow> (False, s))"

definition Scheduler_block_task :: "TaskId \<Rightarrow> Scheduler \<Rightarrow> bool \<times> Scheduler" where
  "Scheduler_block_task tid s =
     (case find_slot (\<lambda>t. task_id t = tid) (sc_tasks s) of
        Some k \<Rightarrow> (True, s\<lparr>sc_tasks := (sc_tasks s)[k := map_option (\<lambda>t. t\<lparr>task_state := Task_Blocked\<rparr>) (sc_tasks s ! k)]\<rparr>)
      | None \<Rightarrow> (False, s))"

definition Scheduler_unblock_task :: "TaskId \<Rightarrow> Scheduler \<Rightarrow> bool \<times> Scheduler" where
  "Scheduler_unblock_task tid s =
     (case find_slot (\<lambda>t. task_id t = tid \<and> task_state t = Task_Blocked) (sc_tasks s) of
        Some k \<Rightarrow> (True, s\<lparr>sc_tasks := (sc_tasks s)[k := map_option (\<lambda>t. t\<lparr>task_state := Task_Ready\<rparr>) (sc_tasks s ! k)]\<rparr>)
      | None \<Rightarrow> (False, s))"

text \<open>The assignments to a task of one slot, where there is one.\<close>

definition update_slot :: "nat \<Rightarrow> (Task \<Rightarrow> Task) \<Rightarrow> Scheduler \<Rightarrow> Scheduler" where
  "update_slot k f s = s\<lparr>sc_tasks := (sc_tasks s)[k := map_option f (sc_tasks s ! k)]\<rparr>"

definition preempt :: "Task \<Rightarrow> Task" where
  "preempt t = (if task_state t = Task_Running then t\<lparr>task_state := Task_Ready\<rparr> else t)"

definition run_task :: "Task \<Rightarrow> Task" where
  "run_task t = t\<lparr>task_state := Task_Running, task_ticks := task_ticks t + 1\<rparr>"

definition slot_ready :: "Scheduler \<Rightarrow> nat \<Rightarrow> bool" where
  "slot_ready s k = (case sc_tasks s ! k of Some t \<Rightarrow> task_state t = Task_Ready | None \<Rightarrow> False)"

text \<open>
  The search loop of \<^verbatim>\<open>tick\<close>; it leaves after at most \<open>MAX_TASKS\<close> rounds, when the
  cursor is back at \<open>start\<close>, which is the bound it is given.
\<close>

fun tick_loop :: "nat \<Rightarrow> nat \<Rightarrow> Scheduler \<Rightarrow> Scheduler" where
  "tick_loop 0 start s = s"
| "tick_loop (Suc rounds) start s =
     (let s = s\<lparr>sc_current := (sc_current s + 1) mod MAX_TASKS\<rparr>
      in if slot_ready s (sc_current s) then update_slot (sc_current s) run_task s
         else if sc_current s = start then s
         else tick_loop rounds start s)"

definition Scheduler_tick :: "Scheduler \<Rightarrow> Scheduler" where
  "Scheduler_tick s =
     (let s = s\<lparr>sc_tick_count := sc_tick_count s + 1\<rparr>;
          s = update_slot (sc_current s) preempt s
      in tick_loop MAX_TASKS (sc_current s) s)"

fun next_ready_loop :: "nat \<Rightarrow> nat \<Rightarrow> nat \<Rightarrow> Scheduler \<Rightarrow> nat option" where
  "next_ready_loop 0 start idx s = None"
| "next_ready_loop (Suc rounds) start idx s =
     (if slot_ready s idx then Some idx
      else let idx = (idx + 1) mod MAX_TASKS
           in if idx = start then None else next_ready_loop rounds start idx s)"

definition Scheduler_next_ready :: "Scheduler \<Rightarrow> nat option" where
  "Scheduler_next_ready s =
     next_ready_loop MAX_TASKS (sc_current s) ((sc_current s + 1) mod MAX_TASKS) s"

definition Scheduler_prepare_switch :: "Scheduler \<Rightarrow> (nat \<times> nat) option \<times> Scheduler" where
  "Scheduler_prepare_switch s =
     (case Scheduler_next_ready s of
        None \<Rightarrow> (None, s)
      | Some next_idx \<Rightarrow>
          (let s = update_slot (sc_current s) preempt s;
               s = update_slot next_idx run_task s
           in if sc_tasks s ! sc_current s = None then (None, s)
              else if sc_tasks s ! next_idx = None then (None, s)
              else (Some (sc_current s, next_idx), s\<lparr>sc_current := next_idx\<rparr>)))"

definition Scheduler_task_context_ptr :: "TaskId \<Rightarrow> Scheduler \<Rightarrow> nat option" where
  "Scheduler_task_context_ptr tid s = find_slot (\<lambda>t. task_id t = tid) (sc_tasks s)"

definition Scheduler_current_task_id :: "Scheduler \<Rightarrow> TaskId option" where
  "Scheduler_current_task_id s = map_option task_id (sc_tasks s ! sc_current s)"

definition Scheduler_total_ticks :: "Scheduler \<Rightarrow> u64" where
  "Scheduler_total_ticks s = sc_tick_count s"

definition Scheduler_active_count :: "Scheduler \<Rightarrow> nat" where
  "Scheduler_active_count s = length (filter (\<lambda>t. t \<noteq> None) (sc_tasks s))"

record TaskSnapshot =
  snap_id :: TaskId
  snap_name :: bytes
  snap_name_len :: nat
  snap_priority :: Priority
  snap_state :: TaskState
  snap_ticks :: u64
  snap_rsp :: u64
  snap_rip :: u64

definition Scheduler_snapshot :: "Scheduler \<Rightarrow> TaskSnapshot option list" where
  "Scheduler_snapshot s = map (map_option (\<lambda>t.
     \<lparr>snap_id = task_id t, snap_name = task_name t, snap_name_len = task_name_len t,
      snap_priority = task_priority t, snap_state = task_state t, snap_ticks = task_ticks t,
      snap_rsp = tc_rsp (task_ctx t), snap_rip = tc_rip (task_ctx t)\<rparr>)) (sc_tasks s)"

section \<open>The table contract\<close>

definition task_del :: "TaskId \<Rightarrow> Scheduler \<Rightarrow> Scheduler option" where
  "task_del tid s = (case Scheduler_remove_task tid s of (True, s') \<Rightarrow> Some s' | (False, _) \<Rightarrow> None)"

definition task_mk :: "(TaskId \<Rightarrow> Task) \<Rightarrow> TaskId \<Rightarrow> Task" where
  "task_mk mk tid = (mk tid)\<lparr>task_id := tid\<rparr>"

interpretation tasks: id_table_del sc_tasks sc_next_id task_id "\<lambda>mk. insert_task (task_mk mk)" task_mk task_del
  by unfold_locales
    (auto simp: insert_task_def task_del_def task_mk_def Scheduler_remove_task_def Let_def split: option.splits prod.splits)

lemma add_task_insert:
  "Scheduler_add_task name priority s = insert_task (task_mk (\<lambda>id. Task_new_boot id name priority)) s"
  "Scheduler_add_task_with_entry name priority entry base s =
     insert_task (task_mk (\<lambda>id. Task_new_with_stack id name priority entry base)) s"
  by (simp_all add: Scheduler_add_task_def Scheduler_add_task_with_entry_def task_mk_def insert_task_def
      Task_new_boot_def Task_new_with_stack_def Let_def split: option.splits)

section \<open>The tick\<close>

text \<open>The slots in the order in which a tick examines them, as offsets from the cursor.\<close>

abbreviation slot_at :: "nat \<Rightarrow> nat \<Rightarrow> nat" where
  "slot_at start i \<equiv> (start + i) mod MAX_TASKS"

definition first_ready :: "Scheduler \<Rightarrow> nat \<Rightarrow> nat option" where
  "first_ready s n = List.find (\<lambda>i. slot_ready s (slot_at (sc_current s) i)) [1..<n]"

lemma slot_ready_simps [simp]:
  "slot_ready (s\<lparr>sc_current := c\<rparr>) k = slot_ready s k"
  "slot_ready (s\<lparr>sc_tick_count := n\<rparr>) k = slot_ready s k"
  by (simp_all add: slot_ready_def)

lemma update_slot_simps [simp]:
  "sc_current (update_slot k f s) = sc_current s" "sc_next_id (update_slot k f s) = sc_next_id s"
  "sc_tick_count (update_slot k f s) = sc_tick_count s"
  "length (sc_tasks (update_slot k f s)) = length (sc_tasks s)"
  by (simp_all add: update_slot_def)

lemma nth_update_slot:
  "k < length (sc_tasks s) \<Longrightarrow> sc_tasks (update_slot j f s) ! k = (if k = j then map_option f (sc_tasks s ! k) else sc_tasks s ! k)"
  by (simp add: update_slot_def nth_list_update)

lemma MAX_TASKS_pos: "0 < MAX_TASKS"
  by (simp add: MAX_TASKS_def)

lemma slot_at_start_iff: "start < MAX_TASKS \<Longrightarrow> 0 < i \<Longrightarrow> i \<le> MAX_TASKS \<Longrightarrow> slot_at start i = start \<longleftrightarrow> i = MAX_TASKS"
proof
  assume a: "start < MAX_TASKS" "0 < i" "i \<le> MAX_TASKS" "slot_at start i = start"
  show "i = MAX_TASKS"
  proof (rule ccontr)
    assume "i \<noteq> MAX_TASKS"
    with a have "i < MAX_TASKS" by simp
    then show False using a by (cases "start + i < MAX_TASKS") (auto simp: mod_if split: if_splits)
  qed
qed simp

lemma find_upt_Suc: "i < n \<Longrightarrow> List.find P [i..<n] = (if P i then Some i else List.find P [Suc i..<n])"
  by (simp add: upt_conv_Cons)

lemma tick_loop_spec:
  assumes "start < MAX_TASKS" "sc_current s = slot_at start j" "rounds + j = MAX_TASKS" "0 < rounds"
  shows "tick_loop rounds start s =
    (case List.find (\<lambda>i. slot_ready s (slot_at start i)) [Suc j..<Suc MAX_TASKS] of
       Some i \<Rightarrow> update_slot (slot_at start i) run_task (s\<lparr>sc_current := slot_at start i\<rparr>)
     | None \<Rightarrow> s\<lparr>sc_current := start\<rparr>)"
  using assms
proof (induction rounds arbitrary: j s)
  case (Suc rounds)
  have next': "(sc_current s + 1) mod MAX_TASKS = slot_at start (Suc j)"
    using Suc.prems(2) by (simp add: mod_Suc_eq)
  have j: "Suc j < Suc MAX_TASKS" using Suc.prems(3) by simp
  show ?case
  proof (cases "slot_ready s (slot_at start (Suc j))")
    case True
    then show ?thesis using next' by (simp add: find_upt_Suc [OF j] Let_def del: upt_Suc)
  next
    case nr: False
    show ?thesis
    proof (cases "rounds = 0")
      case True
      then have "slot_at start (Suc j) = start" "Suc j = MAX_TASKS"
        using Suc.prems(1,3) by simp_all
      then show ?thesis using nr next' by (simp add: Let_def)
    next
      case False
      let ?s = "s\<lparr>sc_current := slot_at start (Suc j)\<rparr>"
      have "slot_at start (Suc j) \<noteq> start"
        using slot_at_start_iff [OF Suc.prems(1), of "Suc j"] Suc.prems(3) False by simp
      then have "tick_loop (Suc rounds) start s = tick_loop rounds start ?s"
        using nr next' by (simp add: Let_def)
      also have "\<dots> = (case List.find (\<lambda>i. slot_ready ?s (slot_at start i)) [Suc (Suc j)..<Suc MAX_TASKS] of
          Some i \<Rightarrow> update_slot (slot_at start i) run_task (?s\<lparr>sc_current := slot_at start i\<rparr>)
        | None \<Rightarrow> ?s\<lparr>sc_current := start\<rparr>)"
        using Suc.prems(1,3) False by (intro Suc.IH) simp_all
      finally show ?thesis using nr by (simp add: find_upt_Suc [OF j] del: upt_Suc split: option.splits)
    qed
  qed
qed simp

definition preempted :: "Scheduler \<Rightarrow> Scheduler" where
  "preempted s = update_slot (sc_current s) preempt s"

lemma tick_spec:
  assumes "sc_current s < MAX_TASKS"
  shows "Scheduler_tick s =
    (let p = (preempted s)\<lparr>sc_tick_count := sc_tick_count s + 1\<rparr>
     in case first_ready (preempted s) (Suc MAX_TASKS) of
          Some i \<Rightarrow> update_slot (slot_at (sc_current s) i) run_task (p\<lparr>sc_current := slot_at (sc_current s) i\<rparr>)
        | None \<Rightarrow> p)"
proof -
  let ?p = "(preempted s)\<lparr>sc_tick_count := sc_tick_count s + 1\<rparr>"
  have "Scheduler_tick s = tick_loop MAX_TASKS (sc_current s) ?p"
    by (cases s) (simp add: Scheduler_tick_def preempted_def update_slot_def Let_def)
  also have "\<dots> = (case List.find (\<lambda>i. slot_ready ?p (slot_at (sc_current s) i)) [Suc 0..<Suc MAX_TASKS] of
       Some i \<Rightarrow> update_slot (slot_at (sc_current s) i) run_task (?p\<lparr>sc_current := slot_at (sc_current s) i\<rparr>)
     | None \<Rightarrow> ?p\<lparr>sc_current := sc_current s\<rparr>)"
    using assms MAX_TASKS_pos by (intro tick_loop_spec) (simp_all add: preempted_def)
  finally show ?thesis
    by (simp add: first_ready_def preempted_def Let_def del: upt_Suc split: option.splits)
qed

section \<open>Shape of the table and stray tasks\<close>

text \<open>
  The table has its 64 slots and the cursor is in range. A task in state running is a stray one when the
  cursor is not on it.
\<close>

definition sched_ok :: "Scheduler \<Rightarrow> bool" where
  "sched_ok s \<longleftrightarrow> length (sc_tasks s) = MAX_TASKS \<and> sc_current s < MAX_TASKS"

definition stray_running :: "Scheduler \<Rightarrow> nat set" where
  "stray_running s = {k. k < MAX_TASKS \<and> k \<noteq> sc_current s \<and> (\<exists>t. sc_tasks s ! k = Some t \<and> task_state t = Task_Running)}"

lemma finite_stray: "finite (stray_running s)"
  by (rule finite_subset [of _ "{..<MAX_TASKS}"]) (auto simp: stray_running_def)

lemma sched_ok_new: "sched_ok Scheduler_new"
  by (simp add: sched_ok_def Scheduler_new_def MAX_TASKS_def)

lemma stray_new: "stray_running Scheduler_new = {}"
  by (auto simp: stray_running_def Scheduler_new_def)

lemma length_preempted [simp]: "length (sc_tasks (preempted s)) = length (sc_tasks s)"
  by (simp add: preempted_def)

lemma preempt_not_running: "task_state (preempt t) \<noteq> Task_Running"
  by (simp add: preempt_def)

lemma preempted_running:
  assumes "sched_ok s" "k < MAX_TASKS" "sc_tasks (preempted s) ! k = Some t" "task_state t = Task_Running"
  shows "k \<in> stray_running s"
  using assms
  by (cases "k = sc_current s") (auto simp: preempted_def nth_update_slot sched_ok_def stray_running_def preempt_not_running)

lemma stray_run:
  assumes "sched_ok s" "c < MAX_TASKS" "sc_tasks p = sc_tasks (preempted s)"
  shows "stray_running (update_slot c run_task (p\<lparr>sc_current := c\<rparr>)) \<subseteq> stray_running s"
proof
  fix k assume k: "k \<in> stray_running (update_slot c run_task (p\<lparr>sc_current := c\<rparr>))"
  then obtain t where "k < MAX_TASKS" "k \<noteq> c" "sc_tasks (preempted s) ! k = Some t" "task_state t = Task_Running"
    using assms by (auto simp: stray_running_def nth_update_slot sched_ok_def)
  then show "k \<in> stray_running s" using preempted_running [OF assms(1)] by simp
qed

lemma tick_cases:
  assumes "sched_ok s"
  obtains "Scheduler_tick s = (preempted s)\<lparr>sc_tick_count := sc_tick_count s + 1\<rparr>"
  | c where "c < MAX_TASKS"
    "Scheduler_tick s = update_slot c run_task ((preempted s)\<lparr>sc_tick_count := sc_tick_count s + 1, sc_current := c\<rparr>)"
proof (cases "first_ready (preempted s) (Suc MAX_TASKS)")
  case None
  then show ?thesis using that(1) assms by (simp add: tick_spec sched_ok_def Let_def)
next
  case (Some i)
  then show ?thesis using that(2) [of "slot_at (sc_current s) i"] assms MAX_TASKS_pos
    by (simp add: tick_spec sched_ok_def Let_def)
qed

lemma sched_ok_tick: "sched_ok s \<Longrightarrow> sched_ok (Scheduler_tick s)"
  by (frule tick_cases) (auto simp: sched_ok_def preempted_def)

lemma stray_tick:
  assumes "sched_ok s"
  shows "stray_running (Scheduler_tick s) \<subseteq> stray_running s"
  using assms
proof (cases rule: tick_cases)
  case 1
  then show ?thesis using preempted_running [OF assms] unfolding stray_running_def [of "Scheduler_tick s"] by auto
next
  case (2 c)
  then show ?thesis
    using stray_run [OF assms, of c "(preempted s)\<lparr>sc_tick_count := sc_tick_count s + 1\<rparr>"] by simp
qed

section \<open>Progress\<close>

lemma first_ready_SomeD:
  "first_ready s n = Some i \<Longrightarrow> 1 \<le> i \<and> i < n \<and> slot_ready s (slot_at (sc_current s) i) \<and>
     (\<forall>j. 1 \<le> j \<and> j < i \<longrightarrow> \<not> slot_ready s (slot_at (sc_current s) j))"
proof -
  assume a: "first_ready s n = Some i"
  then obtain m where m: "m < length [1..<n]" "slot_ready s (slot_at (sc_current s) ([1..<n] ! m))"
    "i = [1..<n] ! m" "\<forall>j < m. \<not> slot_ready s (slot_at (sc_current s) ([1..<n] ! j))"
    unfolding first_ready_def find_Some_iff by blast
  then have i: "i = Suc m" by simp
  have "\<not> slot_ready s (slot_at (sc_current s) j)" if "1 \<le> j" "j < i" for j
  proof -
    have "[1..<n] ! (j - 1) = j" using that m(1) i by simp
    then show ?thesis using m(4) [rule_format, of "j - 1"] that i by simp
  qed
  then show ?thesis using m i by auto
qed

lemma first_ready_exists:
  "1 \<le> d \<Longrightarrow> d < n \<Longrightarrow> slot_ready s (slot_at (sc_current s) d) \<Longrightarrow> \<exists>i \<le> d. first_ready s n = Some i"
proof -
  assume d: "1 \<le> d" "d < n" "slot_ready s (slot_at (sc_current s) d)"
  then have "first_ready s n \<noteq> None" by (auto simp: first_ready_def find_None_iff)
  then obtain i where i: "first_ready s n = Some i" by auto
  then have "i \<le> d" using first_ready_SomeD [OF i] d by (meson not_le)
  with i show ?thesis by blast
qed

lemma ready_preempted: "slot_ready s k \<Longrightarrow> k < length (sc_tasks s) \<Longrightarrow> slot_ready (preempted s) k \<and> sc_tasks (preempted s) ! k = sc_tasks s ! k"
  by (auto simp: slot_ready_def preempted_def nth_update_slot preempt_def split: option.splits)

text \<open>A ready task at offset \<open>d\<close> from the cursor is run by one of the next \<open>d\<close> ticks.\<close>

lemma runs_within:
  assumes "sched_ok s" "1 \<le> d" "d \<le> MAX_TASKS" "sc_tasks s ! slot_at (sc_current s) d = Some t"
    "task_state t = Task_Ready"
  shows "\<exists>n. 1 \<le> n \<and> n \<le> d \<and> sc_current ((Scheduler_tick ^^ n) s) = slot_at (sc_current s) d \<and>
    sc_tasks ((Scheduler_tick ^^ n) s) ! slot_at (sc_current s) d = Some (run_task t)"
  using assms
proof (induction d arbitrary: s rule: less_induct)
  case (less d)
  let ?k = "slot_at (sc_current s) d"
  have len: "length (sc_tasks s) = MAX_TASKS" and c: "sc_current s < MAX_TASKS"
    using less.prems(1) by (simp_all add: sched_ok_def)
  have k: "?k < MAX_TASKS" using MAX_TASKS_pos by simp
  have rdy: "slot_ready s ?k" using less.prems(4,5) by (simp add: slot_ready_def)
  note rp = ready_preempted [OF rdy] 
  have pc: "sc_current (preempted s) = sc_current s" by (simp add: preempted_def)
  obtain i where i: "i \<le> d" "first_ready (preempted s) (Suc MAX_TASKS) = Some i"
    using first_ready_exists [of d "Suc MAX_TASKS" "preempted s"] less.prems(2,3) rp k len pc by auto
  have i1: "1 \<le> i" using first_ready_SomeD [OF i(2)] by simp
  let ?c = "slot_at (sc_current s) i"
  have tick: "Scheduler_tick s = update_slot ?c run_task ((preempted s)\<lparr>sc_tick_count := sc_tick_count s + 1, sc_current := ?c\<rparr>)"
    using tick_spec [OF c] i(2) by simp
  have tasks: "sc_tasks (Scheduler_tick s) ! ?k = (if ?k = ?c then Some (run_task t) else Some t)"
    using tick rp k len less.prems(4) by (auto simp: nth_update_slot)
  show ?case
  proof (cases "?k = ?c")
    case True
    then show ?thesis using tick tasks less.prems(2) by (intro exI [of _ 1]) simp
  next
    case False
    then have id: "i < d" using i(1) by (cases "i = d") auto
    have "sc_current (Scheduler_tick s) = ?c" using tick by simp
    moreover have "slot_at ?c (d - i) = (sc_current s + i + (d - i)) mod MAX_TASKS" by (rule mod_add_left_eq)
    ultimately have off: "slot_at (sc_current (Scheduler_tick s)) (d - i) = ?k" using id by simp
    have "\<exists>n. 1 \<le> n \<and> n \<le> d - i \<and>
        sc_current ((Scheduler_tick ^^ n) (Scheduler_tick s)) = slot_at (sc_current (Scheduler_tick s)) (d - i) \<and>
        sc_tasks ((Scheduler_tick ^^ n) (Scheduler_tick s)) ! slot_at (sc_current (Scheduler_tick s)) (d - i) = Some (run_task t)"
      using id i1 less.prems tasks False off
      by (intro less.IH) (simp_all add: sched_ok_tick)
    then obtain n where "1 \<le> n" "n \<le> d - i" "sc_current ((Scheduler_tick ^^ Suc n) s) = ?k"
      "sc_tasks ((Scheduler_tick ^^ Suc n) s) ! ?k = Some (run_task t)"
      unfolding off by (auto simp: funpow_swap1)
    then show ?thesis using id i1 by (intro exI [of _ "Suc n"]) simp
  qed
qed

section \<open>Switching\<close>

lemma next_ready_loop_spec:
  assumes "start < MAX_TASKS" "idx = slot_at start j" "rounds + j = Suc MAX_TASKS" "1 \<le> j" "j < MAX_TASKS"
  shows "next_ready_loop rounds start idx s =
    map_option (slot_at start) (List.find (\<lambda>i. slot_ready s (slot_at start i)) [j..<MAX_TASKS])"
  using assms
proof (induction rounds arbitrary: j idx)
  case (Suc rounds)
  show ?case
  proof (cases "slot_ready s (slot_at start j)")
    case True
    then show ?thesis using Suc.prems by (simp add: find_upt_Suc)
  next
    case nr: False
    have next': "(idx + 1) mod MAX_TASKS = slot_at start (Suc j)" using Suc.prems(2) by (simp add: mod_Suc_eq)
    show ?thesis
    proof (cases "Suc j = MAX_TASKS")
      case True
      then show ?thesis using nr next' Suc.prems by (simp add: Let_def find_upt_Suc)
    next
      case False
      then have "slot_at start (Suc j) \<noteq> start"
        using slot_at_start_iff [OF Suc.prems(1), of "Suc j"] Suc.prems(5) by simp
      moreover have "next_ready_loop rounds start (slot_at start (Suc j)) s =
          map_option (slot_at start) (List.find (\<lambda>i. slot_ready s (slot_at start i)) [Suc j..<MAX_TASKS])"
        using Suc.prems False by (intro Suc.IH) simp_all
      ultimately show ?thesis using nr next' Suc.prems by (simp add: Let_def find_upt_Suc)
    qed
  qed
qed simp

lemma next_ready_spec:
  assumes "sc_current s < MAX_TASKS"
  shows "Scheduler_next_ready s = map_option (slot_at (sc_current s)) (first_ready s MAX_TASKS)"
proof -
  have "1 < MAX_TASKS" by (simp add: MAX_TASKS_def)
  then show ?thesis unfolding Scheduler_next_ready_def first_ready_def
    using assms by (intro next_ready_loop_spec) simp_all
qed

lemma next_ready_SomeD:
  assumes "sched_ok s" "Scheduler_next_ready s = Some k"
  shows "k < MAX_TASKS \<and> k \<noteq> sc_current s \<and> (\<exists>t. sc_tasks s ! k = Some t \<and> task_state t = Task_Ready)"
proof -
  have c: "sc_current s < MAX_TASKS" using assms(1) by (simp add: sched_ok_def)
  obtain i where i: "first_ready s MAX_TASKS = Some i" "k = slot_at (sc_current s) i"
    using assms(2) next_ready_spec [OF c] by auto
  note f = first_ready_SomeD [OF i(1)]
  have "k \<noteq> sc_current s" using slot_at_start_iff [OF c, of i] f i(2) by simp
  then show ?thesis using f i(2) MAX_TASKS_pos by (auto simp: slot_ready_def split: option.splits)
qed

text \<open>
  A prepared switch moves the cursor to the task it selects, except when the slot under the cursor is
  empty: then the selected task is marked and the cursor stays.
\<close>

lemma prepare_switch_cases:
  assumes "sched_ok s"
  obtains "Scheduler_next_ready s = None" "Scheduler_prepare_switch s = (None, s)"
  | k where "Scheduler_next_ready s = Some k" "k < MAX_TASKS" "k \<noteq> sc_current s" "sc_tasks s ! sc_current s \<noteq> None"
    "Scheduler_prepare_switch s = (Some (sc_current s, k), update_slot k run_task ((preempted s)\<lparr>sc_current := k\<rparr>))"
  | k where "Scheduler_next_ready s = Some k" "k < MAX_TASKS" "k \<noteq> sc_current s" "sc_tasks s ! sc_current s = None"
    "Scheduler_prepare_switch s = (None, update_slot k run_task (preempted s))"
proof (cases "Scheduler_next_ready s")
  case None
  then show ?thesis using that(1) by (simp add: Scheduler_prepare_switch_def)
next
  case (Some k)
  note k = next_ready_SomeD [OF assms Some]
  let ?s = "update_slot k run_task (preempted s)"
  have l: "length (sc_tasks s) = MAX_TASKS" "sc_current s < MAX_TASKS" using assms by (simp_all add: sched_ok_def)
  have c: "sc_current ?s = sc_current s" by (simp add: preempted_def)
  have t: "sc_tasks ?s ! sc_current s = None \<longleftrightarrow> sc_tasks s ! sc_current s = None" "(sc_tasks ?s ! k = None) = False"
    using l k by (auto simp: nth_update_slot preempted_def)
  have "Scheduler_prepare_switch s =
      (if sc_tasks s ! sc_current s = None then (None, ?s) else (Some (sc_current s, k), ?s\<lparr>sc_current := k\<rparr>))"
    unfolding Scheduler_prepare_switch_def Some Let_def preempted_def [symmetric] option.case c t by simp
  moreover have "?s\<lparr>sc_current := k\<rparr> = update_slot k run_task ((preempted s)\<lparr>sc_current := k\<rparr>)"
    by (simp add: update_slot_def)
  ultimately show ?thesis using that(2) [of k] that(3) [of k] Some k by (cases "sc_tasks s ! sc_current s = None") auto
qed

lemma sched_ok_switch: "sched_ok s \<Longrightarrow> sched_ok (snd (Scheduler_prepare_switch s))"
  by (frule prepare_switch_cases) (auto simp: sched_ok_def preempted_def)

lemma stray_switch:
  assumes "sched_ok s"
  shows "card (stray_running (snd (Scheduler_prepare_switch s))) \<le>
    (if sc_tasks s ! sc_current s = None \<and> Scheduler_next_ready s \<noteq> None then card (stray_running s) + 1 else card (stray_running s))"
  using assms
proof (cases rule: prepare_switch_cases)
  case (2 k)
  then show ?thesis using card_mono [OF finite_stray stray_run [OF assms, of k "preempted s"]] by simp
next
  case (3 k)
  let ?s = "update_slot k run_task (preempted s)"
  have "length (sc_tasks (preempted s)) = MAX_TASKS" using assms by (simp add: sched_ok_def)
  then have "j \<in> insert k (stray_running s)" if j: "j \<in> stray_running ?s" for j
    using j preempted_running [OF assms, of j] 3(2) by (cases "j = k") (auto simp: stray_running_def [of ?s] nth_update_slot)
  then have "card (stray_running ?s) \<le> card (insert k (stray_running s))"
    by (intro card_mono) (auto simp: finite_stray)
  then show ?thesis using 3 by (simp add: card_insert_if finite_stray split: if_splits)
qed simp

text \<open>An operation that stores a task that does not run, or none, in one slot.\<close>

lemma stray_update:
  assumes "sched_ok s \<and> card (stray_running s) \<le> n" "sc_tasks s' = (sc_tasks s)[k := x]" "sc_current s' = sc_current s"
    "\<forall>t. x = Some t \<longrightarrow> task_state t \<noteq> Task_Running"
  shows "sched_ok s' \<and> card (stray_running s') \<le> n"
proof
  have l: "length (sc_tasks s) = MAX_TASKS" using assms(1) by (simp add: sched_ok_def)
  have "j \<in> stray_running s" if "j \<in> stray_running s'" for j
    using that assms(2-4) l by (cases "j = k") (auto simp: stray_running_def)
  then have "card (stray_running s') \<le> card (stray_running s)" by (intro card_mono finite_stray) blast
  then show "card (stray_running s') \<le> n" using assms(1) by linarith
qed (use assms(1-3) in \<open>simp add: sched_ok_def\<close>)

text \<open>
  Reachable schedulers: every operation in every state, with the number of switches that were prepared
  from an empty slot while another task was ready.
\<close>

inductive sched_reach :: "nat \<Rightarrow> Scheduler \<Rightarrow> bool" where
  sched_boot: "sched_reach 0 Scheduler_new"
| sched_add: "sched_reach n s \<Longrightarrow> Scheduler_add_task name prio s = Some (i, s') \<Longrightarrow> sched_reach n s'"
| sched_add_entry: "sched_reach n s \<Longrightarrow> Scheduler_add_task_with_entry name prio entry base s = Some (i, s') \<Longrightarrow> sched_reach n s'"
| sched_remove: "sched_reach n s \<Longrightarrow> sched_reach n (snd (Scheduler_remove_task i s))"
| sched_block: "sched_reach n s \<Longrightarrow> sched_reach n (snd (Scheduler_block_task i s))"
| sched_unblock: "sched_reach n s \<Longrightarrow> sched_reach n (snd (Scheduler_unblock_task i s))"
| sched_tick: "sched_reach n s \<Longrightarrow> sched_reach n (Scheduler_tick s)"
| sched_switch: "sched_reach n s \<Longrightarrow>
    sched_reach (if sc_tasks s ! sc_current s = None \<and> Scheduler_next_ready s \<noteq> None then n + 1 else n)
      (snd (Scheduler_prepare_switch s))"

lemma insert_task_ok:
  assumes "sched_ok s \<and> card (stray_running s) \<le> n" "insert_task mk s = Some (i, s')" "\<And>i. task_state (mk i) = Task_Ready"
  shows "sched_ok s' \<and> card (stray_running s') \<le> n"
proof -
  obtain k where "s' = s\<lparr>sc_next_id := sc_next_id s + 1, sc_tasks := (sc_tasks s)[k := Some (mk (sc_next_id s))]\<rparr>"
    using assms(2) by (auto simp: insert_task_def Let_def split: option.splits)
  then show ?thesis using stray_update [OF assms(1), of s' k "Some (mk (sc_next_id s))"] assms(3) by simp
qed

lemma sched_reach_ok: "sched_reach n s \<Longrightarrow> sched_ok s \<and> card (stray_running s) \<le> n"
proof (induction rule: sched_reach.induct)
  case (sched_add n s name prio i s')
  then show ?case using insert_task_ok [OF sched_add.IH, of _ i s'] by (fastforce simp: Scheduler_add_task_def Task_new_boot_def)
next
  case (sched_add_entry n s name prio entry base i s')
  then show ?case using insert_task_ok [OF sched_add_entry.IH, of _ i s']
    by (fastforce simp: Scheduler_add_task_with_entry_def Task_new_with_stack_def)
next
  case (sched_remove n s i)
  then show ?case using stray_update [OF sched_remove.IH, of _ _ None] by (simp add: Scheduler_remove_task_def split: option.split)
next
  case (sched_block n s i)
  show ?case unfolding Scheduler_block_task_def
    by (auto split: option.split intro!: stray_update [OF sched_block.IH, THEN conjunct1] stray_update [OF sched_block.IH, THEN conjunct2]
        simp: sched_block.IH)
next
  case (sched_unblock n s i)
  show ?case unfolding Scheduler_unblock_task_def
    by (auto split: option.split intro!: stray_update [OF sched_unblock.IH, THEN conjunct1] stray_update [OF sched_unblock.IH, THEN conjunct2]
        simp: sched_unblock.IH)
next
  case (sched_tick n s)
  then show ?case using sched_ok_tick card_mono [OF finite_stray stray_tick] by (meson order_trans)
next
  case (sched_switch n s)
  then show ?case using sched_ok_switch [of s] stray_switch [of s] by (auto split: if_splits)
qed (simp add: sched_ok_new stray_new)

text \<open>A running task away from the cursor is never selected again.\<close>

lemma stray_running_stays:
  assumes "sc_current s < MAX_TASKS" "length (sc_tasks s) = MAX_TASKS" "k < MAX_TASKS" "k \<noteq> sc_current s"
    "sc_tasks s ! k = Some t" "task_state t = Task_Running"
  shows "sc_tasks (Scheduler_tick s) ! k = Some t \<and> sc_current (Scheduler_tick s) \<noteq> k \<and>
    sc_current (Scheduler_tick s) < MAX_TASKS \<and> length (sc_tasks (Scheduler_tick s)) = MAX_TASKS"
proof -
  have p: "sc_tasks (preempted s) ! k = Some t" using assms by (simp add: preempted_def nth_update_slot)
  show ?thesis
  proof (cases "first_ready (preempted s) (Suc MAX_TASKS)")
    case None
    then show ?thesis using assms p by (simp add: tick_spec [OF assms(1)] Let_def) (simp add: preempted_def)
  next
    case (Some i)
    have "slot_at (sc_current s) i \<noteq> k"
      using first_ready_SomeD [OF Some] p assms(6) by (auto simp: slot_ready_def preempted_def)
    then show ?thesis using Some assms p MAX_TASKS_pos
      by (simp add: tick_spec [OF assms(1)] Let_def nth_update_slot)
  qed
qed

lemma stray_running_forever:
  assumes "sc_current s < MAX_TASKS" "length (sc_tasks s) = MAX_TASKS" "k < MAX_TASKS" "k \<noteq> sc_current s"
    "sc_tasks s ! k = Some t" "task_state t = Task_Running"
  shows "sc_tasks ((Scheduler_tick ^^ n) s) ! k = Some t \<and> sc_current ((Scheduler_tick ^^ n) s) \<noteq> k \<and>
    sc_current ((Scheduler_tick ^^ n) s) < MAX_TASKS \<and> length (sc_tasks ((Scheduler_tick ^^ n) s)) = MAX_TASKS"
proof (induction n)
  case 0
  with assms show ?case by simp
next
  case (Suc n)
  with stray_running_stays [of "(Scheduler_tick ^^ n) s" k t] assms(3,6) show ?case by simp
qed

section \<open>Properties\<close>

text \<open>
  C31. How many tasks run on the cooperative scheduler. In every reachable state the number of tasks
  that are in state running while the cursor is not on them is at most the number of switches that were
  prepared from an empty slot while another task was ready, each of which marks a task without moving the
  cursor to it. As long as there was no such switch, at most one task is running, the one under the cursor.
\<close>

theorem single_running_task:
  assumes "sched_reach n s"
  shows "card {k. k < MAX_TASKS \<and> k \<noteq> sc_current s \<and> (\<exists>t. sc_tasks s ! k = Some t \<and> task_state t = Task_Running)} \<le> n \<and>
    (n = 0 \<longrightarrow> (\<forall>k t. k < MAX_TASKS \<and> sc_tasks s ! k = Some t \<and> task_state t = Task_Running \<longrightarrow> k = sc_current s))"
proof -
  note ok = sched_reach_ok [OF assms]
  have "stray_running s = {}" if "n = 0" using ok that finite_stray [of s] by simp
  then show ?thesis using ok unfolding stray_running_def by blast
qed

definition demo_sched :: Scheduler where
  "demo_sched = Scheduler_tick (snd (the (Scheduler_add_task (ascii ''b'') Prio_Normal
     (snd (the (Scheduler_add_task (ascii ''a'') Prio_Normal Scheduler_new))))))"

lemma demo_sched_reach: "sched_reach 0 demo_sched"
  unfolding demo_sched_def
proof (rule sched_tick)
  let ?s1 = "snd (the (Scheduler_add_task (ascii ''a'') Prio_Normal Scheduler_new))"
  have a: "Scheduler_add_task (ascii ''a'') Prio_Normal Scheduler_new = Some (1, ?s1)"
    by (simp add: Scheduler_add_task_def insert_task_def Scheduler_new_def MAX_TASKS_def)
  have b: "Scheduler_add_task (ascii ''b'') Prio_Normal ?s1 = Some (2, snd (the (Scheduler_add_task (ascii ''b'') Prio_Normal ?s1)))"
    by (simp add: Scheduler_add_task_def insert_task_def Scheduler_new_def MAX_TASKS_def)
  show "sched_reach 0 (snd (the (Scheduler_add_task (ascii ''b'') Prio_Normal ?s1)))"
    by (rule sched_add [OF sched_add [OF sched_boot a] b])
qed

lemma demo_sched_slots:
  "map_option task_state (sc_tasks demo_sched ! 0) = Some Task_Ready"
  "map_option task_state (sc_tasks demo_sched ! 1) = Some Task_Running"
  by code_simp+

theorem single_running_task_witness:
  "\<exists>t. sc_tasks demo_sched ! 1 = Some t \<and> task_state t = Task_Running \<and> 1 = sc_current demo_sched"
proof -
  obtain u where u: "sc_tasks demo_sched ! 1 = Some u" "task_state u = Task_Running" using demo_sched_slots by auto
  have "(1 :: nat) < MAX_TASKS" by (simp add: MAX_TASKS_def)
  with single_running_task [OF demo_sched_reach] u show ?thesis by blast
qed

text \<open>
  C30. No ready task starves under the timer tick: in every reachable state, including those with stray tasks, a ready task is running,
  under the cursor and with one more tick accounted, after some number of ticks between 1 and 64.
\<close>

theorem ready_task_runs_within_64_ticks:
  assumes "sched_reach n' s" "k < MAX_TASKS" "sc_tasks s ! k = Some t" "task_state t = Task_Ready"
  shows "\<exists>n. 1 \<le> n \<and> n \<le> MAX_TASKS \<and> sc_current ((Scheduler_tick ^^ n) s) = k \<and>
    sc_tasks ((Scheduler_tick ^^ n) s) ! k = Some (run_task t)"
proof -
  have ok: "sched_ok s" using sched_reach_ok [OF assms(1)] by simp
  have c: "sc_current s < MAX_TASKS" using ok by (simp add: sched_ok_def)
  define d where "d = (if sc_current s < k then k - sc_current s else k + MAX_TASKS - sc_current s)"
  have "1 \<le> d" "d \<le> MAX_TASKS" "slot_at (sc_current s) d = k" using c assms(2) by (auto simp: d_def)
  with runs_within [OF ok, of d t] assms(3,4) show ?thesis by force
qed

theorem ready_task_runs_within_64_ticks_witness:
  "\<exists>n t. 1 \<le> n \<and> n \<le> MAX_TASKS \<and> sc_current ((Scheduler_tick ^^ n) demo_sched) = 0 \<and>
     sc_tasks ((Scheduler_tick ^^ n) demo_sched) ! 0 = Some (run_task t)"
proof -
  obtain t where t: "sc_tasks demo_sched ! 0 = Some t" "task_state t = Task_Ready" using demo_sched_slots by auto
  from ready_task_runs_within_64_ticks [OF demo_sched_reach MAX_TASKS_pos t] show ?thesis by blast
qed

text \<open>
  A switch from a freed slot loses a task: when the slot under the cursor is empty and another
  task is ready, preparing a switch reports that there is none, but has marked that task running
  without moving the cursor, and no number of later ticks ever selects it again.
\<close>

theorem prepare_switch_from_empty_slot_loses_task:
  assumes "sched_reach n' s" "sc_tasks s ! sc_current s = None" "Scheduler_next_ready s = Some k"
  shows "fst (Scheduler_prepare_switch s) = None \<and>
    (\<forall>n. let s' = (Scheduler_tick ^^ n) (snd (Scheduler_prepare_switch s))
         in sc_current s' \<noteq> k \<and> sc_tasks s' ! k = map_option run_task (sc_tasks s ! k))"
proof -
  have ok: "sched_ok s" using sched_reach_ok [OF assms(1)] by simp
  note k = next_ready_SomeD [OF ok assms(3)]
  obtain t where t: "sc_tasks s ! k = Some t" using k by auto
  have l: "length (sc_tasks s) = MAX_TASKS" "sc_current s < MAX_TASKS" using ok by (simp_all add: sched_ok_def)
  let ?s = "update_slot k run_task (preempted s)"
  have "sc_tasks ?s ! sc_current s = None" using l k assms(2) by (simp add: nth_update_slot preempted_def)
  then have p: "Scheduler_prepare_switch s = (None, ?s)"
    using assms(3) by (simp add: Scheduler_prepare_switch_def preempted_def Let_def)
  have "sc_tasks ?s ! k = Some (run_task t)" using k l t by (simp add: nth_update_slot preempted_def)
  moreover have "sc_current ?s = sc_current s" by (simp add: preempted_def)
  ultimately have "sc_tasks ((Scheduler_tick ^^ n) ?s) ! k = Some (run_task t) \<and> sc_current ((Scheduler_tick ^^ n) ?s) \<noteq> k" for n
    using stray_running_forever [of ?s k "run_task t" n] l k by (simp add: run_task_def)
  then show ?thesis using p t by (simp add: Let_def)
qed

theorem prepare_switch_from_empty_slot_loses_task_witness:
  "let s = snd (Scheduler_remove_task 2 demo_sched)
   in fst (Scheduler_prepare_switch s) = None \<and>
      (\<forall>n. sc_current ((Scheduler_tick ^^ n) (snd (Scheduler_prepare_switch s))) \<noteq> 0)"
proof -
  let ?s = "snd (Scheduler_remove_task 2 demo_sched)"
  have r: "sched_reach 0 ?s" by (rule sched_remove [OF demo_sched_reach])
  have e: "sc_tasks ?s ! sc_current ?s = None" by code_simp
  have "Scheduler_next_ready ?s = Some 0" by code_simp
  from prepare_switch_from_empty_slot_loses_task [OF r e this] show ?thesis by (simp add: Let_def)
qed

end
