(* ===== verification/Percpu.thy ===== *)
theory Percpu
  imports Multicore Scheduler
begin

text \<open>
  The global scheduling functions of \<^verbatim>\<open>src/kernel/src/sched.rs\<close>: the per-CPU scheduler
  slots and the functions that act on them together with the run-queue coordinator and the task
  table. The three statics are the fields of one state. A pointer to a saved context is the slot
  of the task or the idle context of a CPU. Operations that can reach the \<^verbatim>\<open>expect\<close> of a
  steal return \<open>None\<close> when it panics.
\<close>

section \<open>State\<close>

record CpuSchedulerSnapshot =
  cs_initialized :: bool
  cs_current_task :: "TaskId option"
  cs_saved_context :: TaskContext
  cs_context_switches :: u64
  cs_timer_ticks :: u64

definition CpuSchedulerSnapshot_new :: CpuSchedulerSnapshot where
  "CpuSchedulerSnapshot_new = \<lparr>cs_initialized = False, cs_current_task = None,
     cs_saved_context = TaskContext_empty, cs_context_switches = 0, cs_timer_ticks = 0\<rparr>"

record sched_state =
  ss_mc :: MultiCoreScheduler
  ss_sched :: Scheduler
  ss_percpu :: "CpuSchedulerSnapshot list"

definition PER_CPU_SCHEDULER :: "CpuSchedulerSnapshot list" where
  "PER_CPU_SCHEDULER = replicate MAX_CPUS CpuSchedulerSnapshot_new"

datatype context_ptr = Task_Context nat | Idle_Context nat

definition update_percpu :: "nat \<Rightarrow> (CpuSchedulerSnapshot \<Rightarrow> CpuSchedulerSnapshot) \<Rightarrow> sched_state \<Rightarrow> sched_state" where
  "update_percpu cpu f st =
     (if cpu < length (ss_percpu st) then st\<lparr>ss_percpu := (ss_percpu st)[cpu := f (ss_percpu st ! cpu)]\<rparr> else st)"

section \<open>Operations\<close>

definition init_cpu_scheduler :: "nat \<Rightarrow> sched_state \<Rightarrow> bool \<times> sched_state" where
  "init_cpu_scheduler cpu st =
     (if cpu < length (ss_percpu st)
      then (True, update_percpu cpu (\<lambda>_. CpuSchedulerSnapshot_new\<lparr>cs_initialized := True\<rparr>) st)
      else (False, st))"

definition configure_multicore :: "nat \<Rightarrow> sched_state \<Rightarrow> nat \<times> sched_state" where
  "configure_multicore cpu_count st =
     (case MultiCoreScheduler_configure cpu_count (ss_mc st) of
        (configured, mc) \<Rightarrow>
          (configured, fold (\<lambda>cpu st. snd (init_cpu_scheduler cpu st)) [0..<configured] (st\<lparr>ss_mc := mc\<rparr>)))"

definition enqueue_task :: "TaskId \<Rightarrow> sched_state \<Rightarrow> (nat, RunQueueError) result \<times> sched_state" where
  "enqueue_task tid st = (case MultiCoreScheduler_enqueue tid (ss_mc st) of (r, mc) \<Rightarrow> (r, st\<lparr>ss_mc := mc\<rparr>))"

definition enqueue_task_on_cpu :: "nat \<Rightarrow> TaskId \<Rightarrow> sched_state \<Rightarrow> (unit, RunQueueError) result \<times> sched_state" where
  "enqueue_task_on_cpu cpu tid st =
     (case MultiCoreScheduler_enqueue_on_cpu cpu tid (ss_mc st) of (r, mc) \<Rightarrow> (r, st\<lparr>ss_mc := mc\<rparr>))"

definition cpu_scheduler_snapshot :: "sched_state \<Rightarrow> nat \<Rightarrow> CpuSchedulerSnapshot option" where
  "cpu_scheduler_snapshot st cpu = (if cpu < length (ss_percpu st) then Some (ss_percpu st ! cpu) else None)"

definition cpu_scheduler_is_initialized :: "sched_state \<Rightarrow> nat \<Rightarrow> bool" where
  "cpu_scheduler_is_initialized st cpu =
     (case cpu_scheduler_snapshot st cpu of Some s \<Rightarrow> cs_initialized s | None \<Rightarrow> False)"

definition next_task_for_cpu :: "nat \<Rightarrow> sched_state \<Rightarrow> (TaskId option \<times> sched_state) option" where
  "next_task_for_cpu cpu st =
     (case MultiCoreScheduler_pick_next cpu (ss_mc st) of
        (Inr (Some t), mc) \<Rightarrow> Some (Some t, st\<lparr>ss_mc := mc\<rparr>)
      | (_, mc) \<Rightarrow>
          (case MultiCoreScheduler_steal cpu mc of
             None \<Rightarrow> None
           | Some (Inr t, mc) \<Rightarrow> Some (t, st\<lparr>ss_mc := mc\<rparr>)
           | Some (Inl _, mc) \<Rightarrow> Some (None, st\<lparr>ss_mc := mc\<rparr>)))"

definition dispatch_for_cpu :: "nat \<Rightarrow> sched_state \<Rightarrow> (DispatchResult \<times> sched_state) option" where
  "dispatch_for_cpu cpu st =
     (case MultiCoreScheduler_dispatch cpu (ss_mc st) of
        None \<Rightarrow> None
      | Some (result, mc) \<Rightarrow>
          (let st = st\<lparr>ss_mc := mc\<rparr>;
               enter = (\<lambda>tid. update_percpu cpu
                  (\<lambda>s. s\<lparr>cs_current_task := Some tid, cs_context_switches := cs_context_switches s + 1\<rparr>) st)
           in Some (result, case result of
                Dispatched tid \<Rightarrow> enter tid
              | Stole tid \<Rightarrow> enter tid
              | _ \<Rightarrow> st)))"

definition complete_for_cpu :: "nat \<Rightarrow> sched_state \<Rightarrow> TaskId option \<times> sched_state" where
  "complete_for_cpu cpu st =
     (case MultiCoreScheduler_complete cpu (ss_mc st) of
        (Inr (Some t), mc) \<Rightarrow>
          (Some t, update_percpu cpu (\<lambda>s. s\<lparr>cs_current_task := None\<rparr>) (st\<lparr>ss_mc := mc\<rparr>))
      | (_, mc) \<Rightarrow> (None, st\<lparr>ss_mc := mc\<rparr>))"

definition context_of_task :: "sched_state \<Rightarrow> nat \<Rightarrow> TaskId \<Rightarrow> context_ptr" where
  "context_of_task st cpu tid =
     (case Scheduler_task_context_ptr tid (ss_sched st) of
        Some k \<Rightarrow> Task_Context k
      | None \<Rightarrow> Idle_Context cpu)"

definition prepare_context_switch_for_cpu ::
  "nat \<Rightarrow> sched_state \<Rightarrow> ((context_ptr \<times> context_ptr) option \<times> sched_state) option" where
  "prepare_context_switch_for_cpu cpu st =
     (if \<not> cpu < length (ss_percpu st) then Some (None, st)
      else if \<not> cs_initialized (ss_percpu st ! cpu) then Some (None, st)
      else case MultiCoreScheduler_bounded_handoff cpu False (ss_mc st) of
        None \<Rightarrow> None
      | Some ((previous, result), mc) \<Rightarrow>
          (let st = st\<lparr>ss_mc := mc\<rparr>;
               old_ptr = (case previous of Some t \<Rightarrow> context_of_task st cpu t | None \<Rightarrow> Idle_Context cpu);
               enter = (\<lambda>next_id.
                 case Scheduler_task_context_ptr next_id (ss_sched st) of
                   None \<Rightarrow> Some (None, st\<lparr>ss_mc := snd (MultiCoreScheduler_complete cpu (ss_mc st))\<rparr>)
                 | Some k \<Rightarrow>
                     Some (Some (old_ptr, Task_Context k),
                       update_percpu cpu (\<lambda>s. s\<lparr>cs_current_task := Some next_id,
                         cs_context_switches := cs_context_switches s + 1\<rparr>) st))
           in case result of
                Busy _ \<Rightarrow> Some (None, st)
              | Disp_InvalidCpu \<Rightarrow> Some (None, st)
              | Dispatched next_id \<Rightarrow> enter next_id
              | Stole next_id \<Rightarrow> enter next_id
              | Disp_Idle \<Rightarrow>
                  if previous = None then Some (None, st)
                  else Some (Some (old_ptr, Idle_Context cpu),
                         update_percpu cpu (\<lambda>s. s\<lparr>cs_current_task := None,
                           cs_context_switches := cs_context_switches s + 1\<rparr>) st)))"

text \<open>
  The pair of contexts a voluntary yield hands to the assembly switch: the per-CPU handoff once the
  CPU's slot is initialised, the cursor of the task table before that.
\<close>

definition yield_current :: "nat \<Rightarrow> sched_state \<Rightarrow> ((context_ptr \<times> context_ptr) option \<times> sched_state) option" where
  "yield_current cpu st =
     (if cpu_scheduler_is_initialized st cpu then prepare_context_switch_for_cpu cpu st
      else case Scheduler_prepare_switch (ss_sched st) of
        (pair, s) \<Rightarrow> Some (map_option (map_prod Task_Context Task_Context) pair, st\<lparr>ss_sched := s\<rparr>))"

text \<open>
  A timer tick; \<open>sched_free\<close> tells whether the \<^verbatim>\<open>try_lock\<close> on the task table succeeds.
\<close>

definition timer_tick_for_cpu :: "nat \<Rightarrow> bool \<Rightarrow> sched_state \<Rightarrow> (DispatchResult \<times> sched_state) option" where
  "timer_tick_for_cpu cpu sched_free st =
     (if \<not> cpu < length (ss_percpu st) then Some (Disp_InvalidCpu, st)
      else let st = update_percpu cpu (\<lambda>s. s\<lparr>cs_timer_ticks := cs_timer_ticks s + 1\<rparr>) st;
               st = (if cpu = 0 \<and> sched_free then st\<lparr>ss_sched := Scheduler_tick (ss_sched st)\<rparr> else st)
           in case dispatch_for_cpu cpu st of
                None \<Rightarrow> None
              | Some (result, st) \<Rightarrow>
                  (case result of
                     Dispatched _ \<Rightarrow> Some (result, snd (complete_for_cpu cpu st))
                   | Stole _ \<Rightarrow> Some (result, snd (complete_for_cpu cpu st))
                   | _ \<Rightarrow> Some (result, st)))"

section \<open>Consistency of the two views of the running task\<close>

definition percpu_ok :: "sched_state \<Rightarrow> bool" where
  "percpu_ok st \<longleftrightarrow> mc_ok (ss_mc st) \<and> length (ss_percpu st) = MAX_CPUS"

lemma update_percpu_simps [simp]:
  "ss_mc (update_percpu cpu f st) = ss_mc st" "ss_sched (update_percpu cpu f st) = ss_sched st"
  "length (ss_percpu (update_percpu cpu f st)) = length (ss_percpu st)"
  by (simp_all add: update_percpu_def)

lemma handoff_spec:
  assumes "mc_ok m" "cpu < mc_cpu_count m"
  obtains (leave) t m' where "rt_current (mc_runtime m ! cpu) = Some t"
      "MultiCoreScheduler_bounded_handoff cpu False m = Some ((Some t, Disp_Idle), m')" "mc_ok m'"
      "rt_current (mc_runtime m' ! cpu) = None"
  | (enter) t m' where "rt_current (mc_runtime m ! cpu) = None"
      "MultiCoreScheduler_bounded_handoff cpu False m = Some ((None, Dispatched t), m')" "mc_ok m'"
      "rt_current (mc_runtime m' ! cpu) = Some t" "mc_owned m' = mc_owned m"
      "t \<in> set (rq_contents (mc_queues m ! cpu))"
  | (idle) m' where "rt_current (mc_runtime m ! cpu) = None"
      "MultiCoreScheduler_bounded_handoff cpu False m = Some ((None, Disp_Idle), m')" "mc_ok m'"
proof (cases "rt_current (mc_runtime m ! cpu)")
  case (Some t)
  have "rt_current (mc_runtime (snd (MultiCoreScheduler_complete cpu m)) ! cpu) = None"
    using assms mc_ok_facts(1,3) [OF assms(1)] Some
    by (auto simp: MultiCoreScheduler_complete_def Let_def split: prod.splits sum.splits)
  then show ?thesis using leave [of t "snd (MultiCoreScheduler_complete cpu m)"] Some assms complete_ok [OF assms(1)]
    by (simp add: MultiCoreScheduler_bounded_handoff_def)
next
  case None
  obtain r m' where d: "MultiCoreScheduler_dispatch_excluding_mode cpu None False m = Some (r, m')" "mc_ok m'"
    "mc_owned m' = mc_owned m" using dispatch_spec [OF assms(1), of cpu False] by auto
  have h: "MultiCoreScheduler_bounded_handoff cpu False m = Some ((None, r), m')"
    using d None assms(2) by (simp add: MultiCoreScheduler_bounded_handoff_def)
  obtain sel q where p: "CpuRunQueue_pop_next_excluding None (mc_queues m ! cpu) = (sel, q)" by fastforce
  show ?thesis
  proof (cases sel)
    case (Some t)
    have r: "r = Dispatched t" "rt_current (mc_runtime m' ! cpu) = Some t"
      using d(1) None p Some assms mc_ok_facts(1,3) [OF assms(1)]
      by (auto simp: MultiCoreScheduler_dispatch_excluding_mode_def start_running_def Let_def)
    have "t \<in> set (rq_contents (mc_queues m ! cpu))"
      using pop_excluding_spec(1) [OF mc_queue_ok [OF assms], of None] p Some by (simp add: pop_result_def)
    with enter None h d r show ?thesis by simp
  next
    case sel: None
    have "r = Disp_Idle" using d(1) None p sel assms(2) by (simp add: MultiCoreScheduler_dispatch_excluding_mode_def Let_def)
    with idle None h d show ?thesis by simp
  qed
qed

text \<open>A configuration with one initialised CPU and two tasks, of which the given one is queued.\<close>

definition demo_percpu :: "McOp list \<Rightarrow> sched_state" where
  "demo_percpu ops = snd (init_cpu_scheduler 0
     \<lparr>ss_mc = the (mc_run ops MultiCoreScheduler_new), ss_sched = demo_sched, ss_percpu = PER_CPU_SCHEDULER\<rparr>)"

lemma demo_percpu_ok: "mc_ok (ss_mc (demo_percpu ops))" "length (ss_percpu (demo_percpu ops)) = MAX_CPUS"
  using mc_run_ok [OF mc_ok_initial, of ops]
  by (auto simp: demo_percpu_def init_cpu_scheduler_def PER_CPU_SCHEDULER_def)

section \<open>Properties\<close>

text \<open>
  C32. A context handoff is bounded and consistent: when one is prepared for a CPU, either an idle CPU
  enters one task of its own queue, whose saved context is the one selected and which is then the
  running task in both views of that CPU; or the running task leaves, both views become idle, and
  the CPU's idle context is selected, the task's registers being saved in its own slot. When the task
  that leaves has been removed from the task table in the meantime there is no such slot, and the
  registers are saved in the idle context that is selected as well.
\<close>

theorem context_handoff_consistent:
  assumes "mc_ok (ss_mc st)" "cpu < mc_cpu_count (ss_mc st)"
    "prepare_context_switch_for_cpu cpu st = Some (Some (old, new), st')"
  shows "mc_ok (ss_mc st') \<and>
    cs_current_task (ss_percpu st' ! cpu) = rt_current (mc_runtime (ss_mc st') ! cpu) \<and>
    (case rt_current (mc_runtime (ss_mc st) ! cpu) of
       None \<Rightarrow> \<exists>t k. t \<in> set (rq_contents (mc_queues (ss_mc st) ! cpu)) \<and>
         rt_current (mc_runtime (ss_mc st') ! cpu) = Some t \<and>
         Scheduler_task_context_ptr t (ss_sched st) = Some k \<and> old = Idle_Context cpu \<and> new = Task_Context k
     | Some t \<Rightarrow> rt_current (mc_runtime (ss_mc st') ! cpu) = None \<and> new = Idle_Context cpu \<and>
         old = (case Scheduler_task_context_ptr t (ss_sched st) of Some k \<Rightarrow> Task_Context k | None \<Rightarrow> Idle_Context cpu))"
  using assms(3)
  by (cases rule: handoff_spec [OF assms(1,2)])
    (auto simp: prepare_context_switch_for_cpu_def context_of_task_def update_percpu_def Let_def
      split: if_splits option.splits)

theorem context_handoff_consistent_witness:
  "\<exists>st'. prepare_context_switch_for_cpu 0 (demo_percpu [Mc_EnqueueOn 0 2]) =
       Some (Some (Idle_Context 0, Task_Context 1), st') \<and>
     cs_current_task (ss_percpu st' ! 0) = rt_current (mc_runtime (ss_mc st') ! 0)"
proof -
  let ?st = "demo_percpu [Mc_EnqueueOn 0 2]"
  have "map_option fst (prepare_context_switch_for_cpu 0 ?st) = Some (Some (Idle_Context 0, Task_Context 1))"
    by code_simp
  then obtain st' where p: "prepare_context_switch_for_cpu 0 ?st = Some (Some (Idle_Context 0, Task_Context 1), st')"
    by (auto simp: map_option_case split: option.splits)
  have c: "0 < mc_cpu_count (ss_mc ?st)" "rt_current (mc_runtime (ss_mc ?st) ! 0) = None" by code_simp+
  from context_handoff_consistent [OF demo_percpu_ok(1) c(1) p] c(2) p show ?thesis by simp
qed

text \<open>
  A removed task keeps the CPU: if the running task of an initialised CPU is no longer in the
  task table, the prepared switch both saves to and restores from the CPU's idle context, so the
  processor continues in the removed task and the saved idle continuation is overwritten.
\<close>

theorem handoff_of_removed_task_overwrites_idle_context:
  assumes "mc_ok (ss_mc st)" "cpu < mc_cpu_count (ss_mc st)" "length (ss_percpu st) = MAX_CPUS"
    "cs_initialized (ss_percpu st ! cpu)" "rt_current (mc_runtime (ss_mc st) ! cpu) = Some t"
    "Scheduler_task_context_ptr t (ss_sched st) = None"
  shows "\<exists>st'. prepare_context_switch_for_cpu cpu st = Some (Some (Idle_Context cpu, Idle_Context cpu), st')"
proof -
  have "cpu < length (ss_percpu st)" using assms(2,3) mc_ok_facts(1) [OF assms(1)] by simp
  then show ?thesis
    by (cases rule: handoff_spec [OF assms(1,2)])
      (use assms(4-) in \<open>auto simp: prepare_context_switch_for_cpu_def context_of_task_def Let_def\<close>)
qed

theorem handoff_of_removed_task_overwrites_idle_context_witness:
  "\<exists>st'. prepare_context_switch_for_cpu 0 (demo_percpu [Mc_EnqueueOn 0 3, Mc_Dispatch 0]) =
     Some (Some (Idle_Context 0, Idle_Context 0), st')"
  by (rule handoff_of_removed_task_overwrites_idle_context [OF demo_percpu_ok(1) _ demo_percpu_ok(2), where t = 3]; code_simp)

end
