(* ===== verification/Dispatch.thy ===== *)
theory Dispatch
  imports Cap_Service Signals Percpu
begin

text \<open>
  The system-call dispatcher of \<^verbatim>\<open>src/kernel/src/syscall.rs\<close>: identity capture,
  authorization, the handlers, the audit event of every call, and signal delivery on the way
  back to user mode. The kernel's global tables are the fields of one state; \<open>k_user\<close> is the
  saved user frame that lies 48 bytes above the \<^verbatim>\<open>SyscallContext\<close> on the kernel stack. The
  logical CPU that \<^verbatim>\<open>smp::current_cpu_index\<close> reads from the local APIC is an argument.
\<close>

section \<open>State\<close>

record kernel =
  k_sched :: sched_state
  k_procs :: ProcessTable
  k_caps :: CapabilityManager
  k_signals :: SignalManager
  k_log :: AuditLog
  k_user :: UserContext

section \<open>Identity and authorization\<close>

fun capability_bits :: "CapabilityPermission \<Rightarrow> CapPermissions" where
  "capability_bits Perm_Read = CapPermissions_READ"
| "capability_bits Perm_Write = CapPermissions_WRITE"
| "capability_bits Perm_Execute = CapPermissions_EXECUTE"
| "capability_bits Perm_Grant = CapPermissions_GRANT"
| "capability_bits Perm_Revoke = CapPermissions_REVOKE"
| "capability_bits Perm_IpcSend = CapPermissions_IPC_SEND"
| "capability_bits Perm_IpcRecv = CapPermissions_IPC_RECV"
| "capability_bits Perm_BraneConnect = CapPermissions_BRANE_CONNECT"
| "capability_bits Perm_BraneDiscover = CapPermissions_BRANE_DISCOVER"
| "capability_bits Perm_ProcessCreate = CapPermissions_PROCESS_CREATE"
| "capability_bits Perm_ProcessSignal = CapPermissions_PROCESS_SIGNAL"
| "capability_bits Perm_MemoryMap = CapPermissions_MEMORY_MAP"
| "capability_bits Perm_BraneSend = CapPermissions_BRANE_SEND"
| "capability_bits Perm_BraneRecv = CapPermissions_BRANE_RECV"

definition resolve_capability_scope ::
  "kernel \<Rightarrow> CapabilityRequirement \<Rightarrow> CallerContext \<Rightarrow> SyscallContext \<Rightarrow> (CapScope, SyscallError) result" where
  "resolve_capability_scope k requirement caller ctx =
     (let target = (case ProcessTable_get_task_id_by_pid (k_procs k) (ctx_arg1 ctx) of
            Some tid \<Rightarrow> Ok (Cap_Process tid)
          | None \<Rightarrow> Err PermissionDenied)
      in case req_scope requirement of
           Scope_System \<Rightarrow> Ok Cap_System
         | Scope_SelfProcess \<Rightarrow> Ok (Cap_Process (caller_task_id caller))
         | Scope_VfsService \<Rightarrow> Ok (Cap_Service VFS_SERVICE_ID)
         | Scope_TargetProcess \<Rightarrow> target
         | Scope_DestinationProcess \<Rightarrow> target
         | Scope_BraneTarget \<Rightarrow> Ok (Cap_Brane (ctx_arg1 ctx)))"

definition check_capability ::
  "kernel \<Rightarrow> CapabilityRequirement \<Rightarrow> CallerContext \<Rightarrow> SyscallContext \<Rightarrow> (CapabilityId, SyscallError) result" where
  "check_capability k requirement caller ctx =
     (case resolve_capability_scope k requirement caller ctx of
        Inl e \<Rightarrow> Err e
      | Inr scope \<Rightarrow>
          (case CapabilityManager_check (k_caps k) (caller_task_id caller)
                  (capability_bits (req_permission requirement)) scope of
             Inr cid \<Rightarrow> Ok cid
           | Inl _ \<Rightarrow> Err PermissionDenied))"

definition target_is_self_or_child :: "kernel \<Rightarrow> CallerContext \<Rightarrow> SyscallContext \<Rightarrow> bool" where
  "target_is_self_or_child k caller ctx =
     ProcessTable_is_self_or_child (k_procs k) (caller_pid caller) (ctx_arg1 ctx)"

definition authorize ::
  "kernel \<Rightarrow> AuthorizationRule \<Rightarrow> CallerContext \<Rightarrow> SyscallContext \<Rightarrow> (CapabilityId option, SyscallError) result" where
  "authorize k rule caller ctx =
     (let check = (\<lambda>requirement.
            case check_capability k requirement caller ctx of Inl e \<Rightarrow> Err e | Inr cid \<Rightarrow> Ok (Some cid))
      in case rule of
           Auth_Public \<Rightarrow> Ok None
         | Auth_SelfOnly \<Rightarrow> Ok None
         | Auth_SelfOrChild \<Rightarrow> if target_is_self_or_child k caller ctx then Ok None else Err PermissionDenied
         | Auth_Capability requirement \<Rightarrow> check requirement
         | Auth_SelfOrCapability requirement \<Rightarrow>
             if ctx_arg1 ctx = caller_pid caller then Ok None else check requirement
         | Auth_SelfOrChildOrCapability requirement \<Rightarrow>
             if target_is_self_or_child k caller ctx then Ok None else check requirement
         | Auth_DualCapability first second \<Rightarrow>
             (case check_capability k first caller ctx of
                Inl e \<Rightarrow> Err e
              | Inr first_id \<Rightarrow>
                  (case check_capability k second caller ctx of
                     Inl e \<Rightarrow> Err e
                   | Inr _ \<Rightarrow> Ok (Some first_id)))
         | Auth_HandleOwner \<Rightarrow> Err PermissionDenied
         | Auth_Deny \<Rightarrow> Err PermissionDenied)"

definition capture_caller_context_for_cpu :: "nat \<Rightarrow> kernel \<Rightarrow> CallerContext option" where
  "capture_caller_context_for_cpu cpu k =
     (if cpu \<ge> MAX_CPUS then None
      else case cpu_scheduler_snapshot (k_sched k) cpu of
        None \<Rightarrow> None
      | Some state \<Rightarrow>
          (case (if cs_initialized state then cs_current_task state
                 else if cpu = 0 then Scheduler_current_task_id (ss_sched (k_sched k))
                 else None) of
             None \<Rightarrow> None
           | Some tid \<Rightarrow>
               (case ProcessTable_get_pid_by_task_id (k_procs k) tid of
                  None \<Rightarrow> None
                | Some pid \<Rightarrow> Some \<lparr>caller_task_id = tid, caller_pid = pid, caller_cpu_id = of_nat cpu\<rparr>)))"

section \<open>Handlers\<close>

definition handle_exit :: "kernel \<Rightarrow> SyscallResult \<times> kernel" where
  "handle_exit k = (SysOk 0, k)"

definition handle_yield :: "kernel \<Rightarrow> SyscallResult \<times> kernel" where
  "handle_yield k =
     (SysOk 0, k\<lparr>k_sched := (k_sched k)\<lparr>ss_sched := Scheduler_tick (ss_sched (k_sched k))\<rparr>\<rparr>)"

definition handle_getpid :: "CallerContext \<Rightarrow> SyscallResult" where
  "handle_getpid caller = SysOk (caller_pid caller)"

definition handle_write :: "SyscallContext \<Rightarrow> SyscallResult" where
  "handle_write ctx = (if ctx_arg1 ctx \<noteq> 1 then SysErr InvalidArgument else SysOk (ctx_arg3 ctx))"

definition handle_ipc_send :: "SyscallContext \<Rightarrow> SyscallResult" where
  "handle_ipc_send ctx = SysOk 0"

definition handle_ipc_recv :: "SyscallContext \<Rightarrow> SyscallResult" where
  "handle_ipc_recv ctx = SysErr NoMessage"

definition handle_get_time :: "kernel \<Rightarrow> SyscallResult" where
  "handle_get_time k = SysOk (Scheduler_total_ticks (ss_sched (k_sched k)))"

definition handle_get_system_info :: "kernel \<Rightarrow> SyscallResult" where
  "handle_get_system_info k = SysOk (of_nat (Scheduler_active_count (ss_sched (k_sched k))))"

definition handle_kill :: "SyscallContext \<Rightarrow> kernel \<Rightarrow> SyscallResult \<times> kernel" where
  "handle_kill ctx k =
     (case Signal_try_from (ucast (ctx_arg2 ctx)) of
        Inr sig \<Rightarrow>
          (case SignalManager_send (ctx_arg1 ctx) sig (k_procs k) of
             (Inr _, t) \<Rightarrow> (SysOk 0, k\<lparr>k_procs := t\<rparr>)
           | (Inl _, t) \<Rightarrow> (SysErr NotFound, k\<lparr>k_procs := t\<rparr>))
      | Inl _ \<Rightarrow> (SysErr InvalidArgument, k))"

definition handle_sigaction :: "SyscallContext \<Rightarrow> CallerContext \<Rightarrow> kernel \<Rightarrow> SyscallResult \<times> kernel" where
  "handle_sigaction ctx caller k =
     (case Signal_try_from (ucast (ctx_arg1 ctx)) of
        Inr sig \<Rightarrow>
          (let handler_addr = ctx_arg2 ctx;
               action = (if handler_addr = 0 then Action_Default
                         else if handler_addr = 1 then Action_Ignore
                         else Action_Handler handler_addr)
           in case SignalManager_set_action (k_procs k) (caller_pid caller) sig action (k_signals k) of
                (Inr _, m) \<Rightarrow> (SysOk 0, k\<lparr>k_signals := m\<rparr>)
              | (Inl _, m) \<Rightarrow> (SysErr InvalidArgument, k\<lparr>k_signals := m\<rparr>))
      | Inl _ \<Rightarrow> (SysErr InvalidArgument, k))"

definition handle_sigreturn :: "CallerContext \<Rightarrow> kernel \<Rightarrow> SyscallResult \<times> kernel" where
  "handle_sigreturn caller k =
     (case ProcessTable_get (k_procs k) (caller_pid caller) of
        Some p \<Rightarrow>
          (case proc_saved_context p of
             Some saved \<Rightarrow>
               (SysOk (uc_rax saved),
                k\<lparr>k_procs := ProcessTable_modify (caller_pid caller) (\<lambda>p. p\<lparr>proc_saved_context := None\<rparr>) (k_procs k),
                  k_user := saved\<rparr>)
           | None \<Rightarrow> (SysErr InvalidArgument, k))
      | None \<Rightarrow> (SysErr NotFound, k))"

definition sigprocmask_new :: "u64 \<Rightarrow> u64 \<Rightarrow> u64 \<Rightarrow> u64 option" where
  "sigprocmask_new how set_arg old_mask =
     (if how = 1 then Some (old_mask OR set_arg)
      else if how = 2 then Some (old_mask AND NOT set_arg)
      else if how = 3 then Some set_arg
      else None)"

definition cannot_block :: u64 where
  "cannot_block = push_bit (Signal_number Sig_Kill) 1 OR push_bit (Signal_number Sig_Stop) 1"

definition handle_sigprocmask :: "SyscallContext \<Rightarrow> CallerContext \<Rightarrow> kernel \<Rightarrow> SyscallResult \<times> kernel" where
  "handle_sigprocmask ctx caller k =
     (case ProcessTable_get (k_procs k) (caller_pid caller) of
        Some p \<Rightarrow>
          (let old_mask = proc_signal_blocked p
           in case sigprocmask_new (ctx_arg1 ctx) (ctx_arg2 ctx) old_mask of
                None \<Rightarrow> (SysErr InvalidArgument, k)
              | Some m \<Rightarrow>
                  (SysOk old_mask,
                   k\<lparr>k_procs := ProcessTable_modify (caller_pid caller)
                       (\<lambda>p. p\<lparr>proc_signal_blocked := m AND NOT cannot_block\<rparr>) (k_procs k)\<rparr>))
      | None \<Rightarrow> (SysErr NotFound, k))"

section \<open>The dispatcher\<close>

fun audit_result :: "SyscallResult \<Rightarrow> AuditResult" where
  "audit_result (SysOk _) = Audit_Success"
| "audit_result (SysErr e) = (if e = PermissionDenied then Audit_Denied else Audit_Error (SyscallError_code e))"

definition snapshot_tick_cpu :: "nat \<Rightarrow> kernel \<Rightarrow> tick_cpu" where
  "snapshot_tick_cpu cpu k = (Scheduler_total_ticks (ss_sched (k_sched k)), of_nat cpu)"

text \<open>The audit event of a call, and the entry accounting of a resolved caller.\<close>

definition audit_syscall ::
  "nat \<Rightarrow> CallerContext option \<Rightarrow> u64 \<Rightarrow> AuditClass option \<Rightarrow> CapabilityId option \<Rightarrow> SyscallResult \<Rightarrow> kernel \<Rightarrow> kernel" where
  "audit_syscall cpu caller number class capability_used result k =
     k\<lparr>k_log := log_syscall (snapshot_tick_cpu cpu k) caller number class capability_used (audit_result result) (k_log k)\<rparr>"

definition account_syscall :: "CallerContext option \<Rightarrow> kernel \<Rightarrow> kernel" where
  "account_syscall caller k =
     (case caller of
        Some c \<Rightarrow> k\<lparr>k_procs := ProcessTable_modify (caller_pid c)
            (\<lambda>p. p\<lparr>proc_syscall_count := saturating_add (proc_syscall_count p) 1\<rparr>) (k_procs k)\<rparr>
      | None \<Rightarrow> k)"

definition run_handler :: "SyscallNumber \<Rightarrow> SyscallContext \<Rightarrow> CallerContext \<Rightarrow> kernel \<Rightarrow> SyscallResult \<times> kernel" where
  "run_handler syscall ctx caller k =
     (case syscall of
        Sys_Exit \<Rightarrow> handle_exit k
      | Sys_Yield \<Rightarrow> handle_yield k
      | Sys_GetPid \<Rightarrow> (handle_getpid caller, k)
      | Sys_Write \<Rightarrow> (handle_write ctx, k)
      | Sys_Send \<Rightarrow> (handle_ipc_send ctx, k)
      | Sys_Recv \<Rightarrow> (handle_ipc_recv ctx, k)
      | Sys_GetTime \<Rightarrow> (handle_get_time k, k)
      | Sys_GetSystemInfo \<Rightarrow> (handle_get_system_info k, k)
      | Sys_Kill \<Rightarrow> handle_kill ctx k
      | Sys_SigAction \<Rightarrow> handle_sigaction ctx caller k
      | Sys_SigReturn \<Rightarrow> handle_sigreturn caller k
      | Sys_SigProcMask \<Rightarrow> handle_sigprocmask ctx caller k
      | _ \<Rightarrow> (SysErr InvalidSyscall, k))"

definition deliver_signals :: "SyscallNumber \<Rightarrow> CallerContext \<Rightarrow> SyscallResult \<Rightarrow> kernel \<Rightarrow> SyscallResult \<times> kernel" where
  "deliver_signals syscall caller result k =
     (if syscall = Sys_Exit \<or> syscall = Sys_SigReturn then (result, k)
      else case SignalManager_deliver_pending (k_signals k) (caller_pid caller) (k_procs k) of
        (None, t) \<Rightarrow> (result, k\<lparr>k_procs := t\<rparr>)
      | (Some (sig, handler_addr), t) \<Rightarrow>
          (SysOk 0,
           k\<lparr>k_procs := ProcessTable_modify (caller_pid caller)
               (\<lambda>p. p\<lparr>proc_saved_context := Some ((k_user k)\<lparr>uc_rax := SyscallResult_to_raw result\<rparr>)\<rparr>) t,
             k_user := (k_user k)\<lparr>uc_rcx := handler_addr, uc_rdi := of_nat (Signal_number sig)\<rparr>\<rparr>))"

definition dispatch :: "nat \<Rightarrow> SyscallContext \<Rightarrow> kernel \<Rightarrow> SyscallResult \<times> kernel" where
  "dispatch cpu ctx k =
     (let caller = capture_caller_context_for_cpu cpu k;
          k = account_syscall caller k
      in case SyscallNumber_from_raw (ctx_number ctx) of
           None \<Rightarrow>
             (let result = SysErr InvalidSyscall
              in (result, audit_syscall cpu caller (ctx_number ctx) None None result k))
         | Some syscall \<Rightarrow>
             (case syscall_spec syscall of
                None \<Rightarrow>
                  (let result = SysErr InvalidSyscall
                   in (result, audit_syscall cpu caller (SyscallNumber_raw syscall) None None result k))
              | Some sp \<Rightarrow>
                  let log = (\<lambda>caller. audit_syscall cpu caller (SyscallNumber_raw syscall) (Some (spec_audit_class sp)))
                  in if spec_state sp = Unimplemented then
                       (let result = SysErr InvalidSyscall in (result, log caller None result k))
                     else case caller of
                       None \<Rightarrow> (let result = SysErr Internal in (result, log None None result k))
                     | Some caller \<Rightarrow>
                         (case authorize k (spec_authorization sp) caller ctx of
                            Inl error \<Rightarrow>
                              (let result = SysErr error in (result, log (Some caller) None result k))
                          | Inr capability_used \<Rightarrow>
                              (case run_handler syscall ctx caller k of
                                 (result, k) \<Rightarrow>
                                   deliver_signals syscall caller result
                                     (log (Some caller) capability_used result k)))))"

section \<open>Specification vocabulary\<close>

text \<open>What a rule demands, stated over the tables and not over the code's control flow.\<close>

fun scope_for :: "kernel \<Rightarrow> CapabilityScope \<Rightarrow> CallerContext \<Rightarrow> u64 \<Rightarrow> CapScope option" where
  "scope_for k Scope_System caller target = Some Cap_System"
| "scope_for k Scope_SelfProcess caller target = Some (Cap_Process (caller_task_id caller))"
| "scope_for k Scope_VfsService caller target = Some (Cap_Service 1)"
| "scope_for k Scope_TargetProcess caller target =
     map_option (\<lambda>p. Cap_Process (proc_scheduler_task p)) (ProcessTable_get (k_procs k) target)"
| "scope_for k Scope_DestinationProcess caller target =
     map_option (\<lambda>p. Cap_Process (proc_scheduler_task p)) (ProcessTable_get (k_procs k) target)"
| "scope_for k Scope_BraneTarget caller target = Some (Cap_Brane target)"

definition holds_requirement :: "kernel \<Rightarrow> CapabilityRequirement \<Rightarrow> CallerContext \<Rightarrow> u64 \<Rightarrow> bool" where
  "holds_requirement k req caller target \<longleftrightarrow>
     (\<exists>scope. scope_for k (req_scope req) caller target = Some scope \<and>
        holds_authority (k_caps k) (caller_task_id caller) (capability_bits (req_permission req)) scope)"

definition self_or_child :: "kernel \<Rightarrow> CallerContext \<Rightarrow> u64 \<Rightarrow> bool" where
  "self_or_child k caller target \<longleftrightarrow> target = caller_pid caller \<or>
     (\<exists>p. ProcessTable_get (k_procs k) target = Some p \<and> proc_parent_pid p = Some (caller_pid caller))"

fun permitted :: "kernel \<Rightarrow> CallerContext \<Rightarrow> u64 \<Rightarrow> AuthorizationRule \<Rightarrow> bool" where
  "permitted k caller target Auth_Public = True"
| "permitted k caller target Auth_SelfOnly = True"
| "permitted k caller target Auth_SelfOrChild = self_or_child k caller target"
| "permitted k caller target (Auth_Capability r) = holds_requirement k r caller target"
| "permitted k caller target (Auth_SelfOrCapability r) =
     (target = caller_pid caller \<or> holds_requirement k r caller target)"
| "permitted k caller target (Auth_SelfOrChildOrCapability r) =
     (self_or_child k caller target \<or> holds_requirement k r caller target)"
| "permitted k caller target (Auth_DualCapability r1 r2) =
     (holds_requirement k r1 caller target \<and> holds_requirement k r2 caller target)"
| "permitted k caller target Auth_HandleOwner = False"
| "permitted k caller target Auth_Deny = False"

definition known_call :: "SyscallContext \<Rightarrow> bool" where
  "known_call ctx \<longleftrightarrow> (\<exists>sp \<in> set SYSCALL_SPECS. SyscallNumber_raw (spec_number sp) = ctx_number ctx \<and>
     spec_state sp \<noteq> Unimplemented)"

definition call_permitted :: "nat \<Rightarrow> SyscallContext \<Rightarrow> kernel \<Rightarrow> bool" where
  "call_permitted cpu ctx k \<longleftrightarrow>
     (\<exists>sp \<in> set SYSCALL_SPECS. SyscallNumber_raw (spec_number sp) = ctx_number ctx \<and>
        spec_state sp \<noteq> Unimplemented \<and>
        (\<exists>caller. capture_caller_context_for_cpu cpu k = Some caller \<and>
           permitted k caller (ctx_arg1 ctx) (spec_authorization sp)))"

section \<open>Authorization decides permission\<close>

lemma resolve_scope: "resolve_capability_scope k req caller ctx =
    (case scope_for k (req_scope req) caller (ctx_arg1 ctx) of Some s \<Rightarrow> Ok s | None \<Rightarrow> Err PermissionDenied)"
  by (cases "req_scope req")
    (auto simp: resolve_capability_scope_def ProcessTable_get_task_id_by_pid_def VFS_SERVICE_ID_def Let_def
      split: option.splits)

lemma check_capability_iff:
  "is_ok (check_capability k req caller ctx) \<longleftrightarrow> holds_requirement k req caller (ctx_arg1 ctx)"
proof (cases "scope_for k (req_scope req) caller (ctx_arg1 ctx)")
  case (Some sc)
  then show ?thesis
    using check_iff_holds [of "k_caps k" "caller_task_id caller" "capability_bits (req_permission req)" sc]
    by (auto simp: check_capability_def resolve_scope holds_requirement_def is_ok_def split: sum.splits)
qed (simp add: check_capability_def resolve_scope holds_requirement_def is_ok_def)

lemma check_capability_Inl: "check_capability k req caller ctx = Inl e \<Longrightarrow> e = PermissionDenied"
  by (auto simp: check_capability_def resolve_scope split: option.splits sum.splits)

lemma check_capability_InrD:
  "check_capability k req caller ctx = Inr cid \<Longrightarrow>
   \<exists>c \<in> set (flatten (cm_capabilities (k_caps k))). cap_id c = cid \<and> cap_owner c = caller_task_id caller"
  by (auto simp: check_capability_def dest!: check_Ok_D split: sum.splits)

lemma target_is_self_or_child_iff:
  "target_is_self_or_child k caller ctx \<longleftrightarrow> self_or_child k caller (ctx_arg1 ctx)"
  by (auto simp: target_is_self_or_child_def self_or_child_def ProcessTable_is_self_or_child_def bind_eq_Some_conv)

lemma authorize_iff: "is_ok (authorize k rule caller ctx) \<longleftrightarrow> permitted k caller (ctx_arg1 ctx) rule"
proof -
  have c: "(\<exists>x. check_capability k req caller ctx = Inr x) \<longleftrightarrow> holds_requirement k req caller (ctx_arg1 ctx)" for req
    using check_capability_iff [of k req caller ctx] by (auto simp: is_ok_def split: sum.splits)
  show ?thesis
    by (cases rule)
      (auto simp: authorize_def target_is_self_or_child_iff is_ok_def c [symmetric] split: sum.splits)
qed

lemma authorize_Inl: "authorize k rule caller ctx = Inl e \<Longrightarrow> e = PermissionDenied"
  by (cases rule) (auto simp: authorize_def dest: check_capability_Inl split: sum.splits if_splits)

lemma authorize_capability:
  "authorize k rule caller ctx = Inr (Some cid) \<Longrightarrow>
   \<exists>c \<in> set (flatten (cm_capabilities (k_caps k))). cap_id c = cid \<and> cap_owner c = caller_task_id caller"
  by (cases rule) (auto simp: authorize_def Let_def dest: check_capability_InrD split: sum.splits if_splits)

section \<open>The cases of a dispatch\<close>

lemma account_simps [simp]:
  "k_sched (account_syscall c k) = k_sched k" "k_caps (account_syscall c k) = k_caps k"
  "k_signals (account_syscall c k) = k_signals k" "k_log (account_syscall c k) = k_log k"
  "k_user (account_syscall c k) = k_user k"
  by (simp_all add: account_syscall_def split: option.splits)

lemma audit_simps [simp]:
  "k_sched (audit_syscall cpu c n cl cu r k) = k_sched k" "k_caps (audit_syscall cpu c n cl cu r k) = k_caps k"
  "k_signals (audit_syscall cpu c n cl cu r k) = k_signals k" "k_procs (audit_syscall cpu c n cl cu r k) = k_procs k"
  "k_user (audit_syscall cpu c n cl cu r k) = k_user k"
  by (simp_all add: audit_syscall_def)

lemma get_account:
  "ProcessTable_get (k_procs (account_syscall c k)) pid =
     map_option (\<lambda>p. if map_option caller_pid c = Some pid
       then p\<lparr>proc_syscall_count := saturating_add (proc_syscall_count p) 1\<rparr> else p) (ProcessTable_get (k_procs k) pid)"
  by (cases "ProcessTable_get (k_procs k) pid") (auto simp: account_syscall_def pstore.get_modify split: option.splits)

lemma scope_for_account [simp]: "scope_for (account_syscall c k) sc caller target = scope_for k sc caller target"
  by (cases sc) (simp_all add: get_account option.map_comp o_def if_distrib cong: if_cong)

lemma permitted_account [simp]: "permitted (account_syscall c k) caller target rule = permitted k caller target rule"
proof -
  have "self_or_child (account_syscall c k) caller target = self_or_child k caller target"
    by (cases "ProcessTable_get (k_procs k) target") (simp_all add: self_or_child_def get_account)
  then show ?thesis by (cases rule) (simp_all add: holds_requirement_def)
qed

lemma raw_eq_iff: "SyscallNumber_raw a = SyscallNumber_raw b \<longleftrightarrow> a = b"
  by (metis SyscallNumber_from_raw_raw option.inject)

lemma syscall_spec_iff: "syscall_spec n = Some sp \<longleftrightarrow> sp \<in> set SYSCALL_SPECS \<and> spec_number sp = n"
proof
  assume sp: "sp \<in> set SYSCALL_SPECS \<and> spec_number sp = n"
  have d: "distinct (map spec_number SYSCALL_SPECS)" using spec_numbers distinct_ALL by simp
  from sp have "n \<in> spec_number ` set SYSCALL_SPECS" by blast
  from find_unique_by [OF d this] obtain x where
    x: "List.find (\<lambda>z. spec_number z = n) SYSCALL_SPECS = Some x" "spec_number x = n" by auto
  have "x \<in> set SYSCALL_SPECS" using find_SomeD [OF x(1)] by simp
  with sp x(2) d have "x = sp" by (metis distinct_map inj_onD)
  with x(1) show "syscall_spec n = Some sp" by (simp add: syscall_spec_def)
qed (auto simp: syscall_spec_def dest: find_SomeD)

lemma entry_of_number:
  assumes n: "SyscallNumber_raw n = ctx_number ctx"
  obtains sp where "syscall_spec n = Some sp" "known_call ctx \<longleftrightarrow> spec_state sp \<noteq> Unimplemented"
    "call_permitted cpu ctx k \<longleftrightarrow> spec_state sp \<noteq> Unimplemented \<and>
       (\<exists>caller. capture_caller_context_for_cpu cpu k = Some caller \<and> permitted k caller (ctx_arg1 ctx) (spec_authorization sp))"
proof -
  have "n \<in> spec_number ` set SYSCALL_SPECS" using in_ALL spec_numbers by (metis set_map)
  then obtain sp where sp: "syscall_spec n = Some sp" by (auto simp: syscall_spec_iff)
  have spn: "spec_number sp = n" "sp \<in> set SYSCALL_SPECS" using sp by (simp_all add: syscall_spec_iff)
  have uniq: "sp' = sp" if "sp' \<in> set SYSCALL_SPECS" "SyscallNumber_raw (spec_number sp') = ctx_number ctx" for sp'
  proof -
    have "spec_number sp' = n" using that(2) n raw_eq_iff by metis
    with that(1) sp show ?thesis using syscall_spec_iff [of n sp'] by simp
  qed
  show thesis
  proof (rule that [OF sp])
    show "known_call ctx \<longleftrightarrow> spec_state sp \<noteq> Unimplemented"
      unfolding known_call_def using spn n uniq by blast
    show "call_permitted cpu ctx k \<longleftrightarrow> spec_state sp \<noteq> Unimplemented \<and>
       (\<exists>caller. capture_caller_context_for_cpu cpu k = Some caller \<and> permitted k caller (ctx_arg1 ctx) (spec_authorization sp))"
      unfolding call_permitted_def using spn n uniq by blast
  qed
qed

lemma dispatch_cases:
  obtains (rejected) e cls where "\<not> call_permitted cpu ctx k"
      "e = (if \<not> known_call ctx then InvalidSyscall
            else if capture_caller_context_for_cpu cpu k = None then Internal else PermissionDenied)"
      "dispatch cpu ctx k = (SysErr e, audit_syscall cpu (capture_caller_context_for_cpu cpu k) (ctx_number ctx) cls None
         (SysErr e) (account_syscall (capture_caller_context_for_cpu cpu k) k))"
  | (admitted) caller n cls used r k1 where "call_permitted cpu ctx k"
      "capture_caller_context_for_cpu cpu k = Some caller" "SyscallNumber_raw n = ctx_number ctx"
      "run_handler n ctx caller (account_syscall (Some caller) k) = (r, k1)"
      "\<And>cid. used = Some cid \<Longrightarrow> \<exists>c \<in> set (flatten (cm_capabilities (k_caps k))). cap_id c = cid \<and> cap_owner c = caller_task_id caller"
      "dispatch cpu ctx k = deliver_signals n caller r
         (audit_syscall cpu (Some caller) (ctx_number ctx) (Some cls) used r k1)"
proof -
  let ?c = "capture_caller_context_for_cpu cpu k"
  let ?k = "account_syscall ?c k"
  show ?thesis
  proof (cases "SyscallNumber_from_raw (ctx_number ctx)")
    case None
    then have "\<not> known_call ctx" "\<not> call_permitted cpu ctx k"
      by (auto simp: known_call_def call_permitted_def dest!: arg_cong [of _ "ctx_number ctx" SyscallNumber_from_raw])
    then show ?thesis using None by (intro rejected [of InvalidSyscall None]) (simp_all add: dispatch_def Let_def)
  next
    case (Some n)
    then have n: "SyscallNumber_raw n = ctx_number ctx" by (rule SyscallNumber_from_raw_SomeD)
    obtain sp where sp: "syscall_spec n = Some sp" and known: "known_call ctx \<longleftrightarrow> spec_state sp \<noteq> Unimplemented"
      and perm: "call_permitted cpu ctx k \<longleftrightarrow> spec_state sp \<noteq> Unimplemented \<and>
        (\<exists>caller. ?c = Some caller \<and> permitted k caller (ctx_arg1 ctx) (spec_authorization sp))"
      by (rule entry_of_number [OF n])
    consider "spec_state sp = Unimplemented" | "spec_state sp \<noteq> Unimplemented" "?c = None"
      | caller e where "spec_state sp \<noteq> Unimplemented" "?c = Some caller"
          "authorize ?k (spec_authorization sp) caller ctx = Inl e"
      | caller used where "spec_state sp \<noteq> Unimplemented" "?c = Some caller"
          "authorize ?k (spec_authorization sp) caller ctx = Inr used"
      by (metis option.exhaust sum.exhaust)
    then show ?thesis
    proof cases
      case 1
      then show ?thesis using Some sp known perm n
        by (intro rejected [of InvalidSyscall "Some (spec_audit_class sp)"]) (simp_all add: dispatch_def Let_def)
    next
      case 2
      then show ?thesis using Some sp known perm n
        by (intro rejected [of Internal "Some (spec_audit_class sp)"]) (simp_all add: dispatch_def Let_def)
    next
      case (3 caller e)
      then have "e = PermissionDenied" using authorize_Inl by blast
      moreover have "\<not> permitted k caller (ctx_arg1 ctx) (spec_authorization sp)"
        using authorize_iff [of ?k "spec_authorization sp" caller ctx] 3 by (simp add: is_ok_def)
      ultimately show ?thesis using Some sp known perm n 3
        by (intro rejected [of e "Some (spec_audit_class sp)"]) (simp_all add: dispatch_def Let_def)
    next
      case (4 caller used)
      obtain r k1 where h: "run_handler n ctx caller ?k = (r, k1)" by fastforce
      have "permitted k caller (ctx_arg1 ctx) (spec_authorization sp)"
        using authorize_iff [of ?k "spec_authorization sp" caller ctx] 4 by (simp add: is_ok_def)
      then show ?thesis using Some sp known perm n h 4 authorize_capability [of ?k "spec_authorization sp" caller ctx]
        by (intro admitted [of caller n r k1 used "spec_audit_class sp"]) (simp_all add: dispatch_def Let_def)
    qed
  qed
qed

section \<open>Invariants of the kernel state\<close>

text \<open>
  The process table is well formed, \<^verbatim>\<open>SIGKILL\<close> and \<^verbatim>\<open>SIGSTOP\<close> keep their default action and
  no process blocks them.
\<close>

definition uncatchable_unblocked :: "Process \<Rightarrow> bool" where
  "uncatchable_unblocked p \<longleftrightarrow>
     \<not> bit (proc_signal_blocked p) (Signal_number Sig_Kill) \<and> \<not> bit (proc_signal_blocked p) (Signal_number Sig_Stop)"

definition sig_inv :: "kernel \<Rightarrow> bool" where
  "sig_inv k \<longleftrightarrow> procs_ok (k_procs k) \<and> uncatchable_default (k_signals k) \<and>
     (\<forall>pid p. ProcessTable_get (k_procs k) pid = Some p \<longrightarrow> uncatchable_unblocked p)"

lemma sig_inv_modify:
  assumes "sig_inv k" "\<And>p. proc_pid (f p) = proc_pid p"
    "\<And>p. uncatchable_unblocked p \<Longrightarrow> uncatchable_unblocked (f p)"
  shows "sig_inv (k\<lparr>k_procs := ProcessTable_modify pid f (k_procs k)\<rparr>)"
  using assms by (auto simp: sig_inv_def procs_ok_modify pstore.get_modify)

lemma sig_inv_cong:
  "k_procs k' = k_procs k \<Longrightarrow> k_signals k' = k_signals k \<Longrightarrow> sig_inv k' = sig_inv k"
  by (simp add: sig_inv_def)

lemma sig_inv_account: "sig_inv k \<Longrightarrow> sig_inv (account_syscall c k)"
  by (auto simp: account_syscall_def uncatchable_unblocked_def split: option.splits intro!: sig_inv_modify)

lemma sig_inv_audit: "sig_inv k \<Longrightarrow> sig_inv (audit_syscall cpu c n cl cu r k)"
  by (simp add: sig_inv_def)

lemma procs_ok_clear: "procs_ok t \<Longrightarrow> procs_ok (SignalManager_clear_pending pid s t)"
  by (simp add: SignalManager_clear_pending_def procs_ok_modify)

lemma procs_ok_terminate: "procs_ok t \<Longrightarrow> procs_ok (snd (ProcessTable_terminate pid c t))"
  by (simp add: ProcessTable_terminate_def procs_ok_modify split: option.splits)

lemma procs_ok_deliver_loop: "procs_ok t \<Longrightarrow> procs_ok (snd (deliver_loop mgr pid msk sigs t))"
proof (induction sigs arbitrary: t)
  case (Cons s sigs)
  then show ?case
    by (cases "SignalManager_get_action mgr t pid s") (auto simp: Let_def procs_ok_clear procs_ok_terminate)
qed simp

lemma procs_ok_deliver: "procs_ok t \<Longrightarrow> procs_ok (snd (SignalManager_deliver_pending mgr pid t))"
  by (simp add: SignalManager_deliver_pending_def Let_def procs_ok_deliver_loop)

lemma after_decision_blocked [simp]: "proc_signal_blocked (after_decision act d p) = proc_signal_blocked p"
  by (simp add: after_decision_def split: option.splits disposition.splits)

lemma sig_inv_deliver:
  assumes "sig_inv k"
  shows "sig_inv (k\<lparr>k_procs := snd (SignalManager_deliver_pending (k_signals k) pid (k_procs k))\<rparr>)"
proof -
  note d = deliver_pending_spec [of "k_signals k" "k_procs k" pid]
  have "uncatchable_unblocked p'"
    if "ProcessTable_get (snd (SignalManager_deliver_pending (k_signals k) pid (k_procs k))) j = Some p'" for j p'
    using that d assms
    by (cases "j = pid"; cases "ProcessTable_get (k_procs k) pid")
      (auto simp: delivery_def sig_inv_def uncatchable_unblocked_def)
  then show ?thesis using assms procs_ok_deliver by (simp add: sig_inv_def)
qed

lemma sig_inv_deliver_signals:
  assumes "sig_inv k"
  shows "sig_inv (snd (deliver_signals n caller r k))"
proof -
  obtain res t where d: "SignalManager_deliver_pending (k_signals k) (caller_pid caller) (k_procs k) = (res, t)" by fastforce
  let ?f = "\<lambda>p. p\<lparr>proc_saved_context := Some ((k_user k)\<lparr>uc_rax := SyscallResult_to_raw r\<rparr>)\<rparr>"
  have t: "sig_inv (k\<lparr>k_procs := t\<rparr>)" using sig_inv_deliver [OF assms, of "caller_pid caller"] d by simp
  from sig_inv_modify [OF t, of ?f "caller_pid caller"]
  have "sig_inv (k\<lparr>k_procs := ProcessTable_modify (caller_pid caller) ?f t, k_user := u\<rparr>)" for u
    by (simp add: sig_inv_def uncatchable_unblocked_def)
  with t assms d show ?thesis by (auto simp: deliver_signals_def split: option.splits)
qed

lemma bits_cannot_block: "\<not> bit (w AND NOT cannot_block) 9" "\<not> bit (w AND NOT cannot_block) 19"
  by (simp_all add: cannot_block_def bit_simps)

lemma sig_inv_send: "sig_inv k \<Longrightarrow> sig_inv (k\<lparr>k_procs := snd (SignalManager_send pid sig (k_procs k))\<rparr>)"
  using sig_inv_modify [of k "\<lambda>p. p\<lparr>proc_signal_pending := proc_signal_pending p OR sig_bit sig\<rparr>" pid]
  by (auto simp: SignalManager_send_def uncatchable_unblocked_def split: option.splits)

lemma sig_inv_run_handler:
  assumes "sig_inv k"
  shows "sig_inv (snd (run_handler n ctx caller k))"
proof -
  have kill: "sig_inv (snd (handle_kill ctx k))"
    using assms sig_inv_send [OF assms, of "ctx_arg1 ctx"]
    by (auto simp: handle_kill_def split: sum.splits prod.splits) (metis snd_conv)+
  have action: "sig_inv (snd (handle_sigaction ctx caller k))"
    using assms uncatchable_set_action [of "k_signals k" "k_procs k"]
    by (auto simp: handle_sigaction_def sig_inv_def Let_def split: sum.splits prod.splits) (metis snd_conv)+
  have ret: "sig_inv (snd (handle_sigreturn caller k))"
    using assms sig_inv_modify [OF assms, of "\<lambda>p. p\<lparr>proc_saved_context := None\<rparr>" "caller_pid caller"]
    by (auto simp: handle_sigreturn_def sig_inv_def uncatchable_unblocked_def split: option.splits)
  have msk: "sig_inv (snd (handle_sigprocmask ctx caller k))"
    using assms sig_inv_modify [OF assms, of "\<lambda>p. p\<lparr>proc_signal_blocked := _ AND NOT cannot_block\<rparr>" "caller_pid caller"]
      bits_cannot_block
    by (auto simp: handle_sigprocmask_def uncatchable_unblocked_def Let_def split: option.splits)
  show ?thesis using assms kill action ret msk sig_inv_cong
    by (cases n) (simp_all add: run_handler_def handle_exit_def handle_yield_def sig_inv_def)
qed

lemma sig_inv_dispatch:
  assumes "sig_inv k"
  shows "sig_inv (snd (dispatch cpu ctx k))"
proof (cases rule: dispatch_cases [of cpu ctx k])
  case (rejected e cls)
  then show ?thesis by (simp add: sig_inv_audit sig_inv_account assms)
next
  case (admitted caller n cls used r k1)
  have "sig_inv k1" using sig_inv_run_handler [OF sig_inv_account [OF assms], of n ctx caller] admitted(4) by (metis snd_conv)
  then show ?thesis using admitted(6) by (simp add: sig_inv_deliver_signals sig_inv_audit)
qed

section \<open>Reachable kernel states\<close>

text \<open>
  Address-space bookkeeping and the other operations of the process table that leave the masks alone.
\<close>

lemma sig_inv_with_address_space: "sig_inv k \<Longrightarrow> sig_inv (k\<lparr>k_procs := snd (with_address_space pid f (k_procs k))\<rparr>)"
  by (auto simp: with_address_space_def uncatchable_unblocked_def split: option.splits prod.splits intro!: sig_inv_modify)

lemma sig_inv_process_table:
  assumes "sig_inv k"
  shows "sig_inv (k\<lparr>k_procs := snd (ProcessTable_start pid (k_procs k))\<rparr>)"
    "sig_inv (k\<lparr>k_procs := snd (ProcessTable_terminate pid code (k_procs k))\<rparr>)"
    "sig_inv (k\<lparr>k_procs := SignalManager_clear_pending pid sig (k_procs k)\<rparr>)"
  using assms
  by (auto simp: ProcessTable_start_def ProcessTable_terminate_def SignalManager_clear_pending_def uncatchable_unblocked_def
      split: option.splits intro!: sig_inv_modify)

text \<open>
  Steps are system calls on any CPU, any activity of user mode and of the scheduler, every operation of
  the process table and of the signal manager (processes are created while identifiers last), and any
  change of the capabilities and of the audit log.
\<close>

inductive kernel_reach :: "kernel \<Rightarrow> bool" where
  kernel_boot: "kernel_reach \<lparr>k_sched = s, k_procs = ProcessTable_new, k_caps = c, k_signals = SignalManager_new,
     k_log = l, k_user = u\<rparr>"
| kernel_syscall: "kernel_reach k \<Longrightarrow> kernel_reach (snd (dispatch cpu ctx k))"
| kernel_user: "kernel_reach k \<Longrightarrow> kernel_reach (k\<lparr>k_user := u\<rparr>)"
| kernel_sched: "kernel_reach k \<Longrightarrow> kernel_reach (k\<lparr>k_sched := s\<rparr>)"
| kernel_caps: "kernel_reach k \<Longrightarrow> kernel_reach (k\<lparr>k_caps := c\<rparr>)"
| kernel_log: "kernel_reach k \<Longrightarrow> kernel_reach (k\<lparr>k_log := l\<rparr>)"
| kernel_create: "kernel_reach k \<Longrightarrow> ProcessTable_create x (k_procs k) = Some (pid, t) \<Longrightarrow>
    pt_next_pid (k_procs k) \<noteq> - 1 \<Longrightarrow> kernel_reach (k\<lparr>k_procs := t\<rparr>)"
| kernel_start: "kernel_reach k \<Longrightarrow> kernel_reach (k\<lparr>k_procs := snd (ProcessTable_start pid (k_procs k))\<rparr>)"
| kernel_terminate: "kernel_reach k \<Longrightarrow> kernel_reach (k\<lparr>k_procs := snd (ProcessTable_terminate pid code (k_procs k))\<rparr>)"
| kernel_pin: "kernel_reach k \<Longrightarrow> kernel_reach (k\<lparr>k_procs := snd (ProcessTable_pin_address_space pid (k_procs k))\<rparr>)"
| kernel_release: "kernel_reach k \<Longrightarrow> kernel_reach (k\<lparr>k_procs := snd (ProcessTable_release_address_space_pin pin (k_procs k))\<rparr>)"
| kernel_bump: "kernel_reach k \<Longrightarrow> kernel_reach (k\<lparr>k_procs := snd (ProcessTable_bump_address_space_generation pid (k_procs k))\<rparr>)"
| kernel_send: "kernel_reach k \<Longrightarrow> kernel_reach (k\<lparr>k_procs := snd (SignalManager_send pid sig (k_procs k))\<rparr>)"
| kernel_action: "kernel_reach k \<Longrightarrow>
    kernel_reach (k\<lparr>k_signals := snd (SignalManager_set_action (k_procs k) pid sig act (k_signals k))\<rparr>)"
| kernel_clear: "kernel_reach k \<Longrightarrow> kernel_reach (k\<lparr>k_procs := SignalManager_clear_pending pid sig (k_procs k)\<rparr>)"
| kernel_deliver: "kernel_reach k \<Longrightarrow>
    kernel_reach (k\<lparr>k_procs := snd (SignalManager_deliver_pending (k_signals k) pid (k_procs k))\<rparr>)"

lemma sig_inv_reach: "kernel_reach k \<Longrightarrow> sig_inv k"
proof (induction rule: kernel_reach.induct)
  case (kernel_boot s c l u)
  show ?case by (simp add: sig_inv_def procs_ok_new uncatchable_new) (simp add: ProcessTable_get_def ProcessTable_new_def)
next
  case (kernel_create k x pid t)
  have ok: "procs_ok (k_procs k)" using kernel_create.IH by (simp add: sig_inv_def)
  have tab: "table_ok proc_pid (pt_next_pid (k_procs k)) (pt_processes (k_procs k))" using ok by (simp add: procs_ok_def)
  have "procs_ok t" using procs_ok_create [OF ok kernel_create.hyps(3,2)] by simp
  moreover have "uncatchable_unblocked p'" if "ProcessTable_get t j = Some p'" for j p'
    using that kernel_create.IH procs.add_lookup [OF tab kernel_create.hyps(2), of j]
    by (auto simp: ProcessTable_get_eq [symmetric] sig_inv_def uncatchable_unblocked_def new_process_def
        split: if_splits prod.splits)
  ultimately show ?case using kernel_create.IH by (simp add: sig_inv_def)
next
  case (kernel_send k pid sig)
  show ?case by (rule sig_inv_send [OF kernel_send.IH])
next
  case (kernel_action k pid sig act)
  then show ?case by (simp add: sig_inv_def uncatchable_set_action)
next
  case (kernel_deliver k pid)
  show ?case by (rule sig_inv_deliver [OF kernel_deliver.IH])
qed (simp_all only: sig_inv_dispatch sig_inv_process_table sig_inv_with_address_space ProcessTable_pin_address_space_def
    ProcessTable_release_address_space_pin_def ProcessTable_bump_address_space_generation_def,
  simp_all add: sig_inv_def)

section \<open>Identity across a call\<close>

lemma get_pid_by_task_id_modify:
  assumes "\<And>p. proc_pid (f p) = proc_pid p \<and> proc_scheduler_task (f p) = proc_scheduler_task p \<and> proc_state (f p) = proc_state p"
  shows "ProcessTable_get_pid_by_task_id (ProcessTable_modify pid f t) task = ProcessTable_get_pid_by_task_id t task"
proof -
  let ?h = "\<lambda>p. (proc_pid p, proc_scheduler_task p, proc_state p)"
  let ?g = "\<lambda>(i, t, s). t = task \<and> s \<noteq> Proc_Terminated \<and> s \<noteq> Proc_Zombie"
  have eq: "map proc_pid (filter (\<lambda>p. proc_scheduler_task p = task \<and> proc_live p) xs) = map fst (filter ?g (map ?h xs))" for xs
    by (induction xs) (auto simp: proc_live_def)
  have "map ?h (flatten (modify_id proc_pid pid f (pt_processes t))) = map ?h (flatten (pt_processes t))"
    by (rule map_flatten_modify_id) (simp add: assms)
  then show ?thesis by (simp add: ProcessTable_get_pid_by_task_id_def ProcessTable_modify_def eq)
qed

lemma capture_get:
  assumes "capture_caller_context_for_cpu cpu k = Some caller"
  obtains p where "ProcessTable_get (k_procs k) (caller_pid caller) = Some p"
proof -
  obtain tid where "ProcessTable_get_pid_by_task_id (k_procs k) tid = Some (caller_pid caller)"
    using assms by (auto simp: capture_caller_context_for_cpu_def split: option.splits if_splits)
  then obtain p where p: "filter (\<lambda>p. proc_scheduler_task p = tid \<and> proc_live p) (flatten (pt_processes (k_procs k))) = [p]"
    "proc_pid p = caller_pid caller"
    unfolding get_pid_by_task_id_iff by blast
  have "p \<in> set (filter (\<lambda>p. proc_scheduler_task p = tid \<and> proc_live p) (flatten (pt_processes (k_procs k))))"
    unfolding p(1) by simp
  then have "caller_pid caller \<in> proc_pid ` set (flatten (pt_processes (k_procs k)))" unfolding p(2) [symmetric] by simp
  then have "ProcessTable_get (k_procs k) (caller_pid caller) \<noteq> None"
    unfolding ProcessTable_get_eq lookup_id_None_iff by simp
  with that show ?thesis by auto
qed

lemma capture_cong:
  assumes "k_sched k' = k_sched k" "\<And>task. ProcessTable_get_pid_by_task_id (k_procs k') task = ProcessTable_get_pid_by_task_id (k_procs k) task"
  shows "capture_caller_context_for_cpu cpu k' = capture_caller_context_for_cpu cpu k"
proof -
  have "ProcessTable_get_pid_by_task_id (k_procs k') = ProcessTable_get_pid_by_task_id (k_procs k)"
    by (rule ext) (rule assms(2))
  then show ?thesis unfolding capture_caller_context_for_cpu_def assms(1) by (rule arg_cong)
qed

lemma capture_account [simp]: "capture_caller_context_for_cpu cpu (account_syscall c k) = capture_caller_context_for_cpu cpu k"
  by (rule capture_cong) (auto simp: account_syscall_def get_pid_by_task_id_modify split: option.splits)

section \<open>Returning from a handler\<close>

lemma sigreturn_permitted:
  assumes "ctx_number ctx = SyscallNumber_raw Sys_SigReturn" "capture_caller_context_for_cpu cpu k = Some caller"
  shows "call_permitted cpu ctx k"
  unfolding call_permitted_def
  by (rule bexI [of _ "mk_spec Sys_SigReturn Partial Auth_SelfOnly Class_Signal MAX_COPY_NONE"])
    (use assms in \<open>simp_all add: mk_spec_def SYSCALL_SPECS_defs\<close>)

lemma sigreturn_dispatch:
  assumes "ctx_number ctx = SyscallNumber_raw Sys_SigReturn" "capture_caller_context_for_cpu cpu k = Some caller"
    "ProcessTable_get (k_procs k) (caller_pid caller) = Some p"
  shows "case proc_saved_context p of
      Some saved \<Rightarrow> \<exists>k'. dispatch cpu ctx k = (SysOk (uc_rax saved), k') \<and> k_user k' = saved \<and>
        capture_caller_context_for_cpu cpu k' = Some caller \<and>
        (\<exists>p'. ProcessTable_get (k_procs k') (caller_pid caller) = Some p' \<and> proc_saved_context p' = None)
    | None \<Rightarrow> fst (dispatch cpu ctx k) = SysErr InvalidArgument"
proof (cases rule: dispatch_cases [of cpu ctx k])
  case (rejected e cls)
  with sigreturn_permitted [OF assms(1,2)] show ?thesis by simp
next
  case (admitted caller' n cls used r k1)
  let ?k = "account_syscall (Some caller) k"
  let ?p = "p\<lparr>proc_syscall_count := saturating_add (proc_syscall_count p) 1\<rparr>"
  have n: "n = Sys_SigReturn" using admitted(3) assms(1) raw_eq_iff by metis
  have c: "caller' = caller" using admitted(2) assms(2) by simp
  have g: "ProcessTable_get (k_procs ?k) (caller_pid caller) = Some ?p" by (simp add: get_account assms(3))
  have d: "dispatch cpu ctx k = (r, audit_syscall cpu (Some caller) (ctx_number ctx) (Some cls) used r k1)"
    using admitted(6) n c by (simp add: deliver_signals_def)
  have h: "handle_sigreturn caller ?k = (r, k1)" using admitted(4) n c by (simp add: run_handler_def)
  show ?thesis
  proof (cases "proc_saved_context p")
    case None
    with h g d show ?thesis by (auto simp: handle_sigreturn_def)
  next
    case (Some saved)
    let ?t = "ProcessTable_modify (caller_pid caller) (\<lambda>p. p\<lparr>proc_saved_context := None\<rparr>) (k_procs ?k)"
    have r: "r = SysOk (uc_rax saved)" "k1 = ?k\<lparr>k_procs := ?t, k_user := saved\<rparr>"
      using h g Some by (simp_all add: handle_sigreturn_def)
    have "capture_caller_context_for_cpu cpu (audit_syscall cpu (Some caller) (ctx_number ctx) (Some cls) used r k1) =
        capture_caller_context_for_cpu cpu ?k"
      by (rule capture_cong) (simp_all add: r(2) get_pid_by_task_id_modify)
    with Some d r g assms(2) show ?thesis by (simp add: pstore.get_modify)
  qed
qed

lemma capture_user [simp]: "capture_caller_context_for_cpu cpu (k\<lparr>k_user := u\<rparr>) = capture_caller_context_for_cpu cpu k"
  by (rule capture_cong) simp_all

lemma user_run_handler: "n \<noteq> Sys_SigReturn \<Longrightarrow> k_user (snd (run_handler n ctx caller k)) = k_user k"
  by (cases n)
    (auto simp: run_handler_def handle_exit_def handle_yield_def handle_kill_def handle_sigaction_def
      handle_sigprocmask_def Let_def split: sum.splits option.splits prod.splits)

lemma get_deliver_present:
  "ProcessTable_get t pid = Some p \<Longrightarrow> \<exists>p'. ProcessTable_get (snd (SignalManager_deliver_pending mgr pid t)) pid = Some p'"
  using deliver_pending_spec [of mgr t pid] by (simp add: delivery_def)

lemma deliver_signals_handler:
  assumes "deliver_signals n caller r0 k = (r, k')" "k_user k' \<noteq> k_user k"
    "ProcessTable_get (k_procs k) (caller_pid caller) = Some p"
  shows "\<exists>sig h p'. r = SysOk 0 \<and> k_user k' = (k_user k)\<lparr>uc_rcx := h, uc_rdi := of_nat (Signal_number sig)\<rparr> \<and>
    ProcessTable_get (k_procs k') (caller_pid caller) = Some p' \<and>
    proc_saved_context p' = Some ((k_user k)\<lparr>uc_rax := SyscallResult_to_raw r0\<rparr>)"
proof -
  obtain res t where d: "SignalManager_deliver_pending (k_signals k) (caller_pid caller) (k_procs k) = (res, t)" by fastforce
  obtain p1 where p1: "ProcessTable_get t (caller_pid caller) = Some p1"
    using get_deliver_present [OF assms(3), of "k_signals k"] d by auto
  show ?thesis
  proof (cases res)
    case None
    with assms d show ?thesis by (auto simp: deliver_signals_def split: if_splits)
  next
    case (Some x)
    obtain sig h where x: "x = (sig, h)" by fastforce
    let ?f = "\<lambda>p. p\<lparr>proc_saved_context := Some ((k_user k)\<lparr>uc_rax := SyscallResult_to_raw r0\<rparr>)\<rparr>"
    let ?u = "(k_user k)\<lparr>uc_rcx := h, uc_rdi := of_nat (Signal_number sig)\<rparr>"
    have k': "r = SysOk 0" "k' = k\<lparr>k_procs := ProcessTable_modify (caller_pid caller) ?f t, k_user := ?u\<rparr>"
      using assms(1,2) d Some x by (auto simp: deliver_signals_def split: if_splits)
    show ?thesis
      by (intro exI [of _ sig] exI [of _ h] exI [of _ "?f p1"]) (simp add: k' pstore.get_modify p1)
  qed
qed

lemma get_run_handler_present:
  "ProcessTable_get (k_procs k) pid = Some p \<Longrightarrow> \<exists>p'. ProcessTable_get (k_procs (snd (run_handler n ctx caller k))) pid = Some p'"
  by (cases n)
    (auto simp: run_handler_def handle_exit_def handle_yield_def handle_kill_def handle_sigaction_def SignalManager_send_def
      handle_sigprocmask_def handle_sigreturn_def Let_def pstore.get_modify split: sum.splits option.splits prod.splits)

lemma dispatch_enters_handler:
  assumes "capture_caller_context_for_cpu cpu k = Some caller" "dispatch cpu ctx k = (r, k1)" "k_user k1 \<noteq> k_user k"
    "SyscallNumber_raw n = ctx_number ctx" "n \<noteq> Sys_SigReturn"
    "r0 = fst (run_handler n ctx caller (account_syscall (Some caller) k))"
  shows "\<exists>sig h p'. r = SysOk 0 \<and> k_user k1 = (k_user k)\<lparr>uc_rcx := h, uc_rdi := of_nat (Signal_number sig)\<rparr> \<and>
    ProcessTable_get (k_procs k1) (caller_pid caller) = Some p' \<and>
    proc_saved_context p' = Some ((k_user k)\<lparr>uc_rax := SyscallResult_to_raw r0\<rparr>)"
proof (cases rule: dispatch_cases [of cpu ctx k])
  case (rejected e cls)
  then have "k_user k1 = k_user k" using assms(2) by (metis account_simps(5) audit_simps(5) snd_conv)
  with assms(3) show ?thesis by simp
next
  case (admitted caller' n' cls used r' k')
  have n: "n' = n" using admitted(3) assms(4) raw_eq_iff by metis
  have c: "caller' = caller" using admitted(2) assms(1) by simp
  have r: "r' = r0" using admitted(4) assms(6) n c by simp
  have u: "k_user k' = k_user k"
    using user_run_handler [OF assms(5), of ctx caller "account_syscall (Some caller) k"] admitted(4) n c by simp
  obtain p where p: "ProcessTable_get (k_procs k) (caller_pid caller) = Some p" using capture_get [OF assms(1)] .
  obtain p' where "ProcessTable_get (k_procs k') (caller_pid caller) = Some p'"
    using get_run_handler_present [of "account_syscall (Some caller) k" "caller_pid caller" _ n ctx caller]
      admitted(4) n c p by (auto simp: get_account)
  with deliver_signals_handler [of n caller r0 "audit_syscall cpu (Some caller) (ctx_number ctx) (Some cls) used r0 k'" r k1]
    admitted(6) assms(2,3) n c r u show ?thesis by simp
qed

lemma pending_run_handler:
  assumes "ProcessTable_get (k_procs k) pid = Some p" "bit (proc_signal_pending p) (Signal_number s)"
  shows "\<exists>p'. ProcessTable_get (k_procs (snd (run_handler n ctx caller k))) pid = Some p' \<and>
    bit (proc_signal_pending p') (Signal_number s)"
  using assms
  by (cases n)
    (auto simp: run_handler_def handle_exit_def handle_yield_def handle_kill_def handle_sigaction_def SignalManager_send_def
      handle_sigprocmask_def handle_sigreturn_def Let_def pstore.get_modify bit_or_iff split: sum.splits option.splits prod.splits)

lemma log_run_handler: "k_log (snd (run_handler n ctx caller k)) = k_log k"
  by (cases n)
    (auto simp: run_handler_def handle_exit_def handle_yield_def handle_kill_def handle_sigaction_def
      handle_sigprocmask_def handle_sigreturn_def Let_def split: sum.splits option.splits prod.splits)

lemma audit_syscall_event:
  assumes "audit_refines hist l" "l = k_log k"
  shows "\<exists>ev. audit_refines (hist @ [ev]) (k_log (audit_syscall cpu c n cls used r k)) \<and>
    ev_action ev = Act_SyscallCompleted n cls \<and> ev_pid ev = map_option caller_pid c \<and>
    ev_result ev = audit_result r \<and> ev_capability_used ev = used"
  unfolding audit_syscall_def log_syscall_def snapshot_tick_cpu_def Let_def
  by (simp, rule exI, rule conjI, rule audit_refines_record [OF assms(1) [unfolded assms(2)]])
    (auto simp: request_event_def current_origin_def split: option.splits)

section \<open>A concrete kernel\<close>

text \<open>One started process, running as task 2 on the boot CPU, without any capability.\<close>

definition demo_kernel :: kernel where
  "demo_kernel = \<lparr>k_sched = \<lparr>ss_mc = MultiCoreScheduler_new, ss_sched = demo_sched, ss_percpu = PER_CPU_SCHEDULER\<rparr>,
     k_procs = snd (ProcessTable_start 1 (snd (the (ProcessTable_create (ascii ''init'', None, 2) ProcessTable_new)))),
     k_caps = CapabilityManager_new, k_signals = SignalManager_new, k_log = AuditLog_new, k_user = UserContext_empty\<rparr>"

definition demo_call :: "SyscallNumber \<Rightarrow> u64 \<Rightarrow> u64 \<Rightarrow> SyscallContext" where
  "demo_call n a b = \<lparr>ctx_number = SyscallNumber_raw n, ctx_arg1 = a, ctx_arg2 = b, ctx_arg3 = 0, ctx_arg4 = 0, ctx_arg5 = 0\<rparr>"

definition demo_caller :: CallerContext where
  "demo_caller = \<lparr>caller_task_id = 2, caller_pid = 1, caller_cpu_id = 0\<rparr>"

lemma demo_capture: "capture_caller_context_for_cpu 0 demo_kernel = Some demo_caller"
  by code_simp

lemma demo_reach: "kernel_reach demo_kernel"
proof -
  let ?k = "demo_kernel\<lparr>k_procs := ProcessTable_new\<rparr>"
  let ?t = "snd (the (ProcessTable_create (ascii ''init'', None, 2) ProcessTable_new))"
  have "kernel_reach ?k" using kernel_boot by (simp add: demo_kernel_def)
  moreover have "ProcessTable_create (ascii ''init'', None, 2) (k_procs ?k) = Some (1, ?t)"
    by (simp add: ProcessTable_create_def ProcessTable_new_def MAX_PROCESSES_def)
  moreover have "pt_next_pid (k_procs ?k) \<noteq> - 1" by (simp add: ProcessTable_new_def)
  ultimately have "kernel_reach (?k\<lparr>k_procs := ?t\<rparr>)" by (rule kernel_create)
  from kernel_start [OF this, of 1] show ?thesis by (simp add: demo_kernel_def)
qed

text \<open>The process with \<^verbatim>\<open>SIGKILL\<close> pending, and with a handler and its signal pending.\<close>

definition demo_killed :: kernel where
  "demo_killed = demo_kernel\<lparr>k_procs := snd (SignalManager_send 1 Sig_Kill (k_procs demo_kernel))\<rparr>"

definition demo_signalled :: kernel where
  "demo_signalled = demo_kernel
     \<lparr>k_procs := snd (SignalManager_send 1 Sig_Usr1 (k_procs demo_kernel)),
      k_signals := snd (SignalManager_set_action (k_procs demo_kernel) 1 Sig_Usr1 (Action_Handler 0x5000) SignalManager_new)\<rparr>"

definition demo_nested :: kernel where
  "demo_nested = demo_signalled\<lparr>k_procs :=
     ProcessTable_modify 1 (\<lambda>p. p\<lparr>proc_saved_context := Some UserContext_empty\<rparr>) (k_procs demo_signalled)\<rparr>"

lemma getpid_dispatch:
  assumes "capture_caller_context_for_cpu cpu k = Some caller"
  shows "dispatch cpu (demo_call Sys_GetPid a b) k = deliver_signals Sys_GetPid caller (SysOk (caller_pid caller))
    (audit_syscall cpu (Some caller) 2 (Some Class_Process) None (SysOk (caller_pid caller)) (account_syscall (Some caller) k))"
proof -
  have "syscall_spec Sys_GetPid = Some (mk_spec Sys_GetPid Implemented Auth_SelfOnly Class_Process MAX_COPY_NONE)"
    by (simp add: syscall_spec_iff SYSCALL_SPECS_defs mk_spec_def)
  moreover have "ctx_number (demo_call Sys_GetPid a b) = SyscallNumber_raw Sys_GetPid" by (simp add: demo_call_def)
  ultimately show ?thesis using assms SyscallNumber_from_raw_raw [of Sys_GetPid]
    by (simp add: dispatch_def mk_spec_def authorize_def run_handler_def handle_getpid_def Let_def)
qed

text \<open>Delivery when the first pending signal has a handler.\<close>

lemma deliver_loop_first:
  assumes "List.find (\<lambda>s. bit msk (Signal_number s)) order = Some s" "SignalManager_get_action mgr t pid s = Action_Handler h"
  shows "deliver_loop mgr pid msk order t = (Some (s, h), SignalManager_clear_pending pid s t)"
  using assms by (induction order) (auto simp: sig_bit_iff Let_def split: if_splits)

lemma account_signals [simp]:
  "SignalManager_pending_for (k_procs (account_syscall c k)) pid = SignalManager_pending_for (k_procs k) pid"
  "SignalManager_get_action mgr (k_procs (account_syscall c k)) pid sig = SignalManager_get_action mgr (k_procs k) pid sig"
proof -
  show "SignalManager_pending_for (k_procs (account_syscall c k)) pid = SignalManager_pending_for (k_procs k) pid"
    by (cases "ProcessTable_get (k_procs k) pid") (simp_all add: SignalManager_pending_for_def get_account)
  show "SignalManager_get_action mgr (k_procs (account_syscall c k)) pid sig = SignalManager_get_action mgr (k_procs k) pid sig"
    by (simp add: SignalManager_get_action_def account_syscall_def slot_of_modify split: option.splits)
qed

lemma getpid_diverted:
  assumes "capture_caller_context_for_cpu cpu k = Some caller"
    "SignalManager_pending_for (k_procs k) (caller_pid caller) = sig_bit s"
    "SignalManager_get_action (k_signals k) (k_procs k) (caller_pid caller) s = Action_Handler h"
  shows "uc_rcx (k_user (snd (dispatch cpu (demo_call Sys_GetPid a b) k))) = h"
    "capture_caller_context_for_cpu cpu (snd (dispatch cpu (demo_call Sys_GetPid a b) k)) = Some caller"
proof -
  let ?k = "account_syscall (Some caller) k"
  have "List.find (\<lambda>s'. bit (sig_bit s) (Signal_number s')) signals_to_check = Some s"
    by (cases s) (simp_all add: bit_sig_bit signals_to_check_def)
  moreover have "sig_bit s \<noteq> 0" using bit_sig_bit [of s "Signal_number s"] by auto
  ultimately have d: "SignalManager_deliver_pending (k_signals k) (caller_pid caller) (k_procs ?k) =
      (Some (s, h), SignalManager_clear_pending (caller_pid caller) s (k_procs ?k))"
    using deliver_loop_first [of "sig_bit s" signals_to_check s "k_signals k" "k_procs ?k" "caller_pid caller" h] assms(2,3)
    by (simp add: SignalManager_deliver_pending_def)
  show "uc_rcx (k_user (snd (dispatch cpu (demo_call Sys_GetPid a b) k))) = h"
    using d unfolding getpid_dispatch [OF assms(1)] by (simp add: deliver_signals_def)
  have "capture_caller_context_for_cpu cpu (snd (dispatch cpu (demo_call Sys_GetPid a b) k)) = capture_caller_context_for_cpu cpu ?k"
    using d unfolding getpid_dispatch [OF assms(1)]
    by (intro capture_cong) (simp_all add: deliver_signals_def get_pid_by_task_id_modify SignalManager_clear_pending_def)
  with assms(1) show "capture_caller_context_for_cpu cpu (snd (dispatch cpu (demo_call Sys_GetPid a b) k)) = Some caller" by simp
qed

lemma demo_evaluation:
  "capture_caller_context_for_cpu 0 demo_signalled = Some demo_caller"
  "SignalManager_pending_for (k_procs demo_signalled) (caller_pid demo_caller) = sig_bit Sig_Usr1"
  "SignalManager_get_action (k_signals demo_signalled) (k_procs demo_signalled) (caller_pid demo_caller) Sig_Usr1 = Action_Handler 0x5000"
  "uc_rcx (k_user demo_signalled) = 0"
  by code_simp+

lemma demo_nested_evaluation:
  "capture_caller_context_for_cpu 0 demo_nested = Some demo_caller"
  "SignalManager_pending_for (k_procs demo_nested) (caller_pid demo_caller) = sig_bit Sig_Usr1"
  "SignalManager_get_action (k_signals demo_nested) (k_procs demo_nested) (caller_pid demo_caller) Sig_Usr1 = Action_Handler 0x5000"
  "uc_rcx (k_user demo_nested) = 0"
  by code_simp+

lemmas demo_diverted = getpid_diverted [OF demo_evaluation(1-3)]

lemmas demo_nested_diverted = getpid_diverted [OF demo_nested_evaluation(1-3)]

section \<open>Properties\<close>

text \<open>
  C1. Complete mediation: a system call that is unknown, reserved, made without a resolvable caller,
  or not permitted to the caller by the rule of its table entry, returns the error of that case, and
  changes nothing in the kernel but the caller's call counter and the audit log: no table, signal,
  scheduler or user frame is touched.
\<close>

theorem unpermitted_call_has_no_effect:
  assumes "\<not> call_permitted cpu ctx k" "dispatch cpu ctx k = (r, k')"
  shows "r = SysErr (if \<not> known_call ctx then InvalidSyscall
           else if capture_caller_context_for_cpu cpu k = None then Internal else PermissionDenied) \<and>
    k' = (account_syscall (capture_caller_context_for_cpu cpu k) k)\<lparr>k_log := k_log k'\<rparr>"
  using assms by (cases rule: dispatch_cases [of cpu ctx k]) (auto simp: audit_syscall_def)

theorem unpermitted_call_has_no_effect_witness:
  "fst (dispatch 0 (demo_call Sys_Write 1 0) demo_kernel) = SysErr PermissionDenied \<and>
   k_procs (snd (dispatch 0 (demo_call Sys_Write 1 0) demo_kernel)) = k_procs (account_syscall (Some demo_caller) demo_kernel)"
proof -
  let ?d = "dispatch 0 (demo_call Sys_Write 1 0) demo_kernel"
  have w: "mk_spec Sys_Write Partial (cap_rule Perm_Write Scope_VfsService) Class_Io MAX_COPY_BUFFER \<in> set SYSCALL_SPECS"
    by (simp add: SYSCALL_SPECS_defs)
  then have known: "known_call (demo_call Sys_Write 1 0)"
    unfolding known_call_def by (rule bexI [rotated]) (simp add: mk_spec_def demo_call_def)
  have "\<not> permitted demo_kernel caller target (cap_rule Perm_Write Scope_VfsService)" for caller target
    by (simp add: cap_rule_def holds_requirement_def holds_authority_def demo_kernel_def CapabilityManager_new_def)
  moreover have "spec_authorization sp = cap_rule Perm_Write Scope_VfsService"
    if "sp \<in> set SYSCALL_SPECS" "SyscallNumber_raw (spec_number sp) = ctx_number (demo_call Sys_Write 1 0)" for sp
  proof -
    have "spec_number sp = Sys_Write" using that(2) raw_eq_iff [of "spec_number sp" Sys_Write] by (simp add: demo_call_def)
    with that(1) w have "Some sp = Some (mk_spec Sys_Write Partial (cap_rule Perm_Write Scope_VfsService) Class_Io MAX_COPY_BUFFER)"
      using syscall_spec_iff [of Sys_Write] by (metis SyscallSpec.select_convs(1) mk_spec_def)
    then show ?thesis by (simp add: mk_spec_def)
  qed
  ultimately have "\<not> call_permitted 0 (demo_call Sys_Write 1 0) demo_kernel" by (auto simp: call_permitted_def)
  from unpermitted_call_has_no_effect [OF this surjective_pairing] known demo_capture
  have r: "fst ?d = SysErr PermissionDenied" "snd ?d = (account_syscall (Some demo_caller) demo_kernel)\<lparr>k_log := k_log (snd ?d)\<rparr>"
    by simp_all
  from arg_cong [OF r(2), of k_procs] r(1) show ?thesis by simp
qed

text \<open>
  C2. Every system call is audited exactly once: one event is appended, carrying the call's
  number and the process of the captured caller; it reports success only for a permitted call, and
  a capability it names is live and owned by the caller's task.
\<close>

theorem every_syscall_audited_once:
  assumes "audit_refines hist (k_log k)"
  shows "\<exists>ev cls. audit_refines (hist @ [ev]) (k_log (snd (dispatch cpu ctx k))) \<and>
    ev_action ev = Act_SyscallCompleted (ctx_number ctx) cls \<and>
    ev_pid ev = map_option caller_pid (capture_caller_context_for_cpu cpu k) \<and>
    (ev_result ev = Audit_Success \<longrightarrow> call_permitted cpu ctx k) \<and>
    (\<forall>cid. ev_capability_used ev = Some cid \<longrightarrow>
       (\<exists>c \<in> set (flatten (cm_capabilities (k_caps k))). cap_id c = cid \<and>
          Some (cap_owner c) = map_option caller_task_id (capture_caller_context_for_cpu cpu k)))"
proof (cases rule: dispatch_cases [of cpu ctx k])
  case (rejected e cls)
  show ?thesis unfolding rejected(3)
    using audit_syscall_event [OF assms, of "account_syscall (capture_caller_context_for_cpu cpu k) k" cpu
        "capture_caller_context_for_cpu cpu k" "ctx_number ctx" cls None "SysErr e"]
    by (auto split: if_splits)
next
  case (admitted caller n cls used r k1)
  have l: "k_log k1 = k_log k"
    using log_run_handler [of n ctx caller "account_syscall (Some caller) k"] admitted(4) by simp
  have l': "k_log (snd (dispatch cpu ctx k)) = k_log (audit_syscall cpu (Some caller) (ctx_number ctx) (Some cls) used r k1)"
    unfolding admitted(6) by (simp add: deliver_signals_def split: prod.splits option.splits)
  from audit_syscall_event [OF assms l [symmetric], of cpu "Some caller" "ctx_number ctx" "Some cls" used r] admitted(1,2,5) l'
  show ?thesis by auto
qed

theorem every_syscall_audited_once_witness:
  "\<exists>ev cls. audit_refines ([] @ [ev]) (k_log (snd (dispatch 0 (demo_call Sys_GetPid 0 0) demo_kernel))) \<and>
     ev_action ev = Act_SyscallCompleted 2 cls \<and> ev_pid ev = Some 1"
proof -
  have "audit_refines [] (k_log demo_kernel)" using audit_refines_new by (simp add: demo_kernel_def)
  from every_syscall_audited_once [OF this, of 0 "demo_call Sys_GetPid 0 0"] demo_capture show ?thesis
    by (auto simp: demo_call_def demo_caller_def)
qed

text \<open>
  C3. \<open>SIGKILL\<close> is effective at the next completed call: in every state reached by system
  calls, user activity, scheduling, changes of capabilities and any operation of the process table and of the
  signal manager, if the signal is pending on a process then its next permitted call other than exit and
  signal return leaves it terminated with code 137, whatever masks and handlers the process installed.
\<close>

theorem sigkill_ends_process_at_next_call:
  assumes "kernel_reach k" "capture_caller_context_for_cpu cpu k = Some caller"
    "ProcessTable_get (k_procs k) (caller_pid caller) = Some p"
    "bit (proc_signal_pending p) (Signal_number Sig_Kill)" "call_permitted cpu ctx k"
    "ctx_number ctx \<noteq> SyscallNumber_raw Sys_Exit" "ctx_number ctx \<noteq> SyscallNumber_raw Sys_SigReturn"
  shows "\<exists>p'. ProcessTable_get (k_procs (snd (dispatch cpu ctx k))) (caller_pid caller) = Some p' \<and>
    proc_state p' = Proc_Terminated \<and> proc_exit_code p' = 137"
proof (cases rule: dispatch_cases [of cpu ctx k])
  case (rejected e cls)
  with assms(5) show ?thesis by simp
next
  case (admitted caller' n cls used r k1)
  let ?k = "account_syscall (Some caller) k" and ?k2 = "audit_syscall cpu (Some caller) (ctx_number ctx) (Some cls) used r k1"
  have c: "caller' = caller" using admitted(2) assms(2) by simp
  have k1: "k1 = snd (run_handler n ctx caller ?k)" using admitted(4) c by simp
  have inv: "sig_inv k1" unfolding k1 by (intro sig_inv_run_handler sig_inv_account sig_inv_reach assms(1))
  have "ProcessTable_get (k_procs ?k) (caller_pid caller) =
      Some (p\<lparr>proc_syscall_count := saturating_add (proc_syscall_count p) 1\<rparr>)"
    by (simp add: get_account assms(3))
  from pending_run_handler [OF this, of Sig_Kill n ctx caller] assms(4)
  obtain p1 where p1: "ProcessTable_get (k_procs k1) (caller_pid caller) = Some p1"
    "bit (proc_signal_pending p1) (Signal_number Sig_Kill)" unfolding k1 by auto
  have "pending_unblocked p1 Sig_Kill"
    using p1 inv by (auto simp: sig_inv_def uncatchable_unblocked_def pending_unblocked_def)
  with kill_delivered [OF _ _ p1(1)] inv have d: "fst (SignalManager_deliver_pending (k_signals k1) (caller_pid caller) (k_procs k1)) = None"
    "\<exists>p'. ProcessTable_get (snd (SignalManager_deliver_pending (k_signals k1) (caller_pid caller) (k_procs k1))) (caller_pid caller) = Some p' \<and>
       proc_state p' = Proc_Terminated \<and> proc_exit_code p' = 137"
    by (simp_all add: sig_inv_def)
  have "n \<noteq> Sys_Exit" "n \<noteq> Sys_SigReturn" using admitted(3) assms(6,7) by auto
  then show ?thesis unfolding admitted(6) c using d
    by (cases "SignalManager_deliver_pending (k_signals k1) (caller_pid caller) (k_procs k1)") (simp add: deliver_signals_def)
qed

theorem sigkill_ends_process_at_next_call_witness:
  "\<exists>p'. ProcessTable_get (k_procs (snd (dispatch 0 (demo_call Sys_GetPid 0 0) demo_killed))) 1 = Some p' \<and>
     proc_state p' = Proc_Terminated \<and> proc_exit_code p' = 137"
proof -
  let ?p = "the (ProcessTable_get (k_procs demo_killed) (caller_pid demo_caller))"
  have c: "capture_caller_context_for_cpu 0 demo_killed = Some demo_caller" by code_simp
  have p: "ProcessTable_get (k_procs demo_killed) (caller_pid demo_caller) = Some ?p" by code_simp
  have b: "bit (proc_signal_pending ?p) (Signal_number Sig_Kill)" by code_simp
  have r: "kernel_reach demo_killed" unfolding demo_killed_def by (rule kernel_send [OF demo_reach])
  have "call_permitted 0 (demo_call Sys_GetPid 0 0) demo_killed"
    unfolding call_permitted_def
    by (rule bexI [of _ "mk_spec Sys_GetPid Implemented Auth_SelfOnly Class_Process MAX_COPY_NONE"])
      (use c in \<open>simp_all add: mk_spec_def SYSCALL_SPECS_defs demo_call_def\<close>)
  from sigkill_ends_process_at_next_call [OF r c p b this] show ?thesis
    by (simp add: demo_call_def demo_caller_def)
qed

text \<open>
  C4. Handler round trip: when a call of a process is diverted into a signal handler, the frame is
  redirected to the handler with the signal number as argument; if the same process later makes
  the signal-return call, whatever the handler left in the registers, the frame is restored
  exactly as it was at the diverted call, with the value that call produced in its return register.
\<close>

theorem signal_handler_roundtrip:
  assumes "capture_caller_context_for_cpu cpu k = Some caller" "dispatch cpu ctx k = (r, k1)" "k_user k1 \<noteq> k_user k"
    "SyscallNumber_raw n = ctx_number ctx" "n \<noteq> Sys_SigReturn"
    "r0 = fst (run_handler n ctx caller (account_syscall (Some caller) k))"
    "capture_caller_context_for_cpu cpu' k1 = Some caller'" "caller_pid caller' = caller_pid caller"
    "ctx_number ctx' = SyscallNumber_raw Sys_SigReturn"
  shows "(\<exists>sig h. k_user k1 = (k_user k)\<lparr>uc_rcx := h, uc_rdi := of_nat (Signal_number sig)\<rparr>) \<and>
    (\<exists>k2. dispatch cpu' ctx' (k1\<lparr>k_user := u\<rparr>) = (SysOk (SyscallResult_to_raw r0), k2) \<and>
       k_user k2 = (k_user k)\<lparr>uc_rax := SyscallResult_to_raw r0\<rparr>)"
proof -
  obtain sig h p' where e: "k_user k1 = (k_user k)\<lparr>uc_rcx := h, uc_rdi := of_nat (Signal_number sig)\<rparr>"
    "ProcessTable_get (k_procs k1) (caller_pid caller) = Some p'"
    "proc_saved_context p' = Some ((k_user k)\<lparr>uc_rax := SyscallResult_to_raw r0\<rparr>)"
    using dispatch_enters_handler [OF assms(1-6)] by blast
  from sigreturn_dispatch [OF assms(9), of cpu' "k1\<lparr>k_user := u\<rparr>" caller' p'] assms(7,8) e show ?thesis by auto
qed

theorem signal_handler_roundtrip_witness:
  "\<exists>k2. dispatch 0 (demo_call Sys_SigReturn 0 0)
       ((snd (dispatch 0 (demo_call Sys_GetPid 0 0) demo_signalled))\<lparr>k_user := UserContext_empty\<lparr>uc_rax := 99\<rparr>\<rparr>) = (SysOk 1, k2) \<and>
     k_user k2 = (k_user demo_signalled)\<lparr>uc_rax := 1\<rparr>"
proof -
  let ?k1 = "snd (dispatch 0 (demo_call Sys_GetPid 0 0) demo_signalled)"
  have d: "dispatch 0 (demo_call Sys_GetPid 0 0) demo_signalled = (fst (dispatch 0 (demo_call Sys_GetPid 0 0) demo_signalled), ?k1)"
    by simp
  have n: "SyscallNumber_raw Sys_GetPid = ctx_number (demo_call Sys_GetPid 0 0)" by (simp add: demo_call_def)
  have r0: "SysOk 1 = fst (run_handler Sys_GetPid (demo_call Sys_GetPid 0 0) demo_caller (account_syscall (Some demo_caller) demo_signalled))"
    by (simp add: run_handler_def handle_getpid_def demo_caller_def)
  have c: "ctx_number (demo_call Sys_SigReturn 0 0) = SyscallNumber_raw Sys_SigReturn" by (simp add: demo_call_def)
  have u: "k_user ?k1 \<noteq> k_user demo_signalled" using demo_diverted(1) [of 0 0] demo_evaluation(4) by auto
  from signal_handler_roundtrip [OF demo_evaluation(1) d u n _ r0 demo_diverted(2) refl c,
      of "UserContext_empty\<lparr>uc_rax := 99\<rparr>"] show ?thesis by simp
qed

text \<open>
  C37. A nested signal loses the interrupted context: if a process already runs a handler, so that
  its original context is saved, and one of its calls is diverted into a second handler, then one
  signal return resumes the first handler and the next one fails: the
  original context is gone.
\<close>

theorem nested_signal_loses_saved_context:
  assumes "capture_caller_context_for_cpu cpu k = Some caller" "dispatch cpu ctx k = (r, k1)" "k_user k1 \<noteq> k_user k"
    "SyscallNumber_raw n = ctx_number ctx" "n \<noteq> Sys_SigReturn"
    "ProcessTable_get (k_procs k) (caller_pid caller) = Some p" "proc_saved_context p = Some original"
    "capture_caller_context_for_cpu cpu k1 = Some caller" "ctx_number ctx' = SyscallNumber_raw Sys_SigReturn"
  shows "\<exists>k2 a. dispatch cpu ctx' (k1\<lparr>k_user := u\<rparr>) = (SysOk a, k2) \<and> k_user k2 = (k_user k)\<lparr>uc_rax := a\<rparr> \<and>
    (\<forall>v. fst (dispatch cpu ctx' (k2\<lparr>k_user := v\<rparr>)) = SysErr InvalidArgument)"
proof -
  obtain a p' where e: "ProcessTable_get (k_procs k1) (caller_pid caller) = Some p'"
    "proc_saved_context p' = Some ((k_user k)\<lparr>uc_rax := a\<rparr>)"
    using dispatch_enters_handler [OF assms(1-5) refl] by blast
  from sigreturn_dispatch [OF assms(9), of cpu "k1\<lparr>k_user := u\<rparr>" caller p'] assms(8) e
  obtain k2 p2 where k2: "dispatch cpu ctx' (k1\<lparr>k_user := u\<rparr>) = (SysOk a, k2)" "k_user k2 = (k_user k)\<lparr>uc_rax := a\<rparr>"
    "capture_caller_context_for_cpu cpu k2 = Some caller" "ProcessTable_get (k_procs k2) (caller_pid caller) = Some p2"
    "proc_saved_context p2 = None" by auto
  from sigreturn_dispatch [OF assms(9), of cpu "k2\<lparr>k_user := v\<rparr>" caller p2 for v] k2 show ?thesis by auto
qed

theorem nested_signal_loses_saved_context_witness:
  "\<exists>k2 a. dispatch 0 (demo_call Sys_SigReturn 0 0)
       ((snd (dispatch 0 (demo_call Sys_GetPid 0 0) demo_nested))\<lparr>k_user := UserContext_empty\<rparr>) = (SysOk a, k2) \<and>
     fst (dispatch 0 (demo_call Sys_SigReturn 0 0) (k2\<lparr>k_user := UserContext_empty\<rparr>)) = SysErr InvalidArgument"
proof -
  let ?k1 = "snd (dispatch 0 (demo_call Sys_GetPid 0 0) demo_nested)"
  let ?p = "the (ProcessTable_get (k_procs demo_nested) (caller_pid demo_caller))"
  have d: "dispatch 0 (demo_call Sys_GetPid 0 0) demo_nested = (fst (dispatch 0 (demo_call Sys_GetPid 0 0) demo_nested), ?k1)"
    by simp
  have n: "SyscallNumber_raw Sys_GetPid = ctx_number (demo_call Sys_GetPid 0 0)" by (simp add: demo_call_def)
  have p: "ProcessTable_get (k_procs demo_nested) (caller_pid demo_caller) = Some ?p" by code_simp
  have s: "proc_saved_context ?p = Some UserContext_empty" by code_simp
  have c: "ctx_number (demo_call Sys_SigReturn 0 0) = SyscallNumber_raw Sys_SigReturn" by (simp add: demo_call_def)
  have u: "k_user ?k1 \<noteq> k_user demo_nested" using demo_nested_diverted(1) [of 0 0] demo_nested_evaluation(4) by auto
  from nested_signal_loses_saved_context [OF demo_nested_evaluation(1) d u n _ p s demo_nested_diverted(2) c, of UserContext_empty]
  show ?thesis by blast
qed

end
