(* ===== verification/Ipc.thy ===== *)
theory Ipc
  imports Ring Syscall_Abi
begin

text \<open>
  Kernel message passing, \<^verbatim>\<open>src/kernel/src/ipc.rs\<close>: messages with a fixed payload buffer, one
  ring of 16 messages per task, and the manager of the 64 rings with its counters. The ring is an
  instance of the bounded-queue contract; the manager is then shown to deliver every accepted
  message to its receiver exactly once and in order.
\<close>

section \<open>Messages\<close>

definition MAX_PAYLOAD :: nat where "MAX_PAYLOAD = 4096"
definition QUEUE_CAPACITY :: nat where "QUEUE_CAPACITY = 16"
definition MAX_QUEUES :: nat where "MAX_QUEUES = 64"

datatype MessageType = Msg_Request | Msg_Response | Msg_Notification | Msg_BraneRelay

definition MessageType_from_raw :: "u8 \<Rightarrow> MessageType option" where
  "MessageType_from_raw v =
     (if v = 0 then Some Msg_Request
      else if v = 1 then Some Msg_Response
      else if v = 2 then Some Msg_Notification
      else if v = 3 then Some Msg_BraneRelay
      else None)"

record IpcMessage =
  msg_sender :: TaskId
  msg_receiver :: TaskId
  msg_type :: MessageType
  msg_payload_len :: nat
  msg_payload :: bytes

definition IpcMessage_new ::
  "TaskId \<Rightarrow> TaskId \<Rightarrow> MessageType \<Rightarrow> bytes \<Rightarrow> (IpcMessage, SyscallError) result" where
  "IpcMessage_new sender receiver mtype data =
     (if length data > MAX_PAYLOAD then Err InvalidArgument
      else Ok \<lparr>msg_sender = sender, msg_receiver = receiver, msg_type = mtype,
               msg_payload_len = length data,
               msg_payload = data @ drop (length data) (replicate MAX_PAYLOAD 0)\<rparr>)"

definition IpcMessage_data :: "IpcMessage \<Rightarrow> bytes" where
  "IpcMessage_data m = take (msg_payload_len m) (msg_payload m)"

section \<open>Queues\<close>

record MessageQueue =
  mq_messages :: "IpcMessage option list"
  mq_head :: nat
  mq_tail :: nat
  mq_count :: nat

definition MessageQueue_new :: MessageQueue where
  "MessageQueue_new = \<lparr>mq_messages = replicate QUEUE_CAPACITY None, mq_head = 0, mq_tail = 0, mq_count = 0\<rparr>"

definition MessageQueue_push ::
  "IpcMessage \<Rightarrow> MessageQueue \<Rightarrow> (unit, SyscallError) result \<times> MessageQueue" where
  "MessageQueue_push msg q =
     (if mq_count q \<ge> QUEUE_CAPACITY then (Err WouldBlock, q)
      else (Ok (), q\<lparr>mq_messages := (mq_messages q)[mq_tail q := Some msg],
                     mq_tail := (mq_tail q + 1) mod QUEUE_CAPACITY,
                     mq_count := mq_count q + 1\<rparr>))"

definition MessageQueue_pop :: "MessageQueue \<Rightarrow> IpcMessage option \<times> MessageQueue" where
  "MessageQueue_pop q =
     (if mq_count q = 0 then (None, q)
      else (mq_messages q ! mq_head q,
            q\<lparr>mq_messages := (mq_messages q)[mq_head q := None],
              mq_head := (mq_head q + 1) mod QUEUE_CAPACITY,
              mq_count := mq_count q - 1\<rparr>))"

definition MessageQueue_len :: "MessageQueue \<Rightarrow> nat" where
  "MessageQueue_len q = mq_count q"

definition MessageQueue_is_empty :: "MessageQueue \<Rightarrow> bool" where
  "MessageQueue_is_empty q \<longleftrightarrow> mq_count q = 0"

section \<open>The manager\<close>

record IpcManager =
  ipc_queues :: "MessageQueue list"
  ipc_total_sent :: u64
  ipc_total_delivered :: u64
  ipc_total_dropped :: u64

definition IpcManager_new :: IpcManager where
  "IpcManager_new = \<lparr>ipc_queues = replicate MAX_QUEUES MessageQueue_new, ipc_total_sent = 0,
     ipc_total_delivered = 0, ipc_total_dropped = 0\<rparr>"

definition IpcManager_send :: "IpcMessage \<Rightarrow> IpcManager \<Rightarrow> SyscallResult \<times> IpcManager" where
  "IpcManager_send msg m =
     (let dest_idx = unat (msg_receiver msg)
      in if dest_idx \<ge> MAX_QUEUES then (SysErr InvalidDestination, m)
         else let m = m\<lparr>ipc_total_sent := ipc_total_sent m + 1\<rparr>
              in case MessageQueue_push msg (ipc_queues m ! dest_idx) of
                   (Inr _, q) \<Rightarrow>
                     (SysOk 0, m\<lparr>ipc_queues := (ipc_queues m)[dest_idx := q],
                                 ipc_total_delivered := ipc_total_delivered m + 1\<rparr>)
                 | (Inl e, q) \<Rightarrow>
                     (SysErr e, m\<lparr>ipc_queues := (ipc_queues m)[dest_idx := q],
                                  ipc_total_dropped := ipc_total_dropped m + 1\<rparr>))"

definition IpcManager_recv :: "TaskId \<Rightarrow> IpcManager \<Rightarrow> (IpcMessage, SyscallError) result \<times> IpcManager" where
  "IpcManager_recv task_id m =
     (let idx = unat task_id
      in if idx \<ge> MAX_QUEUES then (Err InvalidArgument, m)
         else case MessageQueue_pop (ipc_queues m ! idx) of
                (Some msg, q) \<Rightarrow> (Ok msg, m\<lparr>ipc_queues := (ipc_queues m)[idx := q]\<rparr>)
              | (None, q) \<Rightarrow> (Err NoMessage, m\<lparr>ipc_queues := (ipc_queues m)[idx := q]\<rparr>))"

definition IpcManager_pending_count :: "IpcManager \<Rightarrow> TaskId \<Rightarrow> nat" where
  "IpcManager_pending_count m task_id =
     (let idx = unat task_id in if idx \<ge> MAX_QUEUES then 0 else MessageQueue_len (ipc_queues m ! idx))"

definition IpcManager_stats :: "IpcManager \<Rightarrow> u64 \<times> u64 \<times> u64" where
  "IpcManager_stats m = (ipc_total_sent m, ipc_total_delivered m, ipc_total_dropped m)"

section \<open>The queue contract\<close>

definition queue_contents :: "MessageQueue \<Rightarrow> IpcMessage list" where
  "queue_contents q = flatten (ring_list (mq_messages q) (mq_head q) (mq_count q))"

definition queue_ok :: "MessageQueue \<Rightarrow> bool" where
  "queue_ok q \<longleftrightarrow> length (mq_messages q) = QUEUE_CAPACITY \<and> mq_head q < QUEUE_CAPACITY \<and>
     mq_count q \<le> QUEUE_CAPACITY \<and> mq_tail q = (mq_head q + mq_count q) mod QUEUE_CAPACITY \<and>
     None \<notin> set (ring_list (mq_messages q) (mq_head q) (mq_count q))"

definition queue_push :: "IpcMessage \<Rightarrow> MessageQueue \<Rightarrow> MessageQueue option" where
  "queue_push msg q = (case MessageQueue_push msg q of (Inr _, q') \<Rightarrow> Some q' | _ \<Rightarrow> None)"

text \<open>Traces of sends and receives: accepted messages and received ones, in order.\<close>

datatype IpcOp = Ipc_Send IpcMessage | Ipc_Recv TaskId

record IpcTrace =
  tr_manager :: IpcManager
  tr_accepted :: "IpcMessage list"
  tr_received :: "(TaskId \<times> IpcMessage) list"

fun ipc_step :: "IpcOp \<Rightarrow> IpcTrace \<Rightarrow> IpcTrace" where
  "ipc_step (Ipc_Send msg) t =
     (case IpcManager_send msg (tr_manager t) of
        (SysOk _, m) \<Rightarrow> t\<lparr>tr_manager := m, tr_accepted := tr_accepted t @ [msg]\<rparr>
      | (SysErr _, m) \<Rightarrow> t\<lparr>tr_manager := m\<rparr>)"
| "ipc_step (Ipc_Recv task) t =
     (case IpcManager_recv task (tr_manager t) of
        (Inr msg, m) \<Rightarrow> t\<lparr>tr_manager := m, tr_received := tr_received t @ [(task, msg)]\<rparr>
      | (Inl _, m) \<Rightarrow> t\<lparr>tr_manager := m\<rparr>)"

definition ipc_trace :: "IpcOp list \<Rightarrow> IpcTrace" where
  "ipc_trace ops = fold ipc_step ops \<lparr>tr_manager = IpcManager_new, tr_accepted = [], tr_received = []\<rparr>"

definition ipc_ok :: "IpcManager \<Rightarrow> bool" where
  "ipc_ok m \<longleftrightarrow> length (ipc_queues m) = MAX_QUEUES \<and> (\<forall>q \<in> set (ipc_queues m). queue_ok q) \<and>
     ipc_total_sent m = ipc_total_delivered m + ipc_total_dropped m"

definition accepted_for :: "TaskId \<Rightarrow> IpcTrace \<Rightarrow> IpcMessage list" where
  "accepted_for t tr = filter (\<lambda>msg. msg_receiver msg = t) (tr_accepted tr)"

definition received_by :: "TaskId \<Rightarrow> IpcTrace \<Rightarrow> IpcMessage list" where
  "received_by t tr = map snd (filter (\<lambda>r. fst r = t) (tr_received tr))"

definition mailbox :: "IpcManager \<Rightarrow> TaskId \<Rightarrow> IpcMessage list" where
  "mailbox m t = (if unat t < MAX_QUEUES then queue_contents (ipc_queues m ! unat t) else [])"

lemma length_queue_contents: "queue_ok q \<Longrightarrow> length (queue_contents q) = mq_count q"
  by (simp add: queue_ok_def queue_contents_def length_flatten_full)

lemma queue_push_ok:
  assumes "queue_ok q" "mq_count q < QUEUE_CAPACITY"
  shows "\<exists>q'. MessageQueue_push msg q = (Ok (), q') \<and> queue_ok q' \<and>
    queue_contents q' = queue_contents q @ [msg]"
proof -
  let ?ms = "(mq_messages q)[mq_tail q := Some msg]"
  have h: "length (mq_messages q) = QUEUE_CAPACITY" "mq_head q < QUEUE_CAPACITY"
    "mq_tail q = (mq_head q + mq_count q) mod QUEUE_CAPACITY"
    "None \<notin> set (ring_list (mq_messages q) (mq_head q) (mq_count q))"
    using assms(1) by (simp_all add: queue_ok_def)
  have r: "ring_list ?ms (mq_head q) (Suc (mq_count q)) =
      ring_list (mq_messages q) (mq_head q) (mq_count q) @ [Some msg]"
    using ring_list_snoc [of "mq_count q" "mq_messages q" "mq_head q" "Some msg"] h assms(2) by simp
  have "((mq_head q + mq_count q) mod QUEUE_CAPACITY + 1) mod QUEUE_CAPACITY =
      (mq_head q + (mq_count q + 1)) mod QUEUE_CAPACITY" by (simp add: mod_add_left_eq mod_Suc_eq)
  with h r assms(2) show ?thesis
    by (simp add: MessageQueue_push_def queue_ok_def queue_contents_def flatten_append)
qed

lemma queue_pop_ok:
  assumes "queue_ok q" "mq_count q = Suc n"
  shows "\<exists>x xs q'. queue_contents q = x # xs \<and> MessageQueue_pop q = (Some x, q') \<and> queue_ok q' \<and>
    queue_contents q' = xs"
proof -
  let ?ms = "mq_messages q" and ?h = "mq_head q"
  have h: "length ?ms = QUEUE_CAPACITY" "?h < QUEUE_CAPACITY" "mq_count q \<le> QUEUE_CAPACITY"
    "mq_tail q = (?h + mq_count q) mod QUEUE_CAPACITY" "None \<notin> set (ring_list ?ms ?h (mq_count q))"
    using assms(1) by (simp_all add: queue_ok_def)
  have c: "ring_list ?ms ?h (mq_count q) = ?ms ! ?h # ring_list ?ms ((?h + 1) mod QUEUE_CAPACITY) n"
    using ring_list_Suc [of ?ms ?h n] h assms(2) by simp
  then obtain x where x: "?ms ! ?h = Some x" using h(5) by (cases "?ms ! ?h") auto
  have d: "ring_list (?ms[?h := None]) ((?h + 1) mod QUEUE_CAPACITY) n =
      ring_list ?ms ((?h + 1) mod QUEUE_CAPACITY) n"
    using ring_list_drop_head [of n ?ms ?h None] h assms(2) by simp
  have "((?h + 1) mod QUEUE_CAPACITY + n) mod QUEUE_CAPACITY = (?h + Suc n) mod QUEUE_CAPACITY"
    by (simp add: mod_add_left_eq)
  with h c x d assms(2) show ?thesis
    by (simp add: MessageQueue_pop_def queue_ok_def queue_contents_def)
qed

lemma queue_ok_new: "queue_ok MessageQueue_new" "queue_contents MessageQueue_new = []"
  by (simp_all add: queue_ok_def MessageQueue_new_def QUEUE_CAPACITY_def queue_contents_def)

interpretation mq: bounded_fifo queue_ok queue_contents QUEUE_CAPACITY queue_push MessageQueue_pop
proof
  fix q :: MessageQueue and x :: IpcMessage and xs q'
  assume ok: "queue_ok q"
  note len = length_queue_contents [OF ok]
  show "length (queue_contents q) \<le> QUEUE_CAPACITY" using ok len by (simp add: queue_ok_def)
  show "queue_push x q = None \<longleftrightarrow> length (queue_contents q) = QUEUE_CAPACITY"
    using len ok by (auto simp: queue_push_def MessageQueue_push_def queue_ok_def)
  show "queue_push x q = Some q' \<Longrightarrow> queue_ok q' \<and> queue_contents q' = queue_contents q @ [x]"
    using queue_push_ok [OF ok, of x]
    by (cases "mq_count q < QUEUE_CAPACITY") (auto simp: queue_push_def MessageQueue_push_def)
  show "queue_contents q = [] \<Longrightarrow> fst (MessageQueue_pop q) = None \<and>
      queue_ok (snd (MessageQueue_pop q)) \<and> queue_contents (snd (MessageQueue_pop q)) = []"
    using len ok by (auto simp: MessageQueue_pop_def)
  show "queue_contents q = x # xs \<Longrightarrow> fst (MessageQueue_pop q) = Some x \<and>
      queue_ok (snd (MessageQueue_pop q)) \<and> queue_contents (snd (MessageQueue_pop q)) = xs"
    using len queue_pop_ok [OF ok, of "length xs"] by auto
qed

section \<open>Mailboxes\<close>

lemma ipc_ok_new: "ipc_ok IpcManager_new" "mailbox IpcManager_new t = []"
  by (simp_all add: ipc_ok_def IpcManager_new_def mailbox_def queue_ok_new)

lemma ipc_queue_ok: "ipc_ok m \<Longrightarrow> i < MAX_QUEUES \<Longrightarrow> queue_ok (ipc_queues m ! i)"
  by (simp add: ipc_ok_def)

lemma mailbox_update:
  assumes "ipc_ok m" "unat d < MAX_QUEUES" "ipc_queues m' = (ipc_queues m)[unat d := q]"
  shows "mailbox m' t = (if t = d then queue_contents q else mailbox m t)"
  using assms by (auto simp: mailbox_def ipc_ok_def nth_list_update word_unat_eq_iff)

text \<open>The effect of a send and of a receive on all mailboxes.\<close>

lemma send_spec:
  assumes "ipc_ok m"
  obtains (invalid) "MAX_QUEUES \<le> unat (msg_receiver msg)" "IpcManager_send msg m = (SysErr InvalidDestination, m)"
  | (full) m' where "unat (msg_receiver msg) < MAX_QUEUES"
      "length (mailbox m (msg_receiver msg)) = QUEUE_CAPACITY"
      "IpcManager_send msg m = (SysErr WouldBlock, m')" "ipc_ok m'" "mailbox m' = mailbox m"
  | (sent) m' where "unat (msg_receiver msg) < MAX_QUEUES"
      "length (mailbox m (msg_receiver msg)) < QUEUE_CAPACITY"
      "IpcManager_send msg m = (SysOk 0, m')" "ipc_ok m'"
      "mailbox m' = (mailbox m)(msg_receiver msg := mailbox m (msg_receiver msg) @ [msg])"
proof (cases "unat (msg_receiver msg) < MAX_QUEUES")
  case False
  with invalid show ?thesis by (simp add: IpcManager_send_def)
next
  case True
  let ?d = "unat (msg_receiver msg)"
  let ?q = "ipc_queues m ! ?d"
  have q: "queue_ok ?q" using assms True by (rule ipc_queue_ok)
  have box: "mailbox m (msg_receiver msg) = queue_contents ?q" using True by (simp add: mailbox_def)
  show ?thesis
  proof (cases "mq_count ?q < QUEUE_CAPACITY")
    case room: True
    obtain q' where q': "MessageQueue_push msg ?q = (Ok (), q')" "queue_ok q'"
      "queue_contents q' = queue_contents ?q @ [msg]" using queue_push_ok [OF q room] by auto
    let ?m = "m\<lparr>ipc_total_sent := ipc_total_sent m + 1, ipc_queues := (ipc_queues m)[?d := q'],
      ipc_total_delivered := ipc_total_delivered m + 1\<rparr>"
    show ?thesis
    proof (rule sent [of ?m])
      show "IpcManager_send msg m = (SysOk 0, ?m)" using True q' by (simp add: IpcManager_send_def Let_def)
      show "ipc_ok ?m" using assms q'(2) by (auto simp: ipc_ok_def dest!: set_update_subset_insert [THEN subsetD])
      show "mailbox ?m = (mailbox m)(msg_receiver msg := mailbox m (msg_receiver msg) @ [msg])"
        using mailbox_update [OF assms True, of ?m q'] q'(3) box by (auto simp: fun_eq_iff)
    qed (use True room box length_queue_contents [OF q] in auto)
  next
    case full': False
    let ?m = "m\<lparr>ipc_total_sent := ipc_total_sent m + 1, ipc_queues := (ipc_queues m)[?d := ?q],
      ipc_total_dropped := ipc_total_dropped m + 1\<rparr>"
    show ?thesis
    proof (rule full [of ?m])
      show "IpcManager_send msg m = (SysErr WouldBlock, ?m)"
        using True full' by (simp add: IpcManager_send_def Let_def MessageQueue_push_def)
      show "ipc_ok ?m" using assms by (simp add: ipc_ok_def)
      show "mailbox ?m = mailbox m" by (simp add: mailbox_def fun_eq_iff)
      show "length (mailbox m (msg_receiver msg)) = QUEUE_CAPACITY"
        using box full' length_queue_contents [OF q] q by (simp add: queue_ok_def)
    qed (rule True)
  qed
qed

lemma recv_spec:
  assumes "ipc_ok m"
  obtains (invalid) "MAX_QUEUES \<le> unat t" "IpcManager_recv t m = (Err InvalidArgument, m)"
  | (empty) m' where "mailbox m t = []" "IpcManager_recv t m = (Err NoMessage, m')" "ipc_ok m'"
      "mailbox m' = mailbox m"
  | (got) msg rest m' where "mailbox m t = msg # rest" "IpcManager_recv t m = (Ok msg, m')" "ipc_ok m'"
      "mailbox m' = (mailbox m)(t := rest)"
proof (cases "unat t < MAX_QUEUES")
  case False
  with invalid show ?thesis by (simp add: IpcManager_recv_def)
next
  case True
  let ?q = "ipc_queues m ! unat t"
  have q: "queue_ok ?q" using assms True by (rule ipc_queue_ok)
  have box: "mailbox m t = queue_contents ?q" using True by (simp add: mailbox_def)
  let ?m = "m\<lparr>ipc_queues := (ipc_queues m)[unat t := snd (MessageQueue_pop ?q)]\<rparr>"
  have ok: "ipc_ok ?m" if "queue_ok (snd (MessageQueue_pop ?q))"
    using assms that by (auto simp: ipc_ok_def dest!: set_update_subset_insert [THEN subsetD])
  note boxes = mailbox_update [OF assms True, of ?m "snd (MessageQueue_pop ?q)"]
  show ?thesis
  proof (cases "queue_contents ?q")
    case Nil
    note p = mq.pop_nil [OF q Nil]
    show ?thesis
      by (rule empty [of ?m])
        (use p ok boxes box Nil True in \<open>auto simp: IpcManager_recv_def Let_def fun_eq_iff split: prod.splits option.splits\<close>)
  next
    case (Cons msg rest)
    note p = mq.pop_cons [OF q Cons]
    show ?thesis
      by (rule got [of msg rest ?m])
        (use p ok boxes box Cons True in \<open>auto simp: IpcManager_recv_def Let_def fun_eq_iff split: prod.splits option.splits\<close>)
  qed
qed

lemma ipc_trace_snoc: "ipc_trace (ops @ [x]) = ipc_step x (ipc_trace ops)"
  by (simp add: ipc_trace_def)

lemma ipc_trace_invariant:
  "ipc_ok (tr_manager (ipc_trace ops)) \<and>
   accepted_for t (ipc_trace ops) = received_by t (ipc_trace ops) @ mailbox (tr_manager (ipc_trace ops)) t"
proof (induction ops rule: rev_induct)
  case Nil
  show ?case by (simp add: ipc_trace_def ipc_ok_new accepted_for_def received_by_def)
next
  case (snoc x ops)
  let ?t = "ipc_trace ops"
  have ok: "ipc_ok (tr_manager ?t)" using snoc by simp
  show ?case
  proof (cases x)
    case (Ipc_Send msg)
    show ?thesis
      by (cases rule: send_spec [OF ok, of msg])
        (use snoc Ipc_Send in \<open>auto simp: ipc_trace_snoc accepted_for_def received_by_def\<close>)
  next
    case (Ipc_Recv task)
    show ?thesis
      by (cases rule: recv_spec [OF ok, of task])
        (use snoc Ipc_Recv in \<open>auto simp: ipc_trace_snoc accepted_for_def received_by_def\<close>)
  qed
qed

section \<open>Properties\<close>

text \<open>
  C10. Messages are delivered exactly once and in order: in any sequence of sends and receives, the
  messages accepted for a task are, in the order of the sends, those it has received followed by
  those still waiting in its queue; and every send to a valid queue is counted as either delivered
  or dropped.
\<close>

theorem ipc_exactly_once_in_order:
  "accepted_for t (ipc_trace ops) =
     received_by t (ipc_trace ops) @ mailbox (tr_manager (ipc_trace ops)) t \<and>
   (case IpcManager_stats (tr_manager (ipc_trace ops)) of
      (sent, delivered, dropped) \<Rightarrow> sent = delivered + dropped)"
  using ipc_trace_invariant [of ops t] by (simp add: IpcManager_stats_def ipc_ok_def)

text \<open>
  A message carries its payload unchanged: construction succeeds exactly for payloads of at
  most 4096 bytes, and reading the data of the message gives back those bytes.
\<close>

theorem ipc_payload_roundtrip:
  "case IpcMessage_new s r ty data of
     Inr m \<Rightarrow> length data \<le> MAX_PAYLOAD \<and> IpcMessage_data m = data \<and>
       length (msg_payload m) = MAX_PAYLOAD \<and> msg_sender m = s \<and> msg_receiver m = r \<and> msg_type m = ty
   | Inl e \<Rightarrow> MAX_PAYLOAD < length data \<and> e = InvalidArgument"
  by (simp add: IpcMessage_new_def IpcMessage_data_def)

end
