(* ===== verification/Frame_Alloc.thy ===== *)
theory Frame_Alloc
  imports Prelude
begin

text \<open>
  The physical frame allocator of \<^verbatim>\<open>src/kernel/src/memory/frame_allocator.rs\<close>: a bitmap with
  one bit per 4 KiB frame, set when the frame is used, and a counter of the free frames. The
  bitmap static and the allocator struct are one state. The theorems refine it to a set of free
  frames.
\<close>

section \<open>State\<close>

definition FRAME_SIZE :: nat where "FRAME_SIZE = 4096"
definition MAX_MEMORY :: nat where "MAX_MEMORY = 1024 * 1024 * 1024"
definition MAX_FRAMES :: nat where "MAX_FRAMES = MAX_MEMORY div FRAME_SIZE"
definition BITMAP_SIZE :: nat where "BITMAP_SIZE = MAX_FRAMES div 8"

record BitmapFrameAllocator =
  fa_bitmap :: "u8 list"
  fa_total_frames :: nat
  fa_free_frames :: u64

definition BitmapFrameAllocator_new :: BitmapFrameAllocator where
  "BitmapFrameAllocator_new =
     \<lparr>fa_bitmap = replicate BITMAP_SIZE 0xFF, fa_total_frames = MAX_FRAMES, fa_free_frames = 0\<rparr>"

section \<open>Operations\<close>

definition is_used :: "BitmapFrameAllocator \<Rightarrow> nat \<Rightarrow> bool" where
  "is_used a frame \<longleftrightarrow> (fa_bitmap a ! (frame div 8)) AND push_bit (frame mod 8) 1 \<noteq> 0"

definition set_used :: "nat \<Rightarrow> BitmapFrameAllocator \<Rightarrow> BitmapFrameAllocator" where
  "set_used frame a = a\<lparr>fa_bitmap := (fa_bitmap a)[frame div 8 := (fa_bitmap a ! (frame div 8)) OR push_bit (frame mod 8) 1]\<rparr>"

definition set_free :: "nat \<Rightarrow> BitmapFrameAllocator \<Rightarrow> BitmapFrameAllocator" where
  "set_free frame a =
     a\<lparr>fa_bitmap := (fa_bitmap a)[frame div 8 := (fa_bitmap a ! (frame div 8)) AND NOT (push_bit (frame mod 8) 1)]\<rparr>"

definition div_ceil :: "nat \<Rightarrow> nat \<Rightarrow> nat" where
  "div_ceil n d = (n + d - 1) div d"

definition mark_free_frame :: "nat \<Rightarrow> BitmapFrameAllocator \<Rightarrow> BitmapFrameAllocator" where
  "mark_free_frame frame a =
     (if frame < MAX_FRAMES \<and> is_used a frame
      then (set_free frame a)\<lparr>fa_free_frames := fa_free_frames a + 1\<rparr> else a)"

definition mark_used_frame :: "nat \<Rightarrow> BitmapFrameAllocator \<Rightarrow> BitmapFrameAllocator" where
  "mark_used_frame frame a =
     (if frame < MAX_FRAMES \<and> \<not> is_used a frame
      then (set_used frame a)\<lparr>fa_free_frames := fa_free_frames a - 1\<rparr> else a)"

definition mark_region_free :: "u64 \<Rightarrow> u64 \<Rightarrow> BitmapFrameAllocator \<Rightarrow> BitmapFrameAllocator" where
  "mark_region_free start stop a = fold mark_free_frame [unat start div FRAME_SIZE..<unat stop div FRAME_SIZE] a"

definition mark_region_used :: "u64 \<Rightarrow> u64 \<Rightarrow> BitmapFrameAllocator \<Rightarrow> BitmapFrameAllocator" where
  "mark_region_used start stop a = fold mark_used_frame [unat start div FRAME_SIZE..<div_ceil (unat stop) FRAME_SIZE] a"

fun scan_bytes :: "BitmapFrameAllocator \<Rightarrow> nat \<Rightarrow> nat list \<Rightarrow> nat option" where
  "scan_bytes a limit_frames [] = None"
| "scan_bytes a limit_frames (byte_idx # idxs) =
     (if fa_bitmap a ! byte_idx \<noteq> 0xFF then
        (case List.find (\<lambda>b. byte_idx * 8 + b < limit_frames \<and> \<not> is_used a (byte_idx * 8 + b)) [0..<8] of
           Some b \<Rightarrow> Some (byte_idx * 8 + b)
         | None \<Rightarrow> scan_bytes a limit_frames idxs)
      else scan_bytes a limit_frames idxs)"

definition allocate_below :: "u64 \<Rightarrow> BitmapFrameAllocator \<Rightarrow> u64 option \<times> BitmapFrameAllocator" where
  "allocate_below limit a =
     (let limit_frames = min (unat limit div FRAME_SIZE) MAX_FRAMES
      in case scan_bytes a limit_frames [0..<div_ceil limit_frames 8] of
           Some frame \<Rightarrow>
             (Some (of_nat (frame * FRAME_SIZE)),
              (set_used frame a)\<lparr>fa_free_frames := saturating_sub (fa_free_frames a) 1\<rparr>)
         | None \<Rightarrow> (None, a))"

definition allocate_frame :: "BitmapFrameAllocator \<Rightarrow> u64 option \<times> BitmapFrameAllocator" where
  "allocate_frame a = allocate_below (of_nat MAX_MEMORY) a"

definition usize_is_power_of_two :: "nat \<Rightarrow> bool" where
  "usize_is_power_of_two n \<longleftrightarrow> list_ex (\<lambda>k. n = 2 ^ k) [0..<64]"

definition allocate_contiguous_below ::
  "nat \<Rightarrow> u64 \<Rightarrow> nat \<Rightarrow> BitmapFrameAllocator \<Rightarrow> u64 option \<times> BitmapFrameAllocator" where
  "allocate_contiguous_below count limit alignment_frames a =
     (if count = 0 \<or> \<not> usize_is_power_of_two alignment_frames then (None, a)
      else let limit_frames = min (unat limit div FRAME_SIZE) MAX_FRAMES
           in if count > limit_frames then (None, a)
              else case List.find (\<lambda>start. start mod alignment_frames = 0 \<and>
                       \<not> list_ex (is_used a) [start..<start + count]) [0..<limit_frames - count + 1] of
                Some start \<Rightarrow>
                  (Some (of_nat (start * FRAME_SIZE)),
                   (fold set_used [start..<start + count] a)
                     \<lparr>fa_free_frames := saturating_sub (fa_free_frames a) (of_nat count)\<rparr>)
              | None \<Rightarrow> (None, a))"

definition deallocate :: "u64 \<Rightarrow> BitmapFrameAllocator \<Rightarrow> BitmapFrameAllocator" where
  "deallocate addr a = mark_free_frame (unat addr div FRAME_SIZE) a"

definition free_count :: "BitmapFrameAllocator \<Rightarrow> u64" where
  "free_count a = fa_free_frames a"

definition total_count :: "BitmapFrameAllocator \<Rightarrow> nat" where
  "total_count a = fa_total_frames a"

section \<open>The set of free frames\<close>

datatype FrameOp =
    Mark_Free u64 u64 | Mark_Used u64 u64 | Alloc_Below u64 | Alloc | Alloc_Contiguous nat u64 nat | Dealloc u64

fun fa_exec :: "FrameOp \<Rightarrow> BitmapFrameAllocator \<Rightarrow> u64 option \<times> BitmapFrameAllocator" where
  "fa_exec (Mark_Free s e) a = (None, mark_region_free s e a)"
| "fa_exec (Mark_Used s e) a = (None, mark_region_used s e a)"
| "fa_exec (Alloc_Below l) a = allocate_below l a"
| "fa_exec Alloc a = allocate_frame a"
| "fa_exec (Alloc_Contiguous n l al) a = allocate_contiguous_below n l al a"
| "fa_exec (Dealloc addr) a = (None, deallocate addr a)"

text \<open>The specification: what each request does with the set of free frames.\<close>

definition take_frames :: "nat \<Rightarrow> (nat \<Rightarrow> bool) \<Rightarrow> nat set \<Rightarrow> u64 option \<times> nat set" where
  "take_frames n P F =
     (if \<exists>s. P s \<and> {s..<s + n} \<subseteq> F
      then let s = (LEAST s. P s \<and> {s..<s + n} \<subseteq> F) in (Some (of_nat (s * 4096)), F - {s..<s + n})
      else (None, F))"

fun spec_exec :: "FrameOp \<Rightarrow> nat set \<Rightarrow> u64 option \<times> nat set" where
  "spec_exec (Mark_Free s e) F = (None, F \<union> ({unat s div 4096..<unat e div 4096} \<inter> {..<262144}))"
| "spec_exec (Mark_Used s e) F = (None, F - {unat s div 4096..<(unat e + 4095) div 4096})"
| "spec_exec (Alloc_Below l) F = take_frames 1 (\<lambda>s. s < unat l div 4096) F"
| "spec_exec Alloc F = take_frames 1 (\<lambda>_. True) F"
| "spec_exec (Alloc_Contiguous n l al) F =
     (if n = 0 \<or> \<not> (\<exists>k < 64. al = 2 ^ k) then (None, F)
      else take_frames n (\<lambda>s. al dvd s \<and> s + n \<le> unat l div 4096) F)"
| "spec_exec (Dealloc addr) F = (None, F \<union> ({unat addr div 4096} \<inter> {..<262144}))"

primrec run_ops :: "(FrameOp \<Rightarrow> 's \<Rightarrow> u64 option \<times> 's) \<Rightarrow> FrameOp list \<Rightarrow> 's \<Rightarrow> u64 option list \<times> 's" where
  "run_ops step [] s = ([], s)"
| "run_ops step (x # xs) s = (case step x s of (r, s') \<Rightarrow> (case run_ops step xs s' of (rs, s'') \<Rightarrow> (r # rs, s'')))"

definition free_set :: "BitmapFrameAllocator \<Rightarrow> nat set" where
  "free_set a = {f. f < MAX_FRAMES \<and> \<not> is_used a f}"

definition fa_ok :: "BitmapFrameAllocator \<Rightarrow> bool" where
  "fa_ok a \<longleftrightarrow> length (fa_bitmap a) = BITMAP_SIZE \<and> unat (fa_free_frames a) = card (free_set a)"

lemma frame_consts: "FRAME_SIZE = 4096" "MAX_FRAMES = 262144" "BITMAP_SIZE = 32768" "MAX_MEMORY = 1073741824"
  by (simp_all add: FRAME_SIZE_def MAX_FRAMES_def BITMAP_SIZE_def MAX_MEMORY_def)

lemma is_used_bit: "is_used a f \<longleftrightarrow> bit (fa_bitmap a ! (f div 8)) (f mod 8)"
  using and_bit_eq_0_iff [of "f mod 8" "fa_bitmap a ! (f div 8)"] by (simp add: is_used_def)

lemma byte_lt: "f < MAX_FRAMES \<Longrightarrow> length (fa_bitmap a) = BITMAP_SIZE \<Longrightarrow> f div 8 < length (fa_bitmap a)"
  by (simp add: frame_consts)

lemma div_mod_neq: "f \<noteq> g \<Longrightarrow> f div 8 = g div 8 \<Longrightarrow> f mod 8 \<noteq> g mod (8 :: nat)"
  by (metis div_mod_decomp)

lemma is_used_set_used:
  assumes "length (fa_bitmap a) = BITMAP_SIZE" "f < MAX_FRAMES"
  shows "is_used (set_used f a) g \<longleftrightarrow> g = f \<or> is_used a g"
  using byte_lt [OF assms(2,1)] div_mod_neq [of g f]
  by (cases "g div 8 = f div 8") (auto simp: is_used_bit set_used_def bit_simps)

lemma is_used_set_free:
  assumes "length (fa_bitmap a) = BITMAP_SIZE" "f < MAX_FRAMES"
  shows "is_used (set_free f a) g \<longleftrightarrow> g \<noteq> f \<and> is_used a g"
  using byte_lt [OF assms(2,1)] div_mod_neq [of g f]
  by (cases "g div 8 = f div 8") (auto simp: is_used_bit set_free_def bit_simps)

lemma set_simps [simp]:
  "length (fa_bitmap (set_used f a)) = length (fa_bitmap a)" "length (fa_bitmap (set_free f a)) = length (fa_bitmap a)"
  "fa_free_frames (set_used f a) = fa_free_frames a" "fa_free_frames (set_free f a) = fa_free_frames a"
  "free_set (a\<lparr>fa_free_frames := n\<rparr>) = free_set a"
  by (simp_all add: set_used_def set_free_def free_set_def is_used_def)

lemma finite_free_set [simp]: "finite (free_set a)"
  by (simp add: free_set_def)

lemma card_free_set: "card (free_set a) \<le> 262144"
  using card_mono [of "{..<MAX_FRAMES}" "free_set a"] by (auto simp: free_set_def frame_consts)

lemma free_set_used:
  assumes "length (fa_bitmap a) = BITMAP_SIZE" "f < MAX_FRAMES"
  shows "free_set (set_used f a) = free_set a - {f}"
  using is_used_set_used [OF assms] by (auto simp: free_set_def)

lemma free_set_free:
  assumes "length (fa_bitmap a) = BITMAP_SIZE" "f < MAX_FRAMES"
  shows "free_set (set_free f a) = insert f (free_set a)"
  using is_used_set_free [OF assms] assms(2) by (auto simp: free_set_def)

lemma unat_add_small: "unat w + n < 2 ^ 64 \<Longrightarrow> unat (w + of_nat n) = unat w + n" for w :: u64
  by (simp add: unat_word_ariths unat_of_nat)

lemma unat_sub_small: "n \<le> unat w \<Longrightarrow> unat (w - of_nat n) = unat w - n" for w :: u64
proof -
  assume "n \<le> unat w"
  moreover have "unat w < 2 ^ 64" using unsigned_less [of w] by simp
  ultimately have "unat (of_nat n :: u64) = n" by (simp add: unat_of_nat)
  with \<open>n \<le> unat w\<close> show ?thesis by (simp add: unat_sub word_le_nat_alt)
qed

section \<open>Each operation refines its specification\<close>

lemma mark_free_frame_spec:
  assumes "fa_ok a"
  shows "fa_ok (mark_free_frame f a) \<and> free_set (mark_free_frame f a) = free_set a \<union> ({f} \<inter> {..<MAX_FRAMES})"
proof (cases "f < MAX_FRAMES \<and> is_used a f")
  case True
  have "unat (fa_free_frames a + of_nat 1) = unat (fa_free_frames a) + 1"
    using assms card_free_set [of a] by (intro unat_add_small) (simp add: fa_ok_def)
  with True assms free_set_free [of a f] show ?thesis
    by (auto simp: fa_ok_def mark_free_frame_def) (simp add: free_set_def)
qed (use assms in \<open>auto simp: mark_free_frame_def free_set_def\<close>)

lemma take_used:
  assumes "fa_ok a" "f \<in> free_set a"
  shows "fa_ok ((set_used f a)\<lparr>fa_free_frames := fa_free_frames a - 1\<rparr>) \<and> free_set (set_used f a) = free_set a - {f}"
proof -
  have f: "f < MAX_FRAMES" using assms(2) by (simp add: free_set_def)
  have pos: "0 < card (free_set a)" using assms(2) by (auto simp: card_gt_0_iff)
  have "unat (fa_free_frames a - of_nat 1) = unat (fa_free_frames a) - 1"
    using assms(1) pos by (intro unat_sub_small) (simp add: fa_ok_def)
  with assms f pos free_set_used [of a f] show ?thesis by (simp add: fa_ok_def)
qed

lemma mark_used_frame_spec:
  assumes "fa_ok a"
  shows "fa_ok (mark_used_frame f a) \<and> free_set (mark_used_frame f a) = free_set a - {f}"
proof (cases "f \<in> free_set a")
  case True
  then have "f < MAX_FRAMES \<and> \<not> is_used a f" by (simp add: free_set_def)
  with take_used [OF assms True] show ?thesis by (simp add: mark_used_frame_def)
next
  case False
  then have "\<not> (f < MAX_FRAMES \<and> \<not> is_used a f)" by (simp add: free_set_def)
  with assms False show ?thesis by (auto simp: mark_used_frame_def)
qed

lemma fold_mark_free:
  "fa_ok a \<Longrightarrow> fa_ok (fold mark_free_frame fs a) \<and> free_set (fold mark_free_frame fs a) = free_set a \<union> (set fs \<inter> {..<MAX_FRAMES})"
proof (induction fs arbitrary: a)
  case (Cons f fs)
  with mark_free_frame_spec [OF Cons.prems, of f] show ?case by auto
qed simp

lemma fold_mark_used:
  "fa_ok a \<Longrightarrow> fa_ok (fold mark_used_frame fs a) \<and> free_set (fold mark_used_frame fs a) = free_set a - set fs"
proof (induction fs arbitrary: a)
  case (Cons f fs)
  with mark_used_frame_spec [OF Cons.prems, of f] show ?case by auto
qed simp

lemma find_upt_Least:
  "List.find P [0..<n] = (if \<exists>i < n. P i then Some (LEAST i. P i) else None)"
proof (cases "\<exists>i < n. P i")
  case True
  then obtain i where i: "i < n" "P i" by blast
  define m where "m = (LEAST i. P i)"
  have m: "P m" "m \<le> i" "\<forall>j < m. \<not> P j"
    unfolding m_def using i(2) LeastI [of P i] Least_le [of P i] not_less_Least [of _ P] by blast+
  have "List.find P [0..<n] = Some m"
    unfolding find_Some_iff by (rule exI [of _ m]) (use m i(1) in simp)
  then show ?thesis using True unfolding m_def by simp
next
  case False
  then have "List.find P [0..<n] = None" by (auto simp: find_None_iff)
  with False show ?thesis by simp
qed

lemma find_append: "List.find P (xs @ ys) = (case List.find P xs of None \<Rightarrow> List.find P ys | Some x \<Rightarrow> Some x)"
  by (induction xs) auto

lemma find_map_shift: "List.find P (map f xs) = map_option f (List.find (\<lambda>x. P (f x)) xs)"
  by (induction xs) auto

text \<open>The scan by bytes, skipping full ones, is the scan by frames.\<close>

lemma scan_bytes_concat:
  assumes "B = [0..<8]"
  shows "scan_bytes a L idxs = List.find (\<lambda>f. f < L \<and> \<not> is_used a f) (concat (map (\<lambda>i. map (\<lambda>b. i * 8 + b) B) idxs))"
proof (induction idxs)
  case (Cons i idxs)
  have full: "List.find (\<lambda>b. i * 8 + b < L \<and> \<not> is_used a (i * 8 + b)) B = None" if "fa_bitmap a ! i = 0xFF"
  proof -
    have "(255 :: u8) = - 1" by simp
    then have "bit (255 :: u8) b" if "b < 8" for b using that by (simp only: bit_minus_1_iff) simp
    then have "\<forall>b \<in> set B. is_used a (i * 8 + b)" using that by (auto simp: is_used_bit assms)
    then show ?thesis by (auto simp: find_None_iff)
  qed
  have "scan_bytes a L (i # idxs) =
      (case List.find (\<lambda>b. i * 8 + b < L \<and> \<not> is_used a (i * 8 + b)) B of Some b \<Rightarrow> Some (i * 8 + b) | None \<Rightarrow> scan_bytes a L idxs)"
    using full unfolding scan_bytes.simps assms [symmetric] by simp
  also have "\<dots> = List.find (\<lambda>f. f < L \<and> \<not> is_used a f) (concat (map (\<lambda>i. map (\<lambda>b. i * 8 + b) B) (i # idxs)))"
    by (simp add: find_append find_map_shift Cons.IH split: option.splits)
  finally show ?case .
qed simp

lemma map_add_upt': "map (\<lambda>b. m + b) [0..<k] = [m..<m + k]"
  by (induction k) simp_all

lemma concat_blocks:
  assumes "B = [0..<8]"
  shows "concat (map (\<lambda>i. map (\<lambda>b. i * 8 + b) B) [0..<n]) = [0..<n * 8]"
proof (induction n)
  case (Suc n)
  have "map (\<lambda>b. n * 8 + b) B = [n * 8..<n * 8 + 8]" unfolding assms by (rule map_add_upt')
  moreover have "[0..<Suc n * 8] = [0..<n * 8] @ [n * 8..<n * 8 + 8]"
    using upt_add_eq_append [of 0 "n * 8" 8] by (simp only: mult_Suc add.commute)
  ultimately show ?case using Suc by simp
qed simp

lemma scan_bytes_Least:
  "scan_bytes a L [0..<div_ceil L 8] =
     (if \<exists>f < L. \<not> is_used a f then Some (LEAST f. f < L \<and> \<not> is_used a f) else None)"
proof -
  have "L \<le> div_ceil L 8 * 8" unfolding div_ceil_def by linarith
  then have e: "(\<exists>f < div_ceil L 8 * 8. f < L \<and> \<not> is_used a f) \<longleftrightarrow> (\<exists>f < L. \<not> is_used a f)"
    by (meson order_less_le_trans)
  show ?thesis unfolding scan_bytes_concat [OF refl] concat_blocks [OF refl] find_upt_Least e ..
qed

lemma saturating_sub_exact: "b \<le> a \<Longrightarrow> saturating_sub a b = a - b"
  by (simp add: saturating_sub_def)

lemma free_below_iff: "L \<le> MAX_FRAMES \<Longrightarrow> f < L \<and> \<not> is_used a f \<longleftrightarrow> f < L \<and> f \<in> free_set a"
  by (auto simp: free_set_def)

lemma take_one: "take_frames 1 P F = (if \<exists>s. P s \<and> s \<in> F then
    (Some (of_nat ((LEAST s. P s \<and> s \<in> F) * 4096)), F - {LEAST s. P s \<and> s \<in> F}) else (None, F))"
  by (simp add: take_frames_def Let_def)

lemma allocate_below_spec:
  assumes "fa_ok a" "allocate_below l a = (r, a')"
  shows "fa_ok a' \<and> (r, free_set a') = take_frames 1 (\<lambda>s. s < unat l div 4096) (free_set a)"
proof -
  let ?L = "min (unat l div 4096) MAX_FRAMES"
  let ?P = "\<lambda>f. f < unat l div 4096 \<and> f \<in> free_set a"
  have P: "f < ?L \<and> \<not> is_used a f \<longleftrightarrow> ?P f" for f by (auto simp: free_set_def)
  have scan: "scan_bytes a ?L [0..<div_ceil ?L 8] = (if \<exists>f. ?P f then Some (LEAST f. ?P f) else None)"
    unfolding scan_bytes_Least P by (rule refl)
  show ?thesis
  proof (cases "\<exists>f. ?P f")
    case True
    define m where "m = (LEAST f. ?P f)"
    have m: "m \<in> free_set a" using LeastI_ex [OF True] by (simp add: m_def)
    then have "0 < unat (fa_free_frames a)" using assms(1) by (auto simp: fa_ok_def card_gt_0_iff)
    then have "saturating_sub (fa_free_frames a) 1 = fa_free_frames a - 1"
      by (intro saturating_sub_exact) (simp add: word_le_nat_alt)
    then have "(r, a') = (Some (of_nat (m * 4096)), (set_used m a)\<lparr>fa_free_frames := fa_free_frames a - 1\<rparr>)"
      using assms(2) scan [unfolded if_P [OF True]] by (simp add: allocate_below_def frame_consts(1) Let_def m_def)
    with take_used [OF assms(1) m] True show ?thesis by (simp add: take_one m_def del: One_nat_def)
  next
    case False
    note scan = scan [unfolded if_not_P [OF False]]
    have "(r, a') = (None, a)" using assms(2) scan by (simp add: allocate_below_def frame_consts(1) Let_def)
    with False assms(1) show ?thesis by (simp add: take_one del: One_nat_def)
  qed
qed

lemma fold_set_used:
  assumes "length (fa_bitmap a) = BITMAP_SIZE" "\<forall>f \<in> set fs. f < MAX_FRAMES"
  shows "length (fa_bitmap (fold set_used fs a)) = BITMAP_SIZE \<and> fa_free_frames (fold set_used fs a) = fa_free_frames a \<and>
    free_set (fold set_used fs a) = free_set a - set fs"
  using assms
proof (induction fs arbitrary: a)
  case (Cons f fs)
  with Cons.IH [of "set_used f a"] free_set_used [of a f] show ?case by auto
qed simp

lemma power_of_two_iff: "usize_is_power_of_two n \<longleftrightarrow> (\<exists>k < 64. n = 2 ^ k)"
  unfolding usize_is_power_of_two_def list_ex_iff by auto

text \<open>A search below a bound for \<open>Q\<close> finds the least \<open>P\<close> when \<open>P\<close> is \<open>Q\<close> below the bound.\<close>

lemma find_bounded_Least:
  assumes "\<And>s. P s \<longleftrightarrow> s < k \<and> Q s"
  shows "List.find Q [0..<k] = (if \<exists>s. P s then Some (LEAST s. P s) else None)"
proof -
  have "List.find Q [0..<k] = List.find P [0..<k]" by (rule find_cong) (simp_all add: assms)
  then show ?thesis unfolding find_upt_Least by (metis assms)
qed

lemma run_inside:
  assumes "{s..<s + n} \<subseteq> free_set a" "n \<noteq> 0"
  shows "s + n \<le> MAX_FRAMES"
proof -
  have "s + n - 1 \<in> free_set a" using assms by auto
  then have "s + n - 1 < MAX_FRAMES" by (simp add: free_set_def)
  then show ?thesis using assms(2) by linarith
qed

lemma find_run:
  assumes "n \<noteq> 0" "n \<le> min l MAX_FRAMES"
    "P = (\<lambda>s. (al dvd s \<and> s + n \<le> l) \<and> {s..<s + n} \<subseteq> free_set a)"
  shows "List.find (\<lambda>start. start mod al = 0 \<and> \<not> list_ex (is_used a) [start..<start + n]) [0..<min l MAX_FRAMES - n + 1] =
    (if \<exists>s. P s then Some (LEAST s. P s) else None)"
proof (rule find_bounded_Least)
  fix s
  have "s < min l MAX_FRAMES - n + 1 \<longleftrightarrow> s + n \<le> min l MAX_FRAMES" using assms(2) by linarith
  then show "P s \<longleftrightarrow> s < min l MAX_FRAMES - n + 1 \<and> s mod al = 0 \<and> \<not> list_ex (is_used a) [s..<s + n]"
    using run_inside [of s n a] assms(1) by (auto simp: assms(3) list_ex_iff free_set_def dvd_eq_mod_eq_0)
qed

lemma take_run:
  assumes "fa_ok a" "n \<noteq> 0" "{m..<m + n} \<subseteq> free_set a"
    "a' = (fold set_used [m..<m + n] a)\<lparr>fa_free_frames := saturating_sub (fa_free_frames a) (of_nat n)\<rparr>"
  shows "fa_ok a' \<and> free_set a' = free_set a - {m..<m + n}"
proof -
  have f: "free_set (fold set_used [m..<m + n] a) = free_set a - {m..<m + n}"
    "length (fa_bitmap (fold set_used [m..<m + n] a)) = BITMAP_SIZE"
    using fold_set_used [of a "[m..<m + n]"] assms(1) run_inside [OF assms(3,2)] by (auto simp: fa_ok_def)
  have c: "card (free_set a - {m..<m + n}) = card (free_set a) - n" "n \<le> card (free_set a)"
    using assms(3) card_Diff_subset [of "{m..<m + n}" "free_set a"] card_mono [of "free_set a" "{m..<m + n}"] by simp_all
  have "n \<le> unat (fa_free_frames a)" using c(2) assms(1) by (simp add: fa_ok_def)
  moreover have "unat (of_nat n :: u64) \<le> n" by (simp add: unat_of_nat)
  ultimately have "saturating_sub (fa_free_frames a) (of_nat n) = fa_free_frames a - of_nat n"
    by (intro saturating_sub_exact) (simp add: word_le_nat_alt)
  then show ?thesis using f c assms(1,4) unat_sub_small [of n "fa_free_frames a"] by (simp add: fa_ok_def)
qed

lemma contiguous_spec:
  assumes "fa_ok a" "n \<noteq> 0" "usize_is_power_of_two al" "allocate_contiguous_below n l al a = (r, a')"
  shows "fa_ok a' \<and> (r, free_set a') = take_frames n (\<lambda>s. al dvd s \<and> s + n \<le> unat l div 4096) (free_set a)"
proof -
  define P where "P = (\<lambda>s. (al dvd s \<and> s + n \<le> unat l div 4096) \<and> {s..<s + n} \<subseteq> free_set a)"
  let ?L = "min (unat l div 4096) MAX_FRAMES"
  have spec: "take_frames n (\<lambda>s. al dvd s \<and> s + n \<le> unat l div 4096) (free_set a) =
      (if \<exists>s. P s then (Some (of_nat ((LEAST s. P s) * 4096)), free_set a - {LEAST s. P s..<(LEAST s. P s) + n}) else (None, free_set a))"
    unfolding take_frames_def P_def Let_def by (rule refl)
  show ?thesis
  proof (cases "\<exists>s. P s")
    case True
    then have m: "P (LEAST s. P s)" by (rule LeastI_ex)
    then have "(LEAST s. P s) + n \<le> MAX_FRAMES" using run_inside assms(2) unfolding P_def by blast
    then have "n \<le> ?L" using m unfolding P_def by linarith
    with find_run [OF assms(2) this P_def] True assms(2-4)
    have "r = Some (of_nat ((LEAST s. P s) * 4096))"
      "a' = (fold set_used [LEAST s. P s..<(LEAST s. P s) + n] a)\<lparr>fa_free_frames := saturating_sub (fa_free_frames a) (of_nat n)\<rparr>"
      by (auto simp: allocate_contiguous_below_def frame_consts(1) Let_def)
    with take_run [OF assms(1,2) _ this(2)] m True show ?thesis unfolding spec P_def by simp
  next
    case False
    have "(r, a') = (None, a)"
      using find_run [OF assms(2) _ P_def] False assms(2-4)
      by (cases "n \<le> ?L") (auto simp: allocate_contiguous_below_def frame_consts(1) Let_def)
    with False assms(1) show ?thesis unfolding spec by simp
  qed
qed

lemma fa_exec_refines:
  assumes "fa_ok a"
  shows "fa_ok (snd (fa_exec x a)) \<and> (fst (fa_exec x a), free_set (snd (fa_exec x a))) = spec_exec x (free_set a)"
proof (cases x)
  case (Mark_Free s e)
  with fold_mark_free [OF assms] show ?thesis by (simp add: mark_region_free_def frame_consts)
next
  case (Mark_Used s e)
  with fold_mark_used [OF assms] show ?thesis by (simp add: mark_region_used_def frame_consts div_ceil_def add.commute)
next
  case (Alloc_Below l)
  with allocate_below_spec [OF assms, of l "fst (allocate_below l a)" "snd (allocate_below l a)"] show ?thesis
    by (simp del: One_nat_def)
next
  case Alloc
  have l: "unat (of_nat MAX_MEMORY :: u64) div 4096 = MAX_FRAMES" by (simp add: frame_consts)
  have "take_frames 1 (\<lambda>s. s < MAX_FRAMES) (free_set a) = take_frames 1 (\<lambda>_. True) (free_set a)"
  proof -
    have "s < MAX_FRAMES \<and> s \<in> free_set a \<longleftrightarrow> s \<in> free_set a" for s by (auto simp: free_set_def)
    then show ?thesis by (simp add: take_one del: One_nat_def)
  qed
  with Alloc l allocate_below_spec [OF assms, of "of_nat MAX_MEMORY" "fst (allocate_frame a)" "snd (allocate_frame a)"]
  show ?thesis by (simp add: allocate_frame_def del: One_nat_def)
next
  case (Alloc_Contiguous n l al)
  show ?thesis
  proof (cases "n \<noteq> 0 \<and> usize_is_power_of_two al")
    case True
    with contiguous_spec [OF assms, of n al l "fst (allocate_contiguous_below n l al a)" "snd (allocate_contiguous_below n l al a)"]
    show ?thesis by (simp add: Alloc_Contiguous power_of_two_iff)
  next
    case False
    with assms show ?thesis by (auto simp: Alloc_Contiguous power_of_two_iff allocate_contiguous_below_def)
  qed
next
  case (Dealloc addr)
  with mark_free_frame_spec [OF assms] show ?thesis by (simp add: deallocate_def frame_consts)
qed

lemma run_refines:
  "fa_ok a \<Longrightarrow> fa_ok (snd (run_ops fa_exec ops a)) \<and>
     (fst (run_ops fa_exec ops a), free_set (snd (run_ops fa_exec ops a))) = run_ops spec_exec ops (free_set a)"
proof (induction ops arbitrary: a)
  case (Cons x ops)
  obtain r a' where x: "fa_exec x a = (r, a')" by fastforce
  with fa_exec_refines [OF Cons.prems, of x] have s: "spec_exec x (free_set a) = (r, free_set a')" "fa_ok a'" by auto
  from Cons.IH [OF s(2)] x s(1) show ?case
    by (cases "run_ops fa_exec ops a'"; cases "run_ops spec_exec ops (free_set a')") auto
qed simp

lemma fa_ok_new: "fa_ok BitmapFrameAllocator_new" "free_set BitmapFrameAllocator_new = {}"
proof -
  have b: "bit (255 :: u8) i" if "i < 8" for i
  proof -
    have "(255 :: u8) = - 1" by simp
    then show ?thesis using that by (simp only: bit_minus_1_iff) simp
  qed
  have "is_used BitmapFrameAllocator_new f" if "f < MAX_FRAMES" for f
    using that b [of "f mod 8"] by (simp add: is_used_bit BitmapFrameAllocator_new_def frame_consts)
  then show e: "free_set BitmapFrameAllocator_new = {}" by (auto simp: free_set_def)
  show "fa_ok BitmapFrameAllocator_new" unfolding fa_ok_def e by (simp add: BitmapFrameAllocator_new_def)
qed

section \<open>Properties\<close>

text \<open>
  C14. The bitmap allocator implements the set of free frames: over any sequence of requests from the
  initial allocator, every result equals that of the specification, which hands out the lowest
  free frame, or the lowest aligned run of free frames, below the limit and takes it out of the
  set, and fails only when there is none; the free counter is the number of free frames.
\<close>

theorem frame_allocator_refines_free_set:
  "fst (run_ops fa_exec ops BitmapFrameAllocator_new) = fst (run_ops spec_exec ops {}) \<and>
   free_set (snd (run_ops fa_exec ops BitmapFrameAllocator_new)) = snd (run_ops spec_exec ops {}) \<and>
   unat (free_count (snd (run_ops fa_exec ops BitmapFrameAllocator_new))) = card (snd (run_ops spec_exec ops {}))"
  using run_refines [OF fa_ok_new(1), of ops] unfolding fa_ok_new(2) fa_ok_def free_count_def
  by (metis fst_conv snd_conv)

end
