(* ===== verification/Paging.thy ===== *)
theory Paging
  imports Process
begin

text \<open>
  User-mapping validation of \<^verbatim>\<open>src/kernel/src/memory/paging.rs\<close>: the walk of the 4-level page
  tables that intersects the permissions of every level, and the pinned ranges that combine it
  with the address-space pins of the process table. The page-table types belong to the
  \<^verbatim>\<open>x86_64\<close> crate; what the walk uses of them is a record of parameters: the level-4 table,
  the tables found in the direct map, the flag and address fields of an entry, the index of a page
  at a level, and which addresses are canonical.
\<close>

section \<open>The mapper and its entries\<close>

record 'e mapper =
  level_4_table :: "nat \<Rightarrow> 'e"
  phys_offset :: u64
  table_at :: "u64 \<Rightarrow> nat \<Rightarrow> 'e"
  entry_flags :: "'e \<Rightarrow> u64"
  entry_addr :: "'e \<Rightarrow> u64"
  page_index :: "nat \<Rightarrow> u64 \<Rightarrow> nat"
  canonical :: "u64 \<Rightarrow> bool"

text \<open>The architectural flag bits of an entry.\<close>

definition PTE_PRESENT :: u64 where "PTE_PRESENT = push_bit 0 1"
definition PTE_WRITABLE :: u64 where "PTE_WRITABLE = push_bit 1 1"
definition PTE_USER_ACCESSIBLE :: u64 where "PTE_USER_ACCESSIBLE = push_bit 2 1"
definition PTE_HUGE_PAGE :: u64 where "PTE_HUGE_PAGE = push_bit 7 1"

definition flags_contain :: "u64 \<Rightarrow> u64 \<Rightarrow> bool" where
  "flags_contain flags f \<longleftrightarrow> flags AND f = f"

section \<open>The walk\<close>

definition child_table :: "'e mapper \<Rightarrow> 'e \<Rightarrow> (nat \<Rightarrow> 'e) option" where
  "child_table m entry =
     (let flags = entry_flags m entry
      in if \<not> flags_contain flags PTE_PRESENT \<or> flags_contain flags PTE_HUGE_PAGE then None
         else case checked_add (phys_offset m) (entry_addr m entry) of
                None \<Rightarrow> None
              | Some table_address \<Rightarrow>
                  if canonical m table_address then Some (table_at m table_address) else None)"

definition intersect_flags :: "u64 \<Rightarrow> u64 \<Rightarrow> u64" where
  "intersect_flags left right = left AND right"

definition permissions_from_flags :: "u64 \<Rightarrow> UserPagePermissions" where
  "permissions_from_flags flags =
     \<lparr>present = flags_contain flags PTE_PRESENT, user_accessible = flags_contain flags PTE_USER_ACCESSIBLE,
      writable = flags_contain flags PTE_WRITABLE\<rparr>"

definition effective_user_page_permissions :: "'e mapper \<Rightarrow> u64 \<Rightarrow> UserPagePermissions" where
  "effective_user_page_permissions m page =
     (let p4_entry = level_4_table m (page_index m 4 page);
          p4_flags = entry_flags m p4_entry
      in if \<not> flags_contain p4_flags PTE_PRESENT then UserPagePermissions_unmapped
         else case child_table m p4_entry of
           None \<Rightarrow> UserPagePermissions_unmapped
         | Some p3 \<Rightarrow>
           (let p3_entry = p3 (page_index m 3 page);
                p3_flags = entry_flags m p3_entry
            in if \<not> flags_contain p3_flags PTE_PRESENT then UserPagePermissions_unmapped
               else if flags_contain p3_flags PTE_HUGE_PAGE then
                 (if entry_addr m p3_entry AND ((push_bit 30 1 - 1) AND NOT (push_bit 12 1)) \<noteq> 0
                  then UserPagePermissions_unmapped
                  else permissions_from_flags (intersect_flags p4_flags p3_flags))
               else case child_table m p3_entry of
                 None \<Rightarrow> UserPagePermissions_unmapped
               | Some p2 \<Rightarrow>
                 (let p2_entry = p2 (page_index m 2 page);
                      p2_flags = entry_flags m p2_entry
                  in if \<not> flags_contain p2_flags PTE_PRESENT then UserPagePermissions_unmapped
                     else if flags_contain p2_flags PTE_HUGE_PAGE then
                       (if entry_addr m p2_entry AND ((push_bit 21 1 - 1) AND NOT (push_bit 12 1)) \<noteq> 0
                        then UserPagePermissions_unmapped
                        else permissions_from_flags (intersect_flags (intersect_flags p4_flags p3_flags) p2_flags))
                     else case child_table m p2_entry of
                       None \<Rightarrow> UserPagePermissions_unmapped
                     | Some p1 \<Rightarrow>
                       (let p1_flags = entry_flags m (p1 (page_index m 1 page))
                        in if \<not> flags_contain p1_flags PTE_PRESENT then UserPagePermissions_unmapped
                           else permissions_from_flags
                             (intersect_flags (intersect_flags (intersect_flags p4_flags p3_flags) p2_flags) p1_flags)))))"

definition validate_user_range :: "'e mapper \<Rightarrow> UserRange \<Rightarrow> (unit, UserPageValidationError) result" where
  "validate_user_range m rng = UserRange_validate_pages rng (effective_user_page_permissions m)"

section \<open>Pinned ranges\<close>

datatype PinnedUserRangeError = Pin_AddressSpace AddressSpaceError | Pin_Pages UserPageValidationError

record PinnedUserRange =
  pr_pin :: AddressSpacePin
  pr_range :: UserRange

definition PinnedUserRange_generation :: "PinnedUserRange \<Rightarrow> u64" where
  "PinnedUserRange_generation r = pin_generation (pr_pin r)"

definition PinnedUserRange_is_current_in :: "PinnedUserRange \<Rightarrow> ProcessTable \<Rightarrow> bool" where
  "PinnedUserRange_is_current_in r t =
     (case ProcessTable_get t (pin_pid (pr_pin r)) of
        Some p \<Rightarrow> as_generation (proc_address_space p) = PinnedUserRange_generation r
      | None \<Rightarrow> False)"

definition PinnedUserRange_release_in ::
  "PinnedUserRange \<Rightarrow> ProcessTable \<Rightarrow> (unit, AddressSpaceError) result \<times> ProcessTable" where
  "PinnedUserRange_release_in r t = ProcessTable_release_address_space_pin (pr_pin r) t"

definition pin_and_validate_user_range_in ::
  "Pid \<Rightarrow> 'e mapper \<Rightarrow> UserRange \<Rightarrow> ProcessTable \<Rightarrow> (PinnedUserRange, PinnedUserRangeError) result \<times> ProcessTable" where
  "pin_and_validate_user_range_in pid m rng t =
     (case ProcessTable_pin_address_space pid t of
        (Inl e, t) \<Rightarrow> (Err (Pin_AddressSpace e), t)
      | (Inr pin, t) \<Rightarrow>
          (case validate_user_range m rng of
             Inl error \<Rightarrow> (Err (Pin_Pages error), snd (ProcessTable_release_address_space_pin pin t))
           | Inr _ \<Rightarrow> (Ok \<lparr>pr_pin = pin, pr_range = rng\<rparr>, t)))"

section \<open>The walk as a recursion over levels\<close>

text \<open>
  The entries a translation passes through, from the root to the leaf, at any number of levels:
  absent when an entry is not present, when a large page stands at a level that has none or is
  misaligned, or when a table cannot be reached. Leaves are level-1 entries and large pages of
  levels 2 and 3, whose base is a multiple of their size apart from bit 12.
\<close>

definition large_leaf_ok :: "'e mapper \<Rightarrow> nat \<Rightarrow> 'e \<Rightarrow> bool" where
  "large_leaf_ok m level e \<longleftrightarrow> level \<in> {2, 3} \<and>
     (\<forall>i < 12 + 9 * (level - 1). i \<noteq> 12 \<longrightarrow> \<not> bit (entry_addr m e) i)"

fun walk :: "'e mapper \<Rightarrow> u64 \<Rightarrow> nat \<Rightarrow> (nat \<Rightarrow> 'e) \<Rightarrow> 'e list option" where
  "walk m page 0 table = None"
| "walk m page (Suc l) table =
     (let e = table (page_index m (Suc l) page)
      in if \<not> bit (entry_flags m e) 0 then None
         else if l = 0 then Some [e]
         else if bit (entry_flags m e) 7 then (if large_leaf_ok m (Suc l) e then Some [e] else None)
         else case checked_add (phys_offset m) (entry_addr m e) of
                None \<Rightarrow> None
              | Some a \<Rightarrow> if canonical m a then map_option (Cons e) (walk m page l (table_at m a)) else None)"

definition path_permissions :: "'e mapper \<Rightarrow> 'e list \<Rightarrow> UserPagePermissions" where
  "path_permissions m es =
     \<lparr>present = True, user_accessible = (\<forall>e \<in> set es. bit (entry_flags m e) 2),
      writable = (\<forall>e \<in> set es. bit (entry_flags m e) 1)\<rparr>"

lemma contain_bit:
  "flags_contain w PTE_PRESENT \<longleftrightarrow> bit w 0" "flags_contain w PTE_WRITABLE \<longleftrightarrow> bit w 1"
  "flags_contain w PTE_USER_ACCESSIBLE \<longleftrightarrow> bit w 2" "flags_contain w PTE_HUGE_PAGE \<longleftrightarrow> bit w 7"
proof -
  have *: "w AND push_bit n 1 = push_bit n 1 \<longleftrightarrow> bit w n" if "n < 64" for n
  proof
    assume "w AND push_bit n 1 = push_bit n 1"
    then have "bit (w AND push_bit n 1) n = bit (push_bit n (1 :: u64)) n" by simp
    then show "bit w n" using that by (simp add: bit_simps)
  next
    assume "bit w n"
    then show "w AND push_bit n 1 = push_bit n 1" by (intro bit_word_eqI) (auto simp: bit_simps)
  qed
  show "flags_contain w PTE_PRESENT \<longleftrightarrow> bit w 0" "flags_contain w PTE_WRITABLE \<longleftrightarrow> bit w 1"
    "flags_contain w PTE_USER_ACCESSIBLE \<longleftrightarrow> bit w 2" "flags_contain w PTE_HUGE_PAGE \<longleftrightarrow> bit w 7"
    unfolding flags_contain_def PTE_PRESENT_def PTE_WRITABLE_def PTE_USER_ACCESSIBLE_def PTE_HUGE_PAGE_def
    by (rule *; simp)+
qed

lemma large_mask:
  fixes a :: u64
  assumes "n < 64"
  shows "a AND ((push_bit n 1 - 1) AND NOT (push_bit 12 1)) = 0 \<longleftrightarrow> (\<forall>i < n. i \<noteq> 12 \<longrightarrow> \<not> bit a i)"
proof -
  have m: "push_bit n 1 - 1 = (mask n :: u64)" by (simp add: mask_eq_exp_minus_1)
  have b: "bit (a AND (mask n AND NOT (push_bit 12 1))) i \<longleftrightarrow> bit a i \<and> i < n \<and> i \<noteq> 12" for i
    using assms bit_imp_le_length [of a i]
    by (auto simp only: bit_and_iff bit_mask_iff bit_not_iff bit_push_bit_iff bit_1_iff possible_bit_word)
  have "a AND (mask n AND NOT (push_bit 12 1)) = 0 \<longleftrightarrow> (\<forall>i. \<not> bit (a AND (mask n AND NOT (push_bit 12 1))) i)"
    by (metis bit_0_eq bit_word_eqI bot_apply bot_bool_def)
  then show ?thesis unfolding m b by blast
qed

lemma child_table_bits:
  "child_table m e = (if \<not> bit (entry_flags m e) 0 \<or> bit (entry_flags m e) 7 then None
     else case checked_add (phys_offset m) (entry_addr m e) of None \<Rightarrow> None
       | Some a \<Rightarrow> if canonical m a then Some (table_at m a) else None)"
  by (simp add: child_table_def contain_bit Let_def)

lemma walk_levels:
  "walk m page (Suc 0) t =
     (let e = t (page_index m (Suc 0) page) in if bit (entry_flags m e) 0 then Some [e] else None)"
  "l \<noteq> 0 \<Longrightarrow> walk m page (Suc l) t =
     (let e = t (page_index m (Suc l) page)
      in if \<not> bit (entry_flags m e) 0 then None
         else if bit (entry_flags m e) 7 then (if large_leaf_ok m (Suc l) e then Some [e] else None)
         else case child_table m e of None \<Rightarrow> None | Some p \<Rightarrow> map_option (Cons e) (walk m page l p))"
  by (auto simp: Let_def child_table_bits split: option.splits)

lemma large_leaf:
  "entry_addr m e AND ((push_bit 30 1 - 1) AND NOT (push_bit 12 1)) = 0 \<longleftrightarrow> large_leaf_ok m 3 e"
  "entry_addr m e AND ((push_bit 21 1 - 1) AND NOT (push_bit 12 1)) = 0 \<longleftrightarrow> large_leaf_ok m 2 e"
  using large_mask [of 30 "entry_addr m e"] large_mask [of 21 "entry_addr m e"] by (simp_all add: large_leaf_ok_def)

lemma effective_walk:
  "effective_user_page_permissions m page =
     (case walk m page 4 (level_4_table m) of None \<Rightarrow> UserPagePermissions_unmapped | Some es \<Rightarrow> path_permissions m es)"
proof -
  have n: "\<not> large_leaf_ok m 4 e" for e by (simp add: large_leaf_ok_def)
  have c: "child_table m e = None" if "bit (entry_flags m e) 7" for e using that by (simp add: child_table_bits)
  have s2: "Suc (Suc 0) = 2" "Suc 2 = 3" "Suc 3 = 4" by simp_all
  have s0: "Suc 0 \<noteq> 0" "(2::nat) \<noteq> 0" "(3::nat) \<noteq> 0" by simp_all
  have w: "walk m page 2 t = (let e = t (page_index m 2 page)
      in if \<not> bit (entry_flags m e) 0 then None
         else if bit (entry_flags m e) 7 then (if large_leaf_ok m 2 e then Some [e] else None)
         else case child_table m e of None \<Rightarrow> None | Some p \<Rightarrow> map_option (Cons e) (walk m page (Suc 0) p))"
    "walk m page 3 t = (let e = t (page_index m 3 page)
      in if \<not> bit (entry_flags m e) 0 then None
         else if bit (entry_flags m e) 7 then (if large_leaf_ok m 3 e then Some [e] else None)
         else case child_table m e of None \<Rightarrow> None | Some p \<Rightarrow> map_option (Cons e) (walk m page 2 p))"
    "walk m page 4 t = (let e = t (page_index m 4 page)
      in if \<not> bit (entry_flags m e) 0 then None
         else if bit (entry_flags m e) 7 then (if large_leaf_ok m 4 e then Some [e] else None)
         else case child_table m e of None \<Rightarrow> None | Some p \<Rightarrow> map_option (Cons e) (walk m page 3 p))" for t
    by (rule walk_levels(2) [OF s0(1), unfolded s2] walk_levels(2) [OF s0(2), unfolded s2]
        walk_levels(2) [OF s0(3), unfolded s2])+
  show ?thesis
    unfolding effective_user_page_permissions_def Let_def contain_bit large_leaf
    by (simp add: w walk_levels(1) n c large_leaf permissions_from_flags_def path_permissions_def contain_bit intersect_flags_def
        bit_and_iff Let_def split: option.splits)
qed

section \<open>Pinning and validating\<close>

text \<open>A byte is mapped for an access when every entry on the path to it permits the access.\<close>

definition byte_mapped :: "'e mapper \<Rightarrow> UserAccess \<Rightarrow> u64 \<Rightarrow> bool" where
  "byte_mapped m access a \<longleftrightarrow>
     (\<exists>es. walk m (a div USER_PAGE_SIZE * USER_PAGE_SIZE) 4 (level_4_table m) = Some es \<and>
        (\<forall>e \<in> set es. bit (entry_flags m e) 2 \<and> (access = Access_Write \<longrightarrow> bit (entry_flags m e) 1)))"

lemma page_allows_walk:
  "page_allows access (effective_user_page_permissions m (a div USER_PAGE_SIZE * USER_PAGE_SIZE)) \<longleftrightarrow>
     byte_mapped m access a"
  unfolding effective_walk byte_mapped_def
  by (auto simp: page_allows_def path_permissions_def UserPagePermissions_unmapped_def split: option.splits)

lemma validate_user_range_bytes:
  assumes "UserRange_new start len access maximum = Ok rng"
  shows "validate_user_range m rng = Ok () \<longleftrightarrow>
    (\<forall>a. start \<le> a \<and> unat a < unat start + unat len \<longrightarrow> byte_mapped m access a)"
  unfolding validate_user_range_def validate_pages_bytes [OF assms] page_allows_walk ..

text \<open>Taking a pin, and giving it back when the validation fails.\<close>

lemma pin_cases:
  assumes "ProcessTable_pin_address_space pid t = (r, t1)"
  obtains (failed) e where "r = Err e" "\<And>j. ProcessTable_get t1 j = ProcessTable_get t j"
  | (pinned) p n where "ProcessTable_get t pid = Some p" "n \<noteq> 0" "n - 1 = as_pins (proc_address_space p)"
      "r = Ok \<lparr>pin_pid = pid, pin_generation = as_generation (proc_address_space p)\<rparr>"
      "\<And>j. ProcessTable_get t1 j = (if j = pid then
           Some (p\<lparr>proc_address_space := (proc_address_space p)\<lparr>as_pins := n\<rparr>\<rparr>) else ProcessTable_get t j)"
proof (cases "ProcessTable_get t pid")
  case None
  with assms show ?thesis by (intro failed) (auto simp: ProcessTable_pin_address_space_def with_address_space_def)
next
  case (Some p)
  note w = assms [unfolded ProcessTable_pin_address_space_def]
  note g = with_address_space_get [OF w, unfolded Some option.map]
  have r: "r = fst (AddressSpaceState_pin pid (proc_address_space p))"
    using w Some by (auto simp: with_address_space_def split: prod.splits)
  show ?thesis
  proof (cases "checked_add (as_pins (proc_address_space p)) 1")
    case None
    then show ?thesis using r g Some by (intro failed) (auto simp: AddressSpaceState_pin_def)
  next
    case (Some n)
    have n: "n = as_pins (proc_address_space p) + 1" "unat n = unat (as_pins (proc_address_space p)) + 1"
      using Some by (auto simp: checked_add_Some_iff)
    show ?thesis
      by (rule pinned [OF \<open>ProcessTable_get t pid = Some p\<close>, of n])
        (use n g r Some in \<open>auto simp: AddressSpaceState_pin_def\<close>)
  qed
qed

lemma release_get:
  assumes "ProcessTable_get t1 pid = Some p" "as_pins (proc_address_space p) \<noteq> 0"
    "g = as_generation (proc_address_space p)"
  shows "ProcessTable_get (snd (ProcessTable_release_address_space_pin \<lparr>pin_pid = pid, pin_generation = g\<rparr> t1)) j =
     (if j = pid then Some (p\<lparr>proc_address_space := (proc_address_space p)\<lparr>as_pins := as_pins (proc_address_space p) - 1\<rparr>\<rparr>)
      else ProcessTable_get t1 j)"
    "fst (ProcessTable_release_address_space_pin \<lparr>pin_pid = pid, pin_generation = g\<rparr> t1) = Ok ()"
  using assms with_address_space_get
    [of pid "AddressSpaceState_release \<lparr>pin_pid = pid, pin_generation = g\<rparr>" t1, OF surjective_pairing]
  by (auto simp: ProcessTable_release_address_space_pin_def AddressSpaceState_release_def with_address_space_def)

section \<open>Properties\<close>

text \<open>
  C15. A range is handed out pinned only when it is mapped: if the kernel accepts a user range,
  every byte of it is reached by a page-table path all of whose entries are user accessible, and
  writable for a write; the pin is current, keeps the address space from changing and can be
  given back. If it refuses the range, no process record has changed, and a refusal for the
  pages means that some byte of the range is not mapped so.
\<close>

theorem pinned_range_is_mapped:
  assumes range: "UserRange_new start len access maximum = Ok rng"
    and step: "pin_and_validate_user_range_in pid m rng t = (r, t')"
  shows "case r of
      Inr pr \<Rightarrow> (\<forall>a. start \<le> a \<and> unat a < unat start + unat len \<longrightarrow> byte_mapped m access a) \<and>
        PinnedUserRange_is_current_in pr t' \<and>
        fst (ProcessTable_bump_address_space_generation pid t') = Err AsErr_Busy \<and>
        fst (PinnedUserRange_release_in pr t') = Ok ()
    | Inl e \<Rightarrow> (\<forall>j. ProcessTable_get t' j = ProcessTable_get t j) \<and>
        ((\<exists>x. e = Pin_Pages x) \<longrightarrow>
         (\<exists>a. start \<le> a \<and> unat a < unat start + unat len \<and> \<not> byte_mapped m access a))"
proof -
  obtain q t1 where p: "ProcessTable_pin_address_space pid t = (q, t1)" by force
  note v = validate_user_range_bytes [OF range, of m]
  show ?thesis
    using p
  proof (cases rule: pin_cases)
    case (failed e)
    then show ?thesis using step p by (auto simp: pin_and_validate_user_range_in_def)
  next
    case (pinned p n)
    note rel = release_get [OF pinned(5) [of pid, unfolded if_P [OF refl]], simplified, OF pinned(2) refl]
    show ?thesis
    proof (cases "validate_user_range m rng")
      case (Inl e)
      have "p\<lparr>proc_address_space := (proc_address_space p)\<lparr>as_pins := n - 1\<rparr>\<rparr> = p" using pinned(3) by simp
      then have "ProcessTable_get t' j = ProcessTable_get t j" for j
        using step p pinned Inl rel(1) [of j] by (simp add: pin_and_validate_user_range_in_def)
      moreover have "r = Err (Pin_Pages e)" using step p pinned Inl by (simp add: pin_and_validate_user_range_in_def)
      ultimately show ?thesis using v Inl by auto
    next
      case (Inr u)
      then have "r = Ok \<lparr>pr_pin = \<lparr>pin_pid = pid, pin_generation = as_generation (proc_address_space p)\<rparr>, pr_range = rng\<rparr>"
        "t' = t1" using step p pinned by (simp_all add: pin_and_validate_user_range_in_def)
      then show ?thesis using v Inr pinned rel(2)
        by (auto simp: PinnedUserRange_is_current_in_def PinnedUserRange_generation_def PinnedUserRange_release_in_def
            ProcessTable_bump_address_space_generation_def with_address_space_def AddressSpaceState_bump_generation_def)
    qed
  qed
qed

text \<open>Page tables whose entries map everything to user space, with the crate's field layout.\<close>

definition open_mapper :: "u64 mapper" where
  "open_mapper = \<lparr>level_4_table = (\<lambda>_. 7), phys_offset = 0x10000, table_at = (\<lambda>_ _. 7), entry_flags = (\<lambda>e. e),
     entry_addr = (\<lambda>e. e AND 0x000FFFFFFFFFF000), page_index = (\<lambda>l p. unat (drop_bit (3 + 9 * l) p) mod 512),
     canonical = (\<lambda>a. a < 0x0000800000000000)\<rparr>"

theorem pinned_range_is_mapped_witness:
  "let t = snd (the (ProcessTable_create (ascii ''init'', None, 1) ProcessTable_new));
       rng = \<lparr>ur_start = 0x4FFF, ur_len = 2, ur_access = Access_Write\<rparr>;
       (r, t') = pin_and_validate_user_range_in 1 open_mapper rng t
   in (\<exists>pr. r = Ok pr) \<and> byte_mapped open_mapper Access_Write 0x5000 \<and>
      fst (ProcessTable_bump_address_space_generation 1 t') = Err AsErr_Busy"
proof -
  let ?t = "snd (the (ProcessTable_create (ascii ''init'', None, 1) ProcessTable_new))"
  let ?rng = "\<lparr>ur_start = 0x4FFF, ur_len = 2, ur_access = Access_Write\<rparr>"
  let ?res = "pin_and_validate_user_range_in 1 open_mapper ?rng ?t"
  have r: "UserRange_new 0x4FFF 2 Access_Write 2 = Ok ?rng"
    by (simp add: UserRange_new_def UserRange_new_iff USER_ADDRESS_MAX_eq)
  have ok: "effective_user_page_permissions open_mapper page = \<lparr>present = True, user_accessible = True, writable = True\<rparr>" for page
    by (simp add: effective_user_page_permissions_def open_mapper_def contain_bit child_table_bits
        permissions_from_flags_def intersect_flags_def checked_add_def)
  have "validate_user_range open_mapper ?rng = Ok ()"
    unfolding validate_user_range_def validate_pages_bytes [OF r] by (simp add: ok page_allows_def)
  moreover have "\<exists>pin t1. ProcessTable_pin_address_space 1 ?t = (Ok pin, t1)"
    by (simp add: ProcessTable_create_def ProcessTable_new_def MAX_PROCESSES_def
        ProcessTable_pin_address_space_def with_address_space_def ProcessTable_get_def new_process_def
        AddressSpaceState_pin_def AddressSpaceState_new_def checked_add_def)
  ultimately obtain pr where pr: "fst ?res = Ok pr" by (auto simp: pin_and_validate_user_range_in_def)
  have "(0x4FFF :: u64) \<le> 0x5000 \<and> unat (0x5000 :: u64) < unat (0x4FFF :: u64) + unat (2 :: u64)" by simp
  note byte = this
  note all = pinned_range_is_mapped [OF r surjective_pairing, of 1 open_mapper ?t, unfolded pr sum.case]
  from all have "byte_mapped open_mapper Access_Write 0x5000" using byte by blast
  with all show ?thesis unfolding Let_def case_prod_beta using pr by (intro conjI exI) (elim conjE, assumption)+
qed

end
