(* ===== verification/Byte_Strings.thy ===== *)
theory Byte_Strings
  imports Prelude
begin

text \<open>
  Byte-string primitives of Rust's core library that the file systems and the wire formats use:
  copying into a slice, splitting and trimming paths, little- and big-endian integers, and the facts
  about them that several components share.
\<close>

section \<open>Copying into a slice\<close>

text \<open>\<^verbatim>\<open>buf[off..off + src.len()].copy_from_slice(src)\<close>, for a range inside the buffer.\<close>

definition splice :: "'a list \<Rightarrow> nat \<Rightarrow> 'a list \<Rightarrow> 'a list" where
  "splice buf off src = take off buf @ src @ drop (off + length src) buf"

text \<open>\<^verbatim>\<open>&buf[a..a + n]\<close>.\<close>

definition slice :: "nat \<Rightarrow> nat \<Rightarrow> 'a list \<Rightarrow> 'a list" where
  "slice a n buf = take n (drop a buf)"

lemma length_slice [simp]: "a + n \<le> length buf \<Longrightarrow> length (slice a n buf) = n"
  by (simp add: slice_def)

lemma slice_append: "slice a n buf @ slice (a + n) k buf = slice a (n + k) buf"
  by (simp add: slice_def take_add drop_drop add.commute [of n a])

lemma slice_0 [simp]: "slice a 0 buf = []"
  by (simp add: slice_def)

lemma length_splice [simp]:
  "off + length src \<le> length buf \<Longrightarrow> length (splice buf off src) = length buf"
  by (simp add: splice_def)

lemma nth_splice:
  assumes "off + length src \<le> length buf" "i < length buf"
  shows "splice buf off src ! i = (if off \<le> i \<and> i < off + length src then src ! (i - off) else buf ! i)"
  using assms by (auto simp: splice_def nth_append min_def)

lemma slice_splice_same: "off + length src \<le> length buf \<Longrightarrow> slice off (length src) (splice buf off src) = src"
  by (simp add: slice_def splice_def min_def)

lemma splice_Nil [simp]: "splice buf off [] = buf"
  by (simp add: splice_def)

lemma splice_0: "splice buf 0 src = src @ drop (length src) buf"
  by (simp add: splice_def)

lemma take_splice_0 [simp]: "n = length src \<Longrightarrow> take n (splice buf 0 src) = src"
  by (simp add: splice_def)

section \<open>Integers in byte strings\<close>

definition u16_from_le :: "u8 \<Rightarrow> u8 \<Rightarrow> u16" where
  "u16_from_le a b = ucast a OR push_bit 8 (ucast b)"

definition u32_from_le :: "u8 \<Rightarrow> u8 \<Rightarrow> u8 \<Rightarrow> u8 \<Rightarrow> u32" where
  "u32_from_le a b c d = ucast a OR push_bit 8 (ucast b) OR push_bit 16 (ucast c) OR push_bit 24 (ucast d)"

text \<open>The integers at a place of a byte string.\<close>

definition u16_le_at :: "bytes \<Rightarrow> nat \<Rightarrow> u16" where
  "u16_le_at bs i = u16_from_le (bs ! i) (bs ! (i + 1))"

definition u32_le_at :: "bytes \<Rightarrow> nat \<Rightarrow> u32" where
  "u32_le_at bs i = u32_from_le (bs ! i) (bs ! (i + 1)) (bs ! (i + 2)) (bs ! (i + 3))"

text \<open>\<^verbatim>\<open>to_le_bytes\<close> of an integer of \<^verbatim>\<open>n\<close> bytes and \<^verbatim>\<open>from_le_bytes\<close> of a byte array.\<close>

definition to_le_bytes :: "nat \<Rightarrow> 'w::len word \<Rightarrow> bytes" where
  "to_le_bytes n w = map (\<lambda>i. ucast (drop_bit (8 * i) w)) [0..<n]"

fun from_le_bytes :: "bytes \<Rightarrow> 'w::len word" where
  "from_le_bytes [] = 0"
| "from_le_bytes (b # bs) = ucast b OR push_bit 8 (from_le_bytes bs)"

lemma length_to_le_bytes [simp]: "length (to_le_bytes n w) = n"
  by (simp add: to_le_bytes_def)

lemma bit_from_le_bytes:
  "bit (from_le_bytes bs :: 'w::len word) k \<longleftrightarrow> k < LENGTH('w) \<and> k div 8 < length bs \<and> bit (bs ! (k div 8)) (k mod 8)"
proof (induction bs arbitrary: k)
  case (Cons b bs)
  show ?case
  proof (cases "k < 8")
    case True
    then show ?thesis by (auto simp: bit_or_iff bit_push_bit_iff bit_ucast_iff)
  next
    case False
    then have "k div 8 = Suc ((k - 8) div 8)" "(k - 8) mod 8 = k mod 8" "\<not> bit b k"
      by (simp_all add: le_div_geq le_mod_geq bit_word.rep_eq)
    then show ?thesis using False Cons.IH [of "k - 8"]
      by (auto simp: bit_or_iff bit_push_bit_iff bit_ucast_iff)
  qed
qed simp

lemma from_to_le_bytes [simp]: "LENGTH('w) = 8 * n \<Longrightarrow> from_le_bytes (to_le_bytes n (w :: 'w::len word)) = w"
proof (rule bit_word_eqI)
  fix k
  assume L: "LENGTH('w) = 8 * n" "k < LENGTH('w)"
  then have "k div 8 < n" by (simp add: less_mult_imp_div_less mult.commute)
  moreover have "8 * (k div 8) + k mod 8 = k" by simp
  ultimately show "bit (from_le_bytes (to_le_bytes n w) :: 'w word) k \<longleftrightarrow> bit w k"
    using L(2) by (simp add: bit_from_le_bytes to_le_bytes_def bit_ucast_iff bit_drop_bit_eq)
qed

section \<open>Lossy UTF-8\<close>

text \<open>
  \<^verbatim>\<open>String::from_utf8_lossy\<close>: each maximal invalid prefix of a character is replaced by U+FFFD. A step
  yields whether a character starts here and how many bytes belong to it or to the invalid prefix;
  missing bytes read as 0, which continues no character.
\<close>

definition safe_get :: "bytes \<Rightarrow> nat \<Rightarrow> u8" where
  "safe_get bs i = (if i < length bs then bs ! i else 0)"

definition utf8_second_ok :: "u8 \<Rightarrow> u8 \<Rightarrow> bool" where
  "utf8_second_ok a b \<longleftrightarrow> utf8_cont b \<and> (a = 0xE0 \<longrightarrow> 0xA0 \<le> b) \<and> (a = 0xED \<longrightarrow> b \<le> 0x9F) \<and>
     (a = 0xF0 \<longrightarrow> 0x90 \<le> b) \<and> (a = 0xF4 \<longrightarrow> b \<le> 0x8F)"

definition utf8_step :: "bytes \<Rightarrow> bool \<times> nat" where
  "utf8_step bs =
     (let a = safe_get bs 0; b = safe_get bs 1; c = safe_get bs 2; d = safe_get bs 3
      in if a < 0x80 then (True, 1)
         else if 0xC2 \<le> a \<and> a \<le> 0xDF then (if utf8_cont b then (True, 2) else (False, 1))
         else if 0xE0 \<le> a \<and> a \<le> 0xEF then
           (if \<not> utf8_second_ok a b then (False, 1) else if \<not> utf8_cont c then (False, 2) else (True, 3))
         else if 0xF0 \<le> a \<and> a \<le> 0xF4 then
           (if \<not> utf8_second_ok a b then (False, 1) else if \<not> utf8_cont c then (False, 2)
            else if \<not> utf8_cont d then (False, 3) else (True, 4))
         else (False, 1))"

lemma utf8_step_pos: "0 < snd (utf8_step bs)"
  by (simp add: utf8_step_def Let_def)

text \<open>The recursion is over the bytes; the first argument counts the bytes still to skip.\<close>

fun lossy_from :: "nat \<Rightarrow> bytes \<Rightarrow> bytes" where
  "lossy_from k [] = []"
| "lossy_from (Suc k) (b # bs) = lossy_from k bs"
| "lossy_from 0 (b # bs) =
     (let step = utf8_step (b # bs)
      in (if fst step then take (snd step) (b # bs) else [0xEF, 0xBF, 0xBD]) @ lossy_from (snd step - 1) bs)"

definition from_utf8_lossy :: "bytes \<Rightarrow> bytes" where
  "from_utf8_lossy bs = lossy_from 0 bs"

lemma safe_get_simps:
  "safe_get (a # bs) 0 = a" "safe_get (a # b # bs) 1 = b" "safe_get (a # b # c # bs) 2 = c" "safe_get (a # b # c # d # bs) 3 = d"
  by (simp_all add: safe_get_def)

lemma utf8_lead_cases:
  assumes "utf8_valid (a # r)"
  obtains "a < 0x80" | "\<not> a < 0x80" "0xC2 \<le> a \<and> a \<le> 0xDF"
    | "\<not> a < 0x80" "\<not> (0xC2 \<le> a \<and> a \<le> 0xDF)" "0xE0 \<le> a \<and> a \<le> 0xEF"
    | "\<not> a < 0x80" "\<not> (0xC2 \<le> a \<and> a \<le> 0xDF)" "\<not> (0xE0 \<le> a \<and> a \<le> 0xEF)" "0xF0 \<le> a \<and> a \<le> 0xF4"
proof -
  note v = assms [unfolded utf8_valid.simps(2) [of a r]]
  have "0xF0 \<le> a \<and> a \<le> 0xF4"
    if "\<not> a < 0x80" "\<not> (0xC2 \<le> a \<and> a \<le> 0xDF)" "\<not> (0xE0 \<le> a \<and> a \<le> 0xEF)"
  proof (rule ccontr)
    assume n: "\<not> (0xF0 \<le> a \<and> a \<le> 0xF4)"
    show False
      using v unfolding if_not_P [OF that(1)] if_not_P [OF that(2)] if_not_P [OF that(3)] if_not_P [OF n] .
  qed
  then show thesis using that by argo
qed

lemma utf8_valid_step:
  assumes "utf8_valid bs" "bs \<noteq> []"
  shows "fst (utf8_step bs) \<and> utf8_valid (drop (snd (utf8_step bs)) bs)"
proof (cases bs)
  case (Cons a r)
  note v = assms(1) [unfolded Cons, unfolded utf8_valid.simps(2) [of a r]]
  show ?thesis
  proof (cases rule: utf8_lead_cases [OF assms(1) [unfolded Cons]])
    case 1
    then show ?thesis using v by (simp add: Cons utf8_step_def safe_get_def)
  next
    case 2
    then obtain b s where r: "r = b # s" "utf8_cont b" "utf8_valid s"
      using v unfolding if_not_P [OF 2(1)] if_P [OF 2(2)] by (auto split: list.splits)
    then have "utf8_step bs = (True, 2)"
      unfolding utf8_step_def Let_def Cons safe_get_simps r if_not_P [OF 2(1)] if_P [OF 2(2)] by simp
    then show ?thesis using r by (simp add: Cons)
  next
    case 3
    then obtain b c s where r: "r = b # c # s" "utf8_cont b" "utf8_cont c" "a = 0xE0 \<longrightarrow> 0xA0 \<le> b" "a = 0xED \<longrightarrow> b \<le> 0x9F"
      "utf8_valid s" using v unfolding if_not_P [OF 3(1)] if_not_P [OF 3(2)] if_P [OF 3(3)] by (auto split: list.splits)
    moreover have "a \<noteq> 0xF0" "a \<noteq> 0xF4" using 3(3) by auto
    ultimately have "utf8_second_ok a b" by (simp add: utf8_second_ok_def)
    then have "utf8_step bs = (True, 3)"
      unfolding utf8_step_def Let_def Cons safe_get_simps r(1) if_not_P [OF 3(1)] if_not_P [OF 3(2)] if_P [OF 3(3)]
      using r(3) by simp
    then show ?thesis using r by (simp add: Cons)
  next
    case 4
    then obtain b c d s where r: "r = b # c # d # s" "utf8_cont b" "utf8_cont c" "utf8_cont d" "a = 0xF0 \<longrightarrow> 0x90 \<le> b"
      "a = 0xF4 \<longrightarrow> b \<le> 0x8F" "utf8_valid s"
      using v unfolding if_not_P [OF 4(1)] if_not_P [OF 4(2)] if_not_P [OF 4(3)] if_P [OF 4(4)] by (auto split: list.splits)
    moreover have "a \<noteq> 0xE0" "a \<noteq> 0xED" using 4(4) by auto
    ultimately have "utf8_second_ok a b" by (simp add: utf8_second_ok_def)
    then have "utf8_step bs = (True, 4)"
      unfolding utf8_step_def Let_def Cons safe_get_simps r(1) if_not_P [OF 4(1)] if_not_P [OF 4(2)] if_not_P [OF 4(3)] if_P [OF 4(4)]
      using r(3,4) by simp
    then show ?thesis using r by (simp add: Cons)
  qed
qed (use assms in simp)

lemma lossy_from_drop: "lossy_from k bs = lossy_from 0 (drop k bs)"
  by (induction k arbitrary: bs) (metis drop0, metis drop_Nil drop_Suc_Cons lossy_from.simps(1,2) neq_Nil_conv)

lemma from_utf8_lossy_valid: "utf8_valid bs \<Longrightarrow> from_utf8_lossy bs = bs"
  unfolding from_utf8_lossy_def
proof (induction "length bs" arbitrary: bs rule: less_induct)
  case less
  show ?case
  proof (cases bs)
    case (Cons b r)
    define n where "n = snd (utf8_step bs)"
    have n: "0 < n" "fst (utf8_step bs)" "utf8_valid (drop n bs)"
      using utf8_valid_step [OF less.prems] utf8_step_pos [of bs] Cons by (auto simp: n_def)
    then have d: "drop (n - 1) r = drop n bs" using Cons by (cases n) simp_all
    have "lossy_from 0 bs = take n bs @ lossy_from (n - 1) r"
      using n(2) Cons by (simp add: n_def Let_def)
    also have "lossy_from (n - 1) r = lossy_from 0 (drop n bs)" unfolding d [symmetric] by (rule lossy_from_drop)
    also have "\<dots> = drop n bs" using less.hyps [of "drop n bs"] n(1,3) Cons by simp
    finally show ?thesis by simp
  qed simp
qed

section \<open>Splitting at a separator\<close>

text \<open>\<^verbatim>\<open>str::split\<close> at one character; there is always at least one part.\<close>

fun split_on :: "'a \<Rightarrow> 'a list \<Rightarrow> 'a list list" where
  "split_on c [] = [[]]"
| "split_on c (x # xs) = (if x = c then [] # split_on c xs
     else case split_on c xs of [] \<Rightarrow> [[x]] | p # ps \<Rightarrow> (x # p) # ps)"

definition trim_start :: "'a \<Rightarrow> 'a list \<Rightarrow> 'a list" where
  "trim_start c xs = dropWhile (\<lambda>x. x = c) xs"

definition trim_end :: "'a \<Rightarrow> 'a list \<Rightarrow> 'a list" where
  "trim_end c xs = rev (dropWhile (\<lambda>x. x = c) (rev xs))"

text \<open>\<^verbatim>\<open>str::rfind\<close>: the index of the last occurrence.\<close>

definition rfind :: "'a \<Rightarrow> 'a list \<Rightarrow> nat option" where
  "rfind c xs = map_option (\<lambda>i. length xs - 1 - i) (position (\<lambda>x. x = c) (rev xs))"

lemma split_on_ne [simp]: "split_on c xs \<noteq> []"
  by (induction xs) (auto split: list.splits)

lemma split_on_fresh: "c \<notin> set xs \<Longrightarrow> split_on c xs = [xs]"
  by (induction xs) auto

lemma split_on_append: "split_on c (xs @ c # ys) = split_on c xs @ split_on c ys"
proof (induction xs)
  case (Cons x xs)
  then show ?case using split_on_ne [of c xs] by (auto split: list.splits)
qed simp

lemma split_on_parts_fresh: "p \<in> set (split_on c xs) \<Longrightarrow> c \<notin> set p"
proof (induction xs arbitrary: p)
  case (Cons x xs)
  then show ?case by (auto split: if_splits list.splits)
qed simp

lemma rfind_SomeD:
  assumes "rfind c xs = Some i"
  shows "i < length xs" "xs = take i xs @ c # drop (Suc i) xs" "c \<notin> set (drop (Suc i) xs)"
proof -
  obtain j where j: "position (\<lambda>x. x = c) (rev xs) = Some j" "i = length xs - 1 - j"
    using assms by (auto simp: rfind_def)
  have d: "j < length xs" "rev xs ! j = c" "\<forall>k < j. rev xs ! k \<noteq> c"
    using position_SomeD [OF j(1)] by auto
  show i: "i < length xs" using j(2) d(1) by simp
  have "xs ! i = c" using d(1,2) j(2) by (simp add: rev_nth)
  then show "xs = take i xs @ c # drop (Suc i) xs" using id_take_nth_drop [OF i] by simp
  have "xs ! k \<noteq> c" if "i < k" "k < length xs" for k
  proof -
    have l: "length xs - 1 - k < j" using that j(2) d(1) by simp
    have "rev xs ! (length xs - 1 - k) = xs ! k" using that by (simp add: rev_nth)
    then show ?thesis using d(3) l by metis
  qed
  then show "c \<notin> set (drop (Suc i) xs)" by (auto simp: in_set_conv_nth)
qed

lemma rfind_None_iff: "rfind c xs = None \<longleftrightarrow> c \<notin> set xs"
  by (auto simp: rfind_def position_None_iff)

section \<open>Path components\<close>

text \<open>The slash, and the non-empty parts of a path, which are what every resolution visits.\<close>

definition SLASH :: u8 where "SLASH = 0x2F"

definition components :: "bytes \<Rightarrow> bytes list" where
  "components path = filter (\<lambda>c. c \<noteq> []) (split_on SLASH path)"

lemma components_append: "components (xs @ SLASH # ys) = components xs @ components ys"
  by (simp add: components_def split_on_append)

lemma components_Nil [simp]: "components [] = []"
  by (simp add: components_def)

lemma components_slashes [simp]: "components (replicate n SLASH) = []"
  by (induction n) (simp_all add: components_def)

lemma components_fresh: "SLASH \<notin> set p \<Longrightarrow> components p = (if p = [] then [] else [p])"
  by (simp add: components_def split_on_fresh)

lemma components_Cons_slash [simp]: "components (SLASH # p) = components p"
  by (simp add: components_def)

lemma components_snoc_slash [simp]: "components (p @ [SLASH]) = components p"
  using components_append [of p "[]"] by simp

lemma components_trim_start [simp]: "components (trim_start SLASH p) = components p"
  by (induction p) (auto simp: trim_start_def)

lemma components_trim_end [simp]: "components (trim_end SLASH p) = components p"
  by (induction p rule: rev_induct) (auto simp: trim_end_def)

lemma trim_end_last: "trim_end c p \<noteq> [] \<Longrightarrow> last (trim_end c p) \<noteq> c"
  by (induction p rule: rev_induct) (auto simp: trim_end_def)

lemma components_part: "c \<in> set (components p) \<Longrightarrow> c \<noteq> [] \<and> SLASH \<notin> set c"
  by (auto simp: components_def dest: split_on_parts_fresh)

section \<open>Well-formed UTF-8 and ASCII separators\<close>

lemma utf8_valid_append_ascii:
  assumes "b < 0x80"
  shows "utf8_valid (xs @ b # ys) \<longleftrightarrow> utf8_valid xs \<and> utf8_valid ys"
proof (induction "length xs" arbitrary: xs rule: less_induct)
  case less
  have nb: "utf8_cont b = False" using assms by (simp add: utf8_cont_def word_le_nat_alt word_less_nat_alt)
  have cf: "(case ys of [] \<Rightarrow> False | _ # _ \<Rightarrow> False) = False"
    "(case ys of [] \<Rightarrow> False | [c] \<Rightarrow> False | c # _ # _ \<Rightarrow> False) = False" by (simp_all split: list.splits)
  show ?case
  proof (cases xs)
    case Nil
    then show ?thesis using assms by (simp add: utf8_valid_ascii_Cons)
  next
    case (Cons a r)
    have IH: "utf8_valid (s @ b # ys) \<longleftrightarrow> utf8_valid s \<and> utf8_valid ys" if "length s \<le> length r" for s
      using less [of s] that Cons by simp
    consider "r = []" | x where "r = [x]" | x y where "r = [x, y]" | x y z s where "r = x # y # z # s"
      by (metis list.exhaust)
    then have "utf8_valid (a # r @ b # ys) \<longleftrightarrow> utf8_valid (a # r) \<and> utf8_valid ys"
    proof cases
      case 1
      then show ?thesis using IH [of "[]"] 
        by (simp add: nb cf utf8_valid.simps(2) [of a])
    next
      case 2
      have "utf8_valid (x # b # ys) \<longleftrightarrow> utf8_valid [x] \<and> utf8_valid ys" using IH [of "[x]"] 2 by simp
      then show ?thesis using IH [of "[]"] 2 by (simp add: nb cf utf8_valid.simps(2) [of a])
    next
      case 3
      have "utf8_valid (x # y # b # ys) \<longleftrightarrow> utf8_valid [x, y] \<and> utf8_valid ys"
        "utf8_valid (y # b # ys) \<longleftrightarrow> utf8_valid [y] \<and> utf8_valid ys" using IH [of "[x, y]"] IH [of "[y]"] 3 by simp_all
      then show ?thesis using IH [of "[]"] 3 by (simp add: nb cf utf8_valid.simps(2) [of a])
    next
      case 4
      have "utf8_valid (x # y # z # s @ b # ys) \<longleftrightarrow> utf8_valid (x # y # z # s) \<and> utf8_valid ys"
        "utf8_valid (y # z # s @ b # ys) \<longleftrightarrow> utf8_valid (y # z # s) \<and> utf8_valid ys"
        "utf8_valid (z # s @ b # ys) \<longleftrightarrow> utf8_valid (z # s) \<and> utf8_valid ys"
        using IH [of "x # y # z # s"] IH [of "y # z # s"] IH [of "z # s"] 4 by simp_all
      then show ?thesis using IH [of s] 4 by (simp add: utf8_valid.simps(2) [of a])
    qed
    then show ?thesis using Cons by simp
  qed
qed

lemma utf8_valid_append:
  assumes "utf8_valid xs"
  shows "utf8_valid (xs @ ys) \<longleftrightarrow> utf8_valid ys"
  using assms
proof (induction "length xs" arbitrary: xs rule: less_induct)
  case less
  show ?case
  proof (cases xs)
    case (Cons a r)
    have IH: "utf8_valid (s @ ys) \<longleftrightarrow> utf8_valid ys" if "length s \<le> length r" "utf8_valid s" for s
      using less(1) [of s] that Cons by simp
    consider "r = []" | x where "r = [x]" | x y where "r = [x, y]" | x y z s where "r = x # y # z # s"
      by (metis list.exhaust)
    then have "utf8_valid (a # r @ ys) \<longleftrightarrow> utf8_valid ys"
    proof cases
      case 1
      then show ?thesis using less(2) [unfolded Cons] by (simp add: utf8_valid.simps(2) [of a] split: if_splits)
    next
      case 2
      then show ?thesis using IH [of "[x]"] less(2) [unfolded Cons]
        by (simp add: utf8_valid.simps(2) [of a] split: if_splits)
    next
      case 3
      then show ?thesis using IH [of "[x, y]"] IH [of "[y]"] less(2) [unfolded Cons]
        by (simp add: utf8_valid.simps(2) [of a] split: if_splits) blast+
    next
      case 4
      have "utf8_valid (x # y # z # s) \<Longrightarrow> utf8_valid (x # y # z # s @ ys) \<longleftrightarrow> utf8_valid ys"
        "utf8_valid (y # z # s) \<Longrightarrow> utf8_valid (y # z # s @ ys) \<longleftrightarrow> utf8_valid ys"
        "utf8_valid (z # s) \<Longrightarrow> utf8_valid (z # s @ ys) \<longleftrightarrow> utf8_valid ys"
        using IH [of "x # y # z # s"] IH [of "y # z # s"] IH [of "z # s"] 4 by simp_all
      then show ?thesis using IH [of s] 4 less(2) [unfolded Cons]
        by (simp add: utf8_valid.simps(2) [of a] split: if_splits) blast+
    qed
    then show ?thesis using Cons by simp
  qed simp
qed

end
