(* ===== verification/Vfs.thy ===== *)
theory Vfs
  imports Byte_Strings
begin

text \<open>
  The virtual file system of \<^verbatim>\<open>src/kernel/src/vfs.rs\<close>: node types and errors, the
  \<^verbatim>\<open>FileSystem\<close> trait as a record of operations over a state, and the mount table that routes
  a path to the file system with the longest matching mount path. Mounted file systems are reached
  through raw pointers; here a pointer is an index into a store of file-system states, which the
  mutating operations update. The contract a file system owes to its clients is a pair of locales,
  one for reading and one for the mutating operations, and what the mount table guarantees is proved
  once inside them.
\<close>

section \<open>Types\<close>

definition MAX_MOUNTS :: nat where "MAX_MOUNTS = 8"
definition MAX_PATH :: nat where "MAX_PATH = 256"
definition MAX_NAME :: nat where "MAX_NAME = 64"

datatype NodeType = Node_File | Node_Directory | Node_Device

datatype VfsError =
    Vfs_NotFound | Vfs_AlreadyExists | Vfs_NotADirectory | Vfs_NotAFile | Vfs_NoSpace | Vfs_InvalidPath
  | Vfs_MountFull | Vfs_NotMounted | Vfs_FdTableFull | Vfs_BadFd | Vfs_IoError

record NodeInfo =
  ni_name :: bytes
  ni_name_len :: nat
  ni_node_type :: NodeType
  ni_size :: nat
  ni_inode :: u64

record DirEntry =
  de_name :: bytes
  de_name_len :: nat
  de_node_type :: NodeType

definition NodeInfo_name_str :: "NodeInfo \<Rightarrow> bytes" where
  "NodeInfo_name_str i = from_utf8_or (ascii ''<invalid>'') (take (ni_name_len i) (ni_name i))"

definition DirEntry_name_str :: "DirEntry \<Rightarrow> bytes" where
  "DirEntry_name_str e = from_utf8_or (ascii ''<invalid>'') (take (de_name_len e) (de_name e))"

text \<open>
  The trait. A caller's buffer is passed in and returned with what was copied into it; a mutating
  operation returns the new state. Writing may stop the kernel, on an overflowing offset: that is
  the value \<^verbatim>\<open>None\<close>.
\<close>

record 's FileSystem =
  fs_stat :: "'s \<Rightarrow> bytes \<Rightarrow> (NodeInfo, VfsError) result"
  fs_read :: "'s \<Rightarrow> bytes \<Rightarrow> nat \<Rightarrow> bytes \<Rightarrow> (nat, VfsError) result \<times> bytes"
  fs_write :: "'s \<Rightarrow> bytes \<Rightarrow> nat \<Rightarrow> bytes \<Rightarrow> ((nat, VfsError) result \<times> 's) option"
  fs_create :: "'s \<Rightarrow> bytes \<Rightarrow> NodeType \<Rightarrow> (unit, VfsError) result \<times> 's"
  fs_readdir :: "'s \<Rightarrow> bytes \<Rightarrow> DirEntry list \<Rightarrow> (nat, VfsError) result \<times> DirEntry list"
  fs_remove :: "'s \<Rightarrow> bytes \<Rightarrow> (unit, VfsError) result \<times> 's"
  fs_name :: "'s \<Rightarrow> bytes"

section \<open>The mount table\<close>

type_synonym fs_ptr = nat

record MountPoint =
  mp_path :: bytes
  mp_path_len :: nat
  mp_fs :: fs_ptr

definition MountPoint_path_str :: "MountPoint \<Rightarrow> bytes" where
  "MountPoint_path_str mp = from_utf8_or [] (take (mp_path_len mp) (mp_path mp))"

record VfsManager =
  mounts :: "MountPoint option list"
  mount_count :: nat

definition VfsManager_new :: VfsManager where
  "VfsManager_new = \<lparr>mounts = replicate MAX_MOUNTS None, mount_count = 0\<rparr>"

definition VfsManager_mount :: "bytes \<Rightarrow> fs_ptr \<Rightarrow> VfsManager \<Rightarrow> (unit, VfsError) result \<times> VfsManager" where
  "VfsManager_mount path fs m =
     (if mount_count m \<ge> MAX_MOUNTS then (Err Vfs_MountFull, m)
      else if length path > MAX_PATH then (Err Vfs_InvalidPath, m)
      else
        let path_buf = splice (replicate MAX_PATH 0) 0 path
        in case first_free (mounts m) of
             Some i \<Rightarrow>
               (Ok (), m\<lparr>mounts := (mounts m)[i := Some \<lparr>mp_path = path_buf, mp_path_len = length path, mp_fs = fs\<rparr>],
                         mount_count := mount_count m + 1\<rparr>)
           | None \<Rightarrow> (Err Vfs_MountFull, m))"

definition starts_with :: "bytes \<Rightarrow> bytes \<Rightarrow> bool" where
  "starts_with path pre \<longleftrightarrow> take (length pre) path = pre"

text \<open>One round of the search: a match at least as long as the best so far replaces it.\<close>

definition resolve_round ::
  "bytes \<Rightarrow> (MountPoint \<times> bytes) option \<times> nat \<Rightarrow> MountPoint \<Rightarrow> (MountPoint \<times> bytes) option \<times> nat" where
  "resolve_round path best mp =
     (let mp_path = MountPoint_path_str mp
      in if starts_with path mp_path \<and> length mp_path \<ge> snd best then
           (let relative = drop (length mp_path) path;
                relative = (if relative = [] then [SLASH] else relative)
            in (Some (mp, relative), length mp_path))
         else best)"

definition VfsManager_resolve :: "VfsManager \<Rightarrow> bytes \<Rightarrow> (MountPoint \<times> bytes) option" where
  "VfsManager_resolve m path = fst (foldl (resolve_round path) (None, 0) (flatten (mounts m)))"

section \<open>Routed operations\<close>

definition VfsManager_stat ::
  "'s FileSystem \<Rightarrow> (fs_ptr \<Rightarrow> 's) \<Rightarrow> VfsManager \<Rightarrow> bytes \<Rightarrow> (NodeInfo, VfsError) result" where
  "VfsManager_stat F h m path =
     (case VfsManager_resolve m path of
        None \<Rightarrow> Err Vfs_NotMounted
      | Some (mp, rel) \<Rightarrow> fs_stat F (h (mp_fs mp)) rel)"

definition VfsManager_read ::
  "'s FileSystem \<Rightarrow> (fs_ptr \<Rightarrow> 's) \<Rightarrow> VfsManager \<Rightarrow> bytes \<Rightarrow> nat \<Rightarrow> bytes \<Rightarrow> (nat, VfsError) result \<times> bytes" where
  "VfsManager_read F h m path offset buf =
     (case VfsManager_resolve m path of
        None \<Rightarrow> (Err Vfs_NotMounted, buf)
      | Some (mp, rel) \<Rightarrow> fs_read F (h (mp_fs mp)) rel offset buf)"

definition VfsManager_write ::
  "'s FileSystem \<Rightarrow> (fs_ptr \<Rightarrow> 's) \<Rightarrow> VfsManager \<Rightarrow> bytes \<Rightarrow> nat \<Rightarrow> bytes \<Rightarrow>
   ((nat, VfsError) result \<times> (fs_ptr \<Rightarrow> 's)) option" where
  "VfsManager_write F h m path offset data =
     (case VfsManager_resolve m path of
        None \<Rightarrow> Some (Err Vfs_NotMounted, h)
      | Some (mp, rel) \<Rightarrow>
          map_option (\<lambda>(r, s). (r, h(mp_fs mp := s))) (fs_write F (h (mp_fs mp)) rel offset data))"

definition VfsManager_create ::
  "'s FileSystem \<Rightarrow> (fs_ptr \<Rightarrow> 's) \<Rightarrow> VfsManager \<Rightarrow> bytes \<Rightarrow> NodeType \<Rightarrow>
   (unit, VfsError) result \<times> (fs_ptr \<Rightarrow> 's)" where
  "VfsManager_create F h m path node_type =
     (case VfsManager_resolve m path of
        None \<Rightarrow> (Err Vfs_NotMounted, h)
      | Some (mp, rel) \<Rightarrow>
          (case fs_create F (h (mp_fs mp)) rel node_type of (r, s) \<Rightarrow> (r, h(mp_fs mp := s))))"

definition VfsManager_readdir ::
  "'s FileSystem \<Rightarrow> (fs_ptr \<Rightarrow> 's) \<Rightarrow> VfsManager \<Rightarrow> bytes \<Rightarrow> DirEntry list \<Rightarrow>
   (nat, VfsError) result \<times> DirEntry list" where
  "VfsManager_readdir F h m path entries =
     (case VfsManager_resolve m path of
        None \<Rightarrow> (Err Vfs_NotMounted, entries)
      | Some (mp, rel) \<Rightarrow> fs_readdir F (h (mp_fs mp)) rel entries)"

definition VfsManager_remove ::
  "'s FileSystem \<Rightarrow> (fs_ptr \<Rightarrow> 's) \<Rightarrow> VfsManager \<Rightarrow> bytes \<Rightarrow> (unit, VfsError) result \<times> (fs_ptr \<Rightarrow> 's)" where
  "VfsManager_remove F h m path =
     (case VfsManager_resolve m path of
        None \<Rightarrow> (Err Vfs_NotMounted, h)
      | Some (mp, rel) \<Rightarrow>
          (case fs_remove F (h (mp_fs mp)) rel of (r, s) \<Rightarrow> (r, h(mp_fs mp := s))))"

section \<open>Resolution picks the longest mount path\<close>

definition mount_matches :: "bytes \<Rightarrow> MountPoint \<Rightarrow> bool" where
  "mount_matches path mp \<longleftrightarrow> starts_with path (MountPoint_path_str mp)"

definition relative_path :: "bytes \<Rightarrow> MountPoint \<Rightarrow> bytes" where
  "relative_path path mp =
     (let rel = drop (length (MountPoint_path_str mp)) path in if rel = [] then [SLASH] else rel)"

lemma resolve_round_fold:
  assumes "case best of None \<Rightarrow> n = 0 | Some (mp, rel) \<Rightarrow> mount_matches path mp \<and> rel = relative_path path mp \<and>
      n = length (MountPoint_path_str mp)"
  shows "case foldl (resolve_round path) (best, n) mps of
      (None, k) \<Rightarrow> best = None \<and> k = 0 \<and> (\<forall>mp \<in> set mps. \<not> mount_matches path mp)
    | (Some (mp, rel), k) \<Rightarrow>
        (mp \<in> set mps \<or> best = Some (mp, rel)) \<and> mount_matches path mp \<and> rel = relative_path path mp \<and>
        k = length (MountPoint_path_str mp) \<and> n \<le> k \<and>
        (\<forall>mp' \<in> set mps. mount_matches path mp' \<longrightarrow> length (MountPoint_path_str mp') \<le> k)"
  using assms
proof (induction mps arbitrary: best n)
  case Nil
  then show ?case by (auto split: option.splits)
next
  case (Cons x mps)
  show ?case
  proof (cases "mount_matches path x \<and> n \<le> length (MountPoint_path_str x)")
    case True
    have r: "resolve_round path (best, n) x = (Some (x, relative_path path x), length (MountPoint_path_str x))"
      using True by (simp add: resolve_round_def mount_matches_def relative_path_def Let_def)
    show ?thesis unfolding foldl_Cons r
      using Cons.IH [of "length (MountPoint_path_str x)" "Some (x, relative_path path x)"] True
      by (auto split: prod.splits option.splits)
  next
    case False
    have r: "resolve_round path (best, n) x = (best, n)"
      using False by (auto simp: resolve_round_def mount_matches_def)
    show ?thesis unfolding foldl_Cons r
      using Cons.IH [OF Cons.prems] Cons.prems False
      by (fastforce split: prod.splits option.splits)
  qed
qed

lemma resolve_longest:
  "VfsManager_resolve m path = Some (mp, rel) \<Longrightarrow>
     Some mp \<in> set (mounts m) \<and> mount_matches path mp \<and> rel = relative_path path mp \<and>
     (\<forall>mp'. Some mp' \<in> set (mounts m) \<and> mount_matches path mp' \<longrightarrow>
        length (MountPoint_path_str mp') \<le> length (MountPoint_path_str mp))"
  "VfsManager_resolve m path = None \<longleftrightarrow> (\<forall>mp. Some mp \<in> set (mounts m) \<longrightarrow> \<not> mount_matches path mp)"
  using resolve_round_fold [of 0 path None "flatten (mounts m)"]
  by (auto simp: VfsManager_resolve_def set_flatten split: prod.splits option.splits)

section \<open>What a file system promises\<close>

text \<open>
  A file tree maps component lists to nodes. The state of a file system denotes one; a directory is
  only its presence, because its entries are the longer paths.
\<close>

datatype file_node = Dir_Node | Device_Node | File_Node bytes

fun node_kind :: "file_node \<Rightarrow> NodeType" where
  "node_kind Dir_Node = Node_Directory"
| "node_kind Device_Node = Node_Device"
| "node_kind (File_Node _) = Node_File"

fun new_node :: "NodeType \<Rightarrow> file_node" where
  "new_node Node_Directory = Dir_Node"
| "new_node Node_Device = Device_Node"
| "new_node Node_File = File_Node []"

type_synonym file_tree = "bytes list \<Rightarrow> file_node option"

text \<open>The bytes of a file after writing past or over its end; a gap reads as zeros.\<close>

definition overwrite :: "bytes \<Rightarrow> nat \<Rightarrow> bytes \<Rightarrow> bytes" where
  "overwrite d off data = take off (d @ replicate (off - length d) 0) @ data @ drop (off + length data) d"

definition read_count :: "bytes \<Rightarrow> nat \<Rightarrow> nat \<Rightarrow> nat" where
  "read_count d off n = min n (length d - off)"

lemma length_overwrite: "length (overwrite d off data) = max (length d) (off + length data)"
  by (simp add: overwrite_def)

lemma slice_overwrite: "slice off (length data) (overwrite d off data) = data"
  by (simp add: overwrite_def slice_def min_def)

locale readable_fs =
  fixes F :: "'s FileSystem" and ok :: "'s \<Rightarrow> bool" and accepts :: "bytes \<Rightarrow> bool" and content :: "'s \<Rightarrow> file_tree"
  assumes stat_node: "ok s \<Longrightarrow> utf8_valid p \<Longrightarrow> accepts p \<Longrightarrow> content s (components p) = Some n \<Longrightarrow>
      \<exists>i. fs_stat F s p = Ok i \<and> ni_node_type i = node_kind n \<and> (\<forall>d. n = File_Node d \<longrightarrow> ni_size i = length d)"
    and read_file: "ok s \<Longrightarrow> utf8_valid p \<Longrightarrow> accepts p \<Longrightarrow> content s (components p) = Some (File_Node d) \<Longrightarrow>
      fs_read F s p off buf =
        (Ok (read_count d off (length buf)), splice buf 0 (slice off (read_count d off (length buf)) d))"

text \<open>
  The mutating operations promise that exactly the named node changes. Names that can be created are
  those \<^verbatim>\<open>name_ok\<close> holds of; files hold up to \<^verbatim>\<open>capacity\<close> bytes.
\<close>

locale writable_fs = readable_fs +
  fixes name_ok :: "bytes \<Rightarrow> bool" and capacity :: nat
  assumes write_file: "ok s \<Longrightarrow> utf8_valid p \<Longrightarrow> accepts p \<Longrightarrow> content s (components p) = Some (File_Node d) \<Longrightarrow>
      off + length data \<le> capacity \<Longrightarrow>
      \<exists>s'. fs_write F s p off data = Some (Ok (length data), s') \<and> ok s' \<and>
        content s' = (content s)(components p \<mapsto> File_Node (overwrite d off data))"
    and create_node: "ok s \<Longrightarrow> utf8_valid p \<Longrightarrow> accepts p \<Longrightarrow> (\<forall>c \<in> set (components p). name_ok c) \<Longrightarrow>
      fs_create F s p ty = (r, s') \<Longrightarrow>
      ok s' \<and> (if r = Ok () then content s (components p) = None \<and>
                 content s' = (content s)(components p \<mapsto> new_node ty)
               else content s' = content s)"
    and remove_node: "ok s \<Longrightarrow> utf8_valid p \<Longrightarrow> accepts p \<Longrightarrow> components p \<noteq> [] \<Longrightarrow> fs_remove F s p = (r, s') \<Longrightarrow>
      ok s' \<and> (if r = Ok () then content s (components p) \<noteq> None \<and> content s' = (content s)(components p := None)
               else content s' = content s)"

section \<open>What the mount table promises\<close>

text \<open>A node of the whole name space: the file system a path is routed to and the components there.\<close>

definition vfs_place :: "VfsManager \<Rightarrow> bytes \<Rightarrow> (fs_ptr \<times> bytes list) option" where
  "vfs_place m path = map_option (\<lambda>(mp, rel). (mp_fs mp, components rel)) (VfsManager_resolve m path)"

lemma relative_valid:
  assumes "VfsManager_resolve m path = Some (mp, rel)" "utf8_valid path"
  shows "utf8_valid rel"
proof -
  let ?q = "MountPoint_path_str mp"
  have "mount_matches path mp" and rel: "rel = relative_path path mp"
    using resolve_longest(1) [OF assms(1)] by simp_all
  then have "path = ?q @ drop (length ?q) path"
    by (metis append_take_drop_id mount_matches_def starts_with_def)
  moreover have "utf8_valid ?q" by (simp add: MountPoint_path_str_def from_utf8_or_def)
  ultimately have "utf8_valid (drop (length ?q) path)" using assms(2) utf8_valid_append by metis
  then show ?thesis
    using utf8_valid_ascii_Cons [of SLASH "[]"] by (auto simp: rel relative_path_def Let_def SLASH_def)
qed

definition vfs_content :: "('s \<Rightarrow> file_tree) \<Rightarrow> (fs_ptr \<Rightarrow> 's) \<Rightarrow> VfsManager \<Rightarrow> bytes \<Rightarrow> file_node option" where
  "vfs_content content h m path = (case vfs_place m path of None \<Rightarrow> None | Some (f, cs) \<Rightarrow> content (h f) cs)"

text \<open>The file system a path is routed to is in a good state and accepts the rest of the path.\<close>

definition routed :: "('s \<Rightarrow> bool) \<Rightarrow> (bytes \<Rightarrow> bool) \<Rightarrow> (fs_ptr \<Rightarrow> 's) \<Rightarrow> VfsManager \<Rightarrow> bytes \<Rightarrow> bool" where
  "routed ok accepts h m path \<longleftrightarrow> utf8_valid path \<and>
     (case VfsManager_resolve m path of None \<Rightarrow> True | Some (mp, rel) \<Rightarrow> ok (h (mp_fs mp)) \<and> accepts rel)"

context readable_fs
begin

lemma routedD:
  assumes "routed ok accepts h m path" "vfs_place m path = Some (f, cs)"
  obtains mp rel where "VfsManager_resolve m path = Some (mp, rel)" "f = mp_fs mp" "cs = components rel"
    "utf8_valid rel" "accepts rel" "ok (h f)"
  using assms relative_valid [of m path] by (auto simp: routed_def vfs_place_def)

lemma vfs_stat_node:
  assumes "routed ok accepts h m path" "vfs_content content h m path = Some n"
  shows "\<exists>i. VfsManager_stat F h m path = Ok i \<and> ni_node_type i = node_kind n \<and>
      (\<forall>d. n = File_Node d \<longrightarrow> ni_size i = length d)"
proof -
  obtain f cs where p: "vfs_place m path = Some (f, cs)" "content (h f) cs = Some n"
    using assms(2) by (auto simp: vfs_content_def split: option.splits)
  obtain mp rel where "VfsManager_resolve m path = Some (mp, rel)" "f = mp_fs mp" "cs = components rel"
    "utf8_valid rel" "accepts rel" "ok (h f)" by (rule routedD [OF assms(1) p(1)])
  then show ?thesis using stat_node [of "h f" rel n] p(2) by (auto simp: VfsManager_stat_def)
qed

lemma vfs_read_file:
  assumes "routed ok accepts h m path" "vfs_content content h m path = Some (File_Node d)"
  shows "VfsManager_read F h m path off buf =
    (Ok (read_count d off (length buf)), splice buf 0 (slice off (read_count d off (length buf)) d))"
proof -
  obtain f cs where p: "vfs_place m path = Some (f, cs)" "content (h f) cs = Some (File_Node d)"
    using assms(2) by (auto simp: vfs_content_def split: option.splits)
  obtain mp rel where "VfsManager_resolve m path = Some (mp, rel)" "f = mp_fs mp" "cs = components rel"
    "utf8_valid rel" "accepts rel" "ok (h f)" by (rule routedD [OF assms(1) p(1)])
  then show ?thesis using read_file [of "h f" rel d] p(2) by (simp add: VfsManager_read_def)
qed

end

text \<open>
  A mutation through the mount table changes the node at one place of the name space: every path that
  denotes that place sees the change, every other path sees what it saw before.
\<close>

context writable_fs
begin

lemma vfs_content_upd:
  assumes "vfs_place m path = Some (f, cs)" "content s' = (content (h f))(cs := x)"
  shows "vfs_content content (h(f := s')) m q = (if vfs_place m q = vfs_place m path then x else vfs_content content h m q)"
  using assms by (auto simp: vfs_content_def split: option.splits)

lemma vfs_write_file:
  assumes "routed ok accepts h m path" "vfs_content content h m path = Some (File_Node d)" "off + length data \<le> capacity"
  shows "\<exists>h'. VfsManager_write F h m path off data = Some (Ok (length data), h') \<and> routed ok accepts h' m path \<and>
    (\<forall>q. vfs_content content h' m q =
       (if vfs_place m q = vfs_place m path then Some (File_Node (overwrite d off data)) else vfs_content content h m q))"
proof -
  obtain f cs where p: "vfs_place m path = Some (f, cs)" "content (h f) cs = Some (File_Node d)"
    using assms(2) by (auto simp: vfs_content_def split: option.splits)
  obtain mp rel where r: "VfsManager_resolve m path = Some (mp, rel)" "f = mp_fs mp" "cs = components rel"
    "utf8_valid rel" "accepts rel" "ok (h f)" by (rule routedD [OF assms(1) p(1)])
  obtain s' where s': "fs_write F (h f) rel off data = Some (Ok (length data), s')" "ok s'"
    "content s' = (content (h f))(cs \<mapsto> File_Node (overwrite d off data))"
    using write_file [OF r(6,4,5) p(2) [unfolded r(3)] assms(3)] r(3) by auto
  have "VfsManager_write F h m path off data = Some (Ok (length data), h(f := s'))"
    using r s' by (simp add: VfsManager_write_def)
  moreover have "routed ok accepts (h(f := s')) m path" using assms(1) r s' by (simp add: routed_def)
  ultimately show ?thesis using vfs_content_upd [of m path f cs s' h, OF p(1) s'(3)] by blast
qed

lemma vfs_read_after_write:
  assumes "routed ok accepts h m path" "vfs_content content h m path = Some (File_Node d)" "off + length data \<le> capacity"
  shows "\<exists>h'. VfsManager_write F h m path off data = Some (Ok (length data), h') \<and>
    (\<forall>buf. length buf = length data \<longrightarrow> VfsManager_read F h' m path off buf = (Ok (length data), data)) \<and>
    (\<forall>q. vfs_place m q \<noteq> vfs_place m path \<longrightarrow> vfs_content content h' m q = vfs_content content h m q)"
proof -
  obtain h' where h': "VfsManager_write F h m path off data = Some (Ok (length data), h')" "routed ok accepts h' m path"
    "\<forall>q. vfs_content content h' m q =
       (if vfs_place m q = vfs_place m path then Some (File_Node (overwrite d off data)) else vfs_content content h m q)"
    using vfs_write_file [OF assms] by blast
  have "VfsManager_read F h' m path off buf = (Ok (length data), data)" if "length buf = length data" for buf
  proof -
    have n: "read_count (overwrite d off data) off (length buf) = length data"
      using that by (simp add: read_count_def length_overwrite)
    show ?thesis using vfs_read_file [OF h'(2), of "overwrite d off data" off buf] h'(3) that
      unfolding n slice_overwrite by (simp add: splice_0)
  qed
  then show ?thesis using h' by auto
qed

lemma vfs_create_node:
  assumes "routed ok accepts h m path" "\<And>f cs. vfs_place m path = Some (f, cs) \<Longrightarrow> \<forall>c \<in> set cs. name_ok c"
    "VfsManager_create F h m path ty = (r, h')"
  shows "\<forall>q. vfs_content content h' m q =
    (if r = Ok () \<and> vfs_place m q = vfs_place m path then Some (new_node ty) else vfs_content content h m q)"
proof (cases "vfs_place m path")
  case None
  then show ?thesis using assms(3) by (auto simp: vfs_place_def VfsManager_create_def)
next
  case (Some fc)
  then obtain f cs where p: "vfs_place m path = Some (f, cs)" by (cases fc) simp
  obtain mp rel where r: "VfsManager_resolve m path = Some (mp, rel)" "f = mp_fs mp" "cs = components rel"
    "utf8_valid rel" "accepts rel" "ok (h f)" by (rule routedD [OF assms(1) p])
  obtain s' where s': "fs_create F (h f) rel ty = (r, s')" "h' = h(f := s')"
    using assms(3) r by (auto simp: VfsManager_create_def split: prod.splits)
  have c: "if r = Ok () then content s' = (content (h f))(cs \<mapsto> new_node ty) else content s' = content (h f)"
    using create_node [OF r(6,4,5) _ s'(1)] assms(2) [OF p] r(3) by auto
  then have "content s' = (content (h f))(cs := if r = Ok () then Some (new_node ty) else content (h f) cs)" by auto
  from vfs_content_upd [of m path f cs s' h, OF p this] s'(2) p show ?thesis by (auto simp: vfs_content_def)
qed

lemma vfs_remove_node:
  assumes "routed ok accepts h m path" "\<And>f cs. vfs_place m path = Some (f, cs) \<Longrightarrow> cs \<noteq> []"
    "VfsManager_remove F h m path = (r, h')"
  shows "\<forall>q. vfs_content content h' m q =
    (if r = Ok () \<and> vfs_place m q = vfs_place m path then None else vfs_content content h m q)"
proof (cases "vfs_place m path")
  case None
  then show ?thesis using assms(3) by (auto simp: vfs_place_def VfsManager_remove_def)
next
  case (Some fc)
  then obtain f cs where p: "vfs_place m path = Some (f, cs)" by (cases fc) simp
  obtain mp rel where r: "VfsManager_resolve m path = Some (mp, rel)" "f = mp_fs mp" "cs = components rel"
    "utf8_valid rel" "accepts rel" "ok (h f)" by (rule routedD [OF assms(1) p])
  obtain s' where s': "fs_remove F (h f) rel = (r, s')" "h' = h(f := s')"
    using assms(3) r by (auto simp: VfsManager_remove_def split: prod.splits)
  have c: "if r = Ok () then content s' = (content (h f))(cs := None) else content s' = content (h f)"
    using remove_node [OF r(6,4,5) _ s'(1)] assms(2) [OF p] r(3) by auto
  then have "content s' = (content (h f))(cs := if r = Ok () then None else content (h f) cs)" by auto
  from vfs_content_upd [of m path f cs s' h, OF p this] s'(2) p show ?thesis by (auto simp: vfs_content_def)
qed

end

end
