(* ===== verification/Ramfs.thy ===== *)
theory Ramfs
  imports Vfs
begin

text \<open>
  The in-memory file system of \<^verbatim>\<open>src/kernel/src/ramfs.rs\<close>: a fixed array of inodes with inline
  contents, directories holding the indices of their children, and every operation of the
  \<^verbatim>\<open>FileSystem\<close> trait. The array denotes a file tree, and the following theories
  show what each operation does to it, also with names that do not fit their field.
\<close>

section \<open>Inodes\<close>

definition MAX_INODES :: nat where "MAX_INODES = 256"
definition MAX_FILE_SIZE :: nat where "MAX_FILE_SIZE = 4096"
definition MAX_CHILDREN :: nat where "MAX_CHILDREN = 32"

record Inode =
  ino_used :: bool
  ino_type :: NodeType
  ino_name :: bytes
  ino_name_len :: nat
  ino_parent :: u16
  ino_data :: bytes
  ino_data_len :: nat
  ino_children :: "u16 list"
  ino_child_count :: nat

definition Inode_empty :: Inode where
  "Inode_empty =
     \<lparr>ino_used = False, ino_type = Node_File, ino_name = replicate MAX_NAME 0, ino_name_len = 0, ino_parent = 0,
      ino_data = replicate MAX_FILE_SIZE 0, ino_data_len = 0, ino_children = replicate MAX_CHILDREN 0,
      ino_child_count = 0\<rparr>"

definition Inode_name_str :: "Inode \<Rightarrow> bytes" where
  "Inode_name_str ino = from_utf8_or [] (take (ino_name_len ino) (ino_name ino))"

definition Inode_set_name :: "bytes \<Rightarrow> Inode \<Rightarrow> Inode" where
  "Inode_set_name nm ino =
     (let len = min (length nm) MAX_NAME
      in ino\<lparr>ino_name := splice (ino_name ino) 0 (take len nm), ino_name_len := len\<rparr>)"

section \<open>The file system\<close>

record RamFs =
  inodes :: "Inode list"
  inode_count :: u64

definition ino_modify :: "nat \<Rightarrow> (Inode \<Rightarrow> Inode) \<Rightarrow> RamFs \<Rightarrow> RamFs" where
  "ino_modify i f fs = fs\<lparr>inodes := (inodes fs)[i := f (inodes fs ! i)]\<rparr>"

text \<open>The root set-up, which the constructor and the boot initialisation share.\<close>

definition root_setup :: "RamFs \<Rightarrow> RamFs" where
  "root_setup fs = ino_modify 0
     (\<lambda>ino. (Inode_set_name [SLASH] (ino\<lparr>ino_used := True, ino_type := Node_Directory\<rparr>))\<lparr>ino_parent := 0\<rparr>) fs"

definition RamFs_new :: RamFs where
  "RamFs_new = root_setup \<lparr>inodes = replicate MAX_INODES Inode_empty, inode_count = 1\<rparr>"

definition RamFs_alloc_inode :: "RamFs \<Rightarrow> (nat, VfsError) result \<times> RamFs" where
  "RamFs_alloc_inode fs =
     (case List.find (\<lambda>i. \<not> ino_used (inodes fs ! i)) [1..<MAX_INODES] of
        Some i \<Rightarrow> (Ok i, fs\<lparr>inodes := (inodes fs)[i := Inode_empty\<lparr>ino_used := True\<rparr>], inode_count := inode_count fs + 1\<rparr>)
      | None \<Rightarrow> (Err Vfs_NoSpace, fs))"

text \<open>The indices of the children of a directory, and the search among them.\<close>

definition kids :: "Inode \<Rightarrow> nat list" where
  "kids ino = map unat (take (ino_child_count ino) (ino_children ino))"

definition find_child :: "RamFs \<Rightarrow> Inode \<Rightarrow> bytes \<Rightarrow> nat option" where
  "find_child fs dir component =
     List.find (\<lambda>i. i < MAX_INODES \<and> ino_used (inodes fs ! i) \<and> Inode_name_str (inodes fs ! i) = component) (kids dir)"

fun resolve_components :: "RamFs \<Rightarrow> bytes list \<Rightarrow> nat \<Rightarrow> (nat, VfsError) result" where
  "resolve_components fs [] current = Ok current"
| "resolve_components fs (component # cs) current =
     (if component = [] then resolve_components fs cs current
      else
        let dir = inodes fs ! current
        in if ino_type dir \<noteq> Node_Directory then Err Vfs_NotADirectory
           else case find_child fs dir component of
                  None \<Rightarrow> Err Vfs_NotFound
                | Some i \<Rightarrow> resolve_components fs cs i)"

definition RamFs_resolve_path :: "RamFs \<Rightarrow> bytes \<Rightarrow> (nat, VfsError) result" where
  "RamFs_resolve_path fs path =
     (if path = [SLASH] \<or> path = [] then Ok 0
      else resolve_components fs (split_on SLASH (trim_start SLASH path)) 0)"

definition RamFs_split_path :: "bytes \<Rightarrow> bytes \<times> bytes" where
  "RamFs_split_path path =
     (let path = trim_end SLASH path
      in case rfind SLASH path of
           Some pos \<Rightarrow>
             (let parent = take pos path; nm = drop (pos + 1) path
              in if parent = [] then ([SLASH], nm) else (parent, nm))
         | None \<Rightarrow> ([SLASH], path))"

section \<open>Operations\<close>

text \<open>
  The end of a written range is a sum of two addresses and wraps around; a range that ends before it starts
  stops the kernel when it is sliced, and so does a copy between ranges of different lengths, which is the value
  \<^verbatim>\<open>None\<close>. The count of inodes wraps around too.
\<close>

definition RamFs_stat :: "RamFs \<Rightarrow> bytes \<Rightarrow> (NodeInfo, VfsError) result" where
  "RamFs_stat fs path =
     (case RamFs_resolve_path fs path of
        Inl e \<Rightarrow> Err e
      | Inr idx \<Rightarrow>
          (let inode = inodes fs ! idx
           in Ok \<lparr>ni_name = splice (replicate MAX_NAME 0) 0 (take (ino_name_len inode) (ino_name inode)),
                  ni_name_len = ino_name_len inode, ni_node_type = ino_type inode, ni_size = ino_data_len inode,
                  ni_inode = of_nat idx\<rparr>))"

definition RamFs_read :: "RamFs \<Rightarrow> bytes \<Rightarrow> nat \<Rightarrow> bytes \<Rightarrow> (nat, VfsError) result \<times> bytes" where
  "RamFs_read fs path offset buf =
     (case RamFs_resolve_path fs path of
        Inl e \<Rightarrow> (Err e, buf)
      | Inr idx \<Rightarrow>
          (let inode = inodes fs ! idx
           in if ino_type inode \<noteq> Node_File then (Err Vfs_NotAFile, buf)
              else if offset \<ge> ino_data_len inode then (Ok 0, buf)
              else
                let available = ino_data_len inode - offset;
                    to_read = min (length buf) available
                in (Ok to_read, splice buf 0 (slice offset to_read (ino_data inode)))))"

definition RamFs_write :: "RamFs \<Rightarrow> bytes \<Rightarrow> nat \<Rightarrow> bytes \<Rightarrow> ((nat, VfsError) result \<times> RamFs) option" where
  "RamFs_write fs path offset data =
     (case RamFs_resolve_path fs path of
        Inl e \<Rightarrow> Some (Err e, fs)
      | Inr idx \<Rightarrow>
          (let inode = inodes fs ! idx
           in if ino_type inode \<noteq> Node_File then Some (Err Vfs_NotAFile, fs)
              else
                let end' = (offset + length data) mod 2 ^ 64
                in if end' > MAX_FILE_SIZE then Some (Err Vfs_NoSpace, fs)
                   else if offset > end' \<or> end' - offset \<noteq> length data then None
                   else Some (Ok (length data),
                     ino_modify idx (\<lambda>ino. ino\<lparr>ino_data := splice (ino_data ino) offset data,
                       ino_data_len := (if end' > ino_data_len ino then end' else ino_data_len ino)\<rparr>) fs)))"

definition RamFs_create :: "RamFs \<Rightarrow> bytes \<Rightarrow> NodeType \<Rightarrow> (unit, VfsError) result \<times> RamFs" where
  "RamFs_create fs path node_type =
     (if is_ok (RamFs_resolve_path fs path) then (Err Vfs_AlreadyExists, fs)
      else
        let (parent_path, nm) = RamFs_split_path path
        in case RamFs_resolve_path fs parent_path of
             Inl e \<Rightarrow> (Err e, fs)
           | Inr parent_idx \<Rightarrow>
               (let parent = inodes fs ! parent_idx
                in if ino_type parent \<noteq> Node_Directory then (Err Vfs_NotADirectory, fs)
                   else if ino_child_count parent \<ge> MAX_CHILDREN then (Err Vfs_NoSpace, fs)
                   else case RamFs_alloc_inode fs of
                          (Inl e, fs) \<Rightarrow> (Err e, fs)
                        | (Inr new_idx, fs) \<Rightarrow>
                            (let fs = ino_modify new_idx
                                   (\<lambda>ino. (Inode_set_name nm (ino\<lparr>ino_type := node_type\<rparr>))\<lparr>ino_parent := of_nat parent_idx\<rparr>) fs;
                                 fs = ino_modify parent_idx
                                   (\<lambda>ino. ino\<lparr>ino_children := (ino_children ino)[ino_child_count ino := of_nat new_idx],
                                              ino_child_count := ino_child_count ino + 1\<rparr>) fs
                             in (Ok (), fs))))"

definition RamFs_readdir :: "RamFs \<Rightarrow> bytes \<Rightarrow> DirEntry list \<Rightarrow> (nat, VfsError) result \<times> DirEntry list" where
  "RamFs_readdir fs path entries =
     (case RamFs_resolve_path fs path of
        Inl e \<Rightarrow> (Err e, entries)
      | Inr idx \<Rightarrow>
          (let inode = inodes fs ! idx
           in if ino_type inode \<noteq> Node_Directory then (Err Vfs_NotADirectory, entries)
              else
                let count = min (ino_child_count inode) (length entries)
                in (Ok count,
                    splice entries 0
                      (map (\<lambda>i. let child = inodes fs ! unat (ino_children inode ! i)
                               in \<lparr>de_name = ino_name child, de_name_len = ino_name_len child,
                                   de_node_type = ino_type child\<rparr>) [0..<count]))))"

definition shift_children :: "nat \<Rightarrow> Inode \<Rightarrow> Inode" where
  "shift_children pos p =
     p\<lparr>ino_children := foldl (\<lambda>ch j. ch[j := ch ! (j + 1)]) (ino_children p) [pos..<ino_child_count p - 1],
       ino_child_count := ino_child_count p - 1\<rparr>"

definition RamFs_remove :: "RamFs \<Rightarrow> bytes \<Rightarrow> (unit, VfsError) result \<times> RamFs" where
  "RamFs_remove fs path =
     (if path = [SLASH] \<or> path = [] then (Err Vfs_InvalidPath, fs)
      else case RamFs_resolve_path fs path of
        Inl e \<Rightarrow> (Err e, fs)
      | Inr idx \<Rightarrow>
          (let inode = inodes fs ! idx
           in if ino_type inode = Node_Directory \<and> ino_child_count inode > 0 then (Err Vfs_IoError, fs)
              else
                let parent_idx = unat (ino_parent inode);
                    fs = (case position (\<lambda>c. c = idx) (kids (inodes fs ! parent_idx)) of
                            Some pos \<Rightarrow> ino_modify parent_idx (shift_children pos) fs
                          | None \<Rightarrow> fs);
                    fs = ino_modify idx (\<lambda>ino. ino\<lparr>ino_used := False\<rparr>) fs
                in (Ok (), fs\<lparr>inode_count := inode_count fs - 1\<rparr>)))"

definition RamFs_fs_name :: "RamFs \<Rightarrow> bytes" where
  "RamFs_fs_name fs = ascii ''ramfs''"

definition RamFs_ops :: "RamFs FileSystem" where
  "RamFs_ops = \<lparr>fs_stat = RamFs_stat, fs_read = RamFs_read, fs_write = RamFs_write, fs_create = RamFs_create,
     fs_readdir = RamFs_readdir, fs_remove = RamFs_remove, fs_name = RamFs_fs_name\<rparr>"

section \<open>The boot contents\<close>

definition MOTD_CONTENT :: bytes where
  "MOTD_CONTENT = ascii ''Welcome to Brane OS v1.0-alpha'' @ [10]"

definition INIT_SCRIPT_CONTENT :: bytes where
  "INIT_SCRIPT_CONTENT = ascii ''#!/bin/brsh'' @ [10] @ ascii ''echo '' @ [39] @
     ascii ''Starting Brane OS Services...'' @ [39] @ [10] @ ascii ''brane status'' @ [10] @ ascii ''lsmod'' @ [10]"

definition create_ok :: "bytes \<Rightarrow> NodeType \<Rightarrow> RamFs \<Rightarrow> RamFs" where
  "create_ok path ty fs = snd (RamFs_create fs path ty)"

definition write_ok :: "bytes \<Rightarrow> bytes \<Rightarrow> RamFs \<Rightarrow> RamFs option" where
  "write_ok path data fs = map_option snd (RamFs_write fs path 0 data)"

definition ramfs_init :: "RamFs \<Rightarrow> RamFs option" where
  "ramfs_init fs =
     (let fs = (root_setup fs)\<lparr>inode_count := 1\<rparr>;
          fs = create_ok (ascii ''/dev'') Node_Directory fs;
          fs = create_ok (ascii ''/proc'') Node_Directory fs;
          fs = create_ok (ascii ''/tmp'') Node_Directory fs;
          fs = create_ok (ascii ''/etc'') Node_Directory fs;
          fs = create_ok (ascii ''/etc/motd'') Node_File fs
      in case write_ok (ascii ''/etc/motd'') MOTD_CONTENT fs of
           None \<Rightarrow> None
         | Some fs \<Rightarrow> write_ok (ascii ''/etc/init.sh'') INIT_SCRIPT_CONTENT
                        (create_ok (ascii ''/etc/init.sh'') Node_File fs))"

end
