(* ===== verification/Ramfs_Tree.thy ===== *)
theory Ramfs_Tree
  imports Ramfs
begin

text \<open>
  The inode array of the in-memory file system as a file tree: the invariant of the array, the paths
  that lead to an inode, and the effect of creating, writing and removing on all paths. The
  file-system contract of the mount table is discharged here for the in-memory file system.
\<close>

section \<open>Following paths\<close>

abbreviation ino :: "RamFs \<Rightarrow> nat \<Rightarrow> Inode" where "ino fs i \<equiv> inodes fs ! i"

definition child :: "RamFs \<Rightarrow> nat \<Rightarrow> bytes \<Rightarrow> nat option" where
  "child fs i c = (if ino_type (ino fs i) = Node_Directory then find_child fs (ino fs i) c else None)"

definition lookup :: "RamFs \<Rightarrow> bytes list \<Rightarrow> nat option" where
  "lookup fs cs = foldl (\<lambda>o' c. Option.bind o' (\<lambda>i. child fs i c)) (Some 0) cs"

lemma lookup_Nil [simp]: "lookup fs [] = Some 0"
  by (simp add: lookup_def)

lemma lookup_snoc [simp]: "lookup fs (cs @ [c]) = Option.bind (lookup fs cs) (\<lambda>i. child fs i c)"
  by (simp add: lookup_def)

lemma foldl_bind_None: "foldl (\<lambda>o' c. Option.bind o' (\<lambda>i. child fs i c)) None cs = None"
  by (induction cs) auto

lemma resolve_components_lookup:
  "resolve_components fs cs i = Ok k \<longleftrightarrow>
     foldl (\<lambda>o' c. Option.bind o' (\<lambda>i. child fs i c)) (Some i) (filter (\<lambda>c. c \<noteq> []) cs) = Some k"
proof (induction cs arbitrary: i)
  case (Cons c cs)
  have "resolve_components fs (c # cs) i = Ok k \<longleftrightarrow> (\<exists>j. child fs i c = Some j \<and> resolve_components fs cs j = Ok k)"
    if "c \<noteq> []" using that by (auto simp: child_def Let_def split: option.splits)
  then show ?case using Cons.IH by (cases "child fs i c") (auto simp: foldl_bind_None)
qed simp

lemma resolve_path_lookup: "RamFs_resolve_path fs path = Ok k \<longleftrightarrow> lookup fs (components path) = Some k"
proof (cases "path = [SLASH] \<or> path = []")
  case True
  then show ?thesis using components_slashes [of 1] by (auto simp: RamFs_resolve_path_def)
next
  case False
  have "components path = filter (\<lambda>c. c \<noteq> []) (split_on SLASH (trim_start SLASH path))"
    by (metis components_def components_trim_start)
  with False show ?thesis by (simp add: RamFs_resolve_path_def resolve_components_lookup lookup_def)
qed

lemma resolve_path_cases:
  "(\<exists>e. RamFs_resolve_path fs path = Err e) \<and> lookup fs (components path) = None \<or>
   (\<exists>k. RamFs_resolve_path fs path = Ok k \<and> lookup fs (components path) = Some k)"
proof (cases "RamFs_resolve_path fs path")
  case (Inl e)
  then have "lookup fs (components path) \<noteq> Some k" for k using resolve_path_lookup [of fs path k] by simp
  then show ?thesis using Inl by (cases "lookup fs (components path)") auto
next
  case (Inr k)
  then show ?thesis using resolve_path_lookup [of fs path k] by simp
qed

lemma find_child_Some:
  assumes "find_child fs dir c = Some k"
  shows "k \<in> set (kids dir)" "k < MAX_INODES" "ino_used (ino fs k)" "Inode_name_str (ino fs k) = c"
  using find_SomeD [OF assms [unfolded find_child_def]] by auto

section \<open>Splitting a path\<close>

lemma utf8_valid_parts:
  assumes "utf8_valid p"
  shows "\<forall>c \<in> set (split_on SLASH p). utf8_valid c"
  using assms
proof (induction "length p" arbitrary: p rule: less_induct)
  case less
  show ?case
  proof (cases "SLASH \<in> set p")
    case True
    then obtain xs ys where p: "p = xs @ SLASH # ys" by (meson split_list)
    have v: "utf8_valid xs" "utf8_valid ys"
      using less(2) utf8_valid_append_ascii [of SLASH xs ys] by (auto simp: p SLASH_def)
    show ?thesis using less(1) [of xs] less(1) [of ys] v by (auto simp: p split_on_append)
  qed (use less(2) in \<open>simp add: split_on_fresh\<close>)
qed

lemma split_path_components:
  assumes "components path \<noteq> []" "RamFs_split_path path = (pp, nm)"
  shows "components path = components pp @ [nm]"
proof -
  let ?t = "trim_end SLASH path"
  have ct: "components ?t = components path" by simp
  then have ne: "?t \<noteq> []" using assms(1) by (metis components_Nil)
  show ?thesis
  proof (cases "rfind SLASH ?t")
    case None
    then have "SLASH \<notin> set ?t" by (simp add: rfind_None_iff)
    then show ?thesis using None assms(2) ct ne components_slashes [of 1]
      by (auto simp: RamFs_split_path_def components_fresh)
  next
    case (Some pos)
    note r = rfind_SomeD [OF Some]
    let ?par = "take pos ?t" and ?nm = "drop (Suc pos) ?t"
    have nm: "?nm \<noteq> []"
    proof
      assume "?nm = []"
      then have "?t = ?par @ [SLASH]" using r(2) by simp
      then have "last ?t = SLASH" by (metis last_snoc)
      then show False using trim_end_last [OF ne] by simp
    qed
    have c: "components path = components ?par @ [?nm]"
    proof -
      have "components ?t = components (?par @ SLASH # ?nm)" by (rule arg_cong [OF r(2)])
      also have "\<dots> = components ?par @ [?nm]" unfolding components_append components_fresh [OF r(3)] using nm by simp
      finally show ?thesis unfolding ct .
    qed
    show ?thesis using Some assms(2) c components_slashes [of 1]
      by (auto simp: RamFs_split_path_def Let_def split: if_splits)
  qed
qed

section \<open>The invariant\<close>

definition inode_wf :: "Inode \<Rightarrow> bool" where
  "inode_wf x \<longleftrightarrow> length (ino_name x) = MAX_NAME \<and> ino_name_len x \<le> MAX_NAME \<and>
     length (ino_data x) = MAX_FILE_SIZE \<and> ino_data_len x \<le> MAX_FILE_SIZE \<and>
     (\<forall>i < MAX_FILE_SIZE. ino_data_len x \<le> i \<longrightarrow> ino_data x ! i = 0) \<and>
     length (ino_children x) = MAX_CHILDREN \<and> ino_child_count x \<le> MAX_CHILDREN"

text \<open>
  Of an inode in use: its children are different, in use and have it as their parent, and only
  directories have children. The root is in use whatever its flag says: nothing reads that flag.
\<close>

definition links_wf :: "RamFs \<Rightarrow> nat \<Rightarrow> bool" where
  "links_wf fs i \<longleftrightarrow> distinct (kids (ino fs i)) \<and>
     (\<forall>k \<in> set (kids (ino fs i)). 0 < k \<and> k < MAX_INODES \<and> ino_used (ino fs k) \<and> unat (ino_parent (ino fs k)) = i) \<and>
     (ino_type (ino fs i) \<noteq> Node_Directory \<longrightarrow> kids (ino fs i) = [])"

definition used_inodes :: "RamFs \<Rightarrow> nat set" where
  "used_inodes fs = {i. i < MAX_INODES \<and> (i = 0 \<or> ino_used (ino fs i))}"

definition ramfs_wf :: "RamFs \<Rightarrow> bool" where
  "ramfs_wf fs \<longleftrightarrow> length (inodes fs) = MAX_INODES \<and> (\<forall>i < MAX_INODES. inode_wf (ino fs i)) \<and>
     ino_type (ino fs 0) = Node_Directory \<and> ino_parent (ino fs 0) = 0 \<and> (\<forall>i \<in> used_inodes fs. links_wf fs i)"

text \<open>The names in a directory are different and not empty, which names that do not fit their field can break.\<close>

definition kid_names :: "RamFs \<Rightarrow> nat \<Rightarrow> bytes list" where
  "kid_names fs i = map (\<lambda>k. Inode_name_str (ino fs k)) (kids (ino fs i))"

definition names_ok :: "RamFs \<Rightarrow> bool" where
  "names_ok fs \<longleftrightarrow> (\<forall>i \<in> used_inodes fs. distinct (kid_names fs i) \<and> [] \<notin> set (kid_names fs i))"

definition ramfs_ok :: "RamFs \<Rightarrow> bool" where
  "ramfs_ok fs \<longleftrightarrow> ramfs_wf fs \<and> names_ok fs"

lemma ramfs_wfD:
  assumes "ramfs_wf fs"
  shows "length (inodes fs) = MAX_INODES" "i < MAX_INODES \<Longrightarrow> inode_wf (ino fs i)"
    "ino_type (ino fs 0) = Node_Directory" "ino_parent (ino fs 0) = 0" "0 \<in> used_inodes fs"
    "i \<in> used_inodes fs \<Longrightarrow> links_wf fs i"
  using assms by (auto simp: ramfs_wf_def used_inodes_def MAX_INODES_def)

lemma kids_used:
  assumes "ramfs_wf fs" "i \<in> used_inodes fs" "k \<in> set (kids (ino fs i))"
  shows "k \<in> used_inodes fs" "0 < k" "unat (ino_parent (ino fs k)) = i"
  using ramfs_wfD(6) [OF assms(1,2)] assms(3) by (auto simp: links_wf_def used_inodes_def)

lemma child_find:
  assumes "links_wf fs i"
  shows "child fs i c = List.find (\<lambda>k. Inode_name_str (ino fs k) = c) (kids (ino fs i))"
proof -
  have "find_child fs (ino fs i) c = List.find (\<lambda>k. Inode_name_str (ino fs k) = c) (kids (ino fs i))"
    unfolding find_child_def by (rule find_cong) (use assms in \<open>auto simp: links_wf_def\<close>)
  then show ?thesis using assms by (auto simp: child_def links_wf_def)
qed

lemma child_Some:
  assumes "ramfs_wf fs" "i \<in> used_inodes fs" "child fs i c = Some k"
  shows "k \<in> set (kids (ino fs i))" "k \<in> used_inodes fs" "0 < k" "unat (ino_parent (ino fs k)) = i"
    "Inode_name_str (ino fs k) = c"
proof -
  show k: "k \<in> set (kids (ino fs i))" "Inode_name_str (ino fs k) = c"
    using assms(3) find_SomeD [of _ "kids (ino fs i)" k] unfolding child_find [OF ramfs_wfD(6) [OF assms(1,2)]] by auto
  show "k \<in> used_inodes fs" "0 < k" "unat (ino_parent (ino fs k)) = i" using kids_used [OF assms(1,2) k(1)] by simp_all
qed

lemma lookup_used:
  assumes "ramfs_wf fs"
  shows "lookup fs cs = Some i \<Longrightarrow> i \<in> used_inodes fs"
proof (induction cs arbitrary: i rule: rev_induct)
  case Nil
  then show ?case using ramfs_wfD(5) [OF assms] by simp
next
  case (snoc c cs)
  then show ?case using child_Some(2) [OF assms] by (auto simp: bind_eq_Some_conv)
qed

lemma lookup_root_iff:
  assumes "ramfs_wf fs"
  shows "lookup fs cs = Some 0 \<longleftrightarrow> cs = []"
proof (cases cs rule: rev_cases)
  case (snoc cs' c)
  then show ?thesis using child_Some(3) [OF assms] lookup_used [OF assms]
    by (fastforce simp: bind_eq_Some_conv)
qed simp

text \<open>An inode has one path.\<close>

lemma lookup_inj:
  assumes "ramfs_wf fs"
  shows "lookup fs cs = Some i \<Longrightarrow> lookup fs ds = Some i \<Longrightarrow> cs = ds"
proof (induction cs arbitrary: i ds rule: rev_induct)
  case Nil
  then show ?case using lookup_root_iff [OF assms, of ds] by simp
next
  case (snoc c cs)
  obtain j where j: "lookup fs cs = Some j" "child fs j c = Some i" using snoc.prems(1) by (auto simp: bind_eq_Some_conv)
  note u = lookup_used [OF assms]
  have "i \<noteq> 0" using child_Some(3) [OF assms u [OF j(1)] j(2)] by simp
  then have "ds \<noteq> []" using snoc.prems(2) by auto
  then obtain ds' d where ds: "ds = ds' @ [d]" by (meson rev_exhaust)
  obtain j' where j': "lookup fs ds' = Some j'" "child fs j' d = Some i" using snoc.prems(2) by (auto simp: ds bind_eq_Some_conv)
  have "j' = j" "d = c"
    using child_Some(4,5) [OF assms u [OF j(1)] j(2)] child_Some(4,5) [OF assms u [OF j'(1)] j'(2)] by simp_all
  then show ?case using snoc.IH [OF j(1), of ds'] j'(1) ds by simp
qed

lemma lookup_append_None: "lookup fs cs = None \<Longrightarrow> lookup fs (cs @ ds) = None"
  by (simp add: lookup_def foldl_bind_None)

lemma lookup_below_leaf:
  assumes "lookup fs cs = Some n" "kids (ino fs n) = []" "ds \<noteq> []"
  shows "lookup fs (cs @ ds) = None"
proof -
  obtain d ds' where ds: "ds = d # ds'" using assms(3) by (cases ds) auto
  have "child fs n d = None" using assms(2) by (simp add: child_def find_child_def)
  then have "lookup fs (cs @ [d]) = None" using assms(1) by simp
  from lookup_append_None [OF this, of ds'] show ?thesis by (simp add: ds)
qed

section \<open>The tree, and changing one leaf of it\<close>

definition node_of :: "Inode \<Rightarrow> file_node" where
  "node_of x = (case ino_type x of Node_Directory \<Rightarrow> Dir_Node | Node_Device \<Rightarrow> Device_Node
     | Node_File \<Rightarrow> File_Node (take (ino_data_len x) (ino_data x)))"

definition ram_content :: "RamFs \<Rightarrow> file_tree" where
  "ram_content fs cs = map_option (\<lambda>i. node_of (ino fs i)) (lookup fs cs)"

text \<open>What resolution reads of an inode, apart from its flag.\<close>

definition meta :: "Inode \<Rightarrow> NodeType \<times> bytes \<times> u16" where
  "meta x = (ino_type x, Inode_name_str x, ino_parent x)"

lemma used_lt: "i \<in> used_inodes fs \<Longrightarrow> i < MAX_INODES"
  by (simp add: used_inodes_def)

lemma used_flag: "i \<in> used_inodes fs \<Longrightarrow> 0 < i \<Longrightarrow> ino_used (ino fs i)"
  by (simp add: used_inodes_def)

lemma kid_names_cong:
  assumes "kids (ino fs' i) = kids (ino fs i)" "\<And>k. k \<in> set (kids (ino fs i)) \<Longrightarrow> meta (ino fs' k) = meta (ino fs k)"
  shows "kid_names fs' i = kid_names fs i"
  using assms by (simp add: kid_names_def meta_def)

text \<open>Nothing but contents changes.\<close>

lemma same_tree:
  assumes ok: "ramfs_wf fs" and len: "length (inodes fs') = MAX_INODES"
    and wf: "\<And>i. i < MAX_INODES \<Longrightarrow> inode_wf (ino fs' i)"
    and same: "\<And>i. i < MAX_INODES \<Longrightarrow> meta (ino fs' i) = meta (ino fs i) \<and> kids (ino fs' i) = kids (ino fs i)"
    and u: "used_inodes fs' = used_inodes fs"
  shows "ramfs_wf fs'" "names_ok fs' = names_ok fs" "lookup fs' cs = lookup fs cs"
proof -
  have m: "meta (ino fs' k) = meta (ino fs k)" if "i \<in> used_inodes fs" "k \<in> set (kids (ino fs i))" for i k
    using same used_lt kids_used(1) [OF ok that] by blast
  have l: "links_wf fs' i" if i: "i \<in> used_inodes fs" for i
  proof -
    have "ino_used (ino fs' k)" if "k \<in> set (kids (ino fs i))" for k
      using kids_used(1,2) [OF ok i that] used_flag [of k fs'] u by simp
    then show ?thesis using ramfs_wfD(6) [OF ok i] same [OF used_lt [OF i]] m [OF i] by (simp add: links_wf_def meta_def)
  qed
  have "child fs' i c = child fs i c" if i: "i \<in> used_inodes fs" for i c
    unfolding child_find [OF l [OF i]] child_find [OF ramfs_wfD(6) [OF ok i]]
    using same [OF used_lt [OF i]] m [OF i] by (intro find_cong) (simp_all add: meta_def)
  then show "lookup fs' cs = lookup fs cs"
  proof (induction cs rule: rev_induct)
    case (snoc d cs)
    then show ?case using lookup_used [OF ok, of cs] by (cases "lookup fs cs") auto
  qed simp
  have "kid_names fs' i = kid_names fs i" if "i \<in> used_inodes fs" for i
    by (rule kid_names_cong) (use same used_lt [OF that] m [OF that] in auto)
  then show "names_ok fs' = names_ok fs" by (simp add: names_ok_def u)
  have "meta (ino fs' 0) = meta (ino fs 0)" using same [of 0] by (simp add: MAX_INODES_def)
  then show "ramfs_wf fs'" using ramfs_wfD(3,4) [OF ok] len wf l u by (simp add: ramfs_wf_def meta_def)
qed

text \<open>
  A fresh inode \<^verbatim>\<open>n\<close> becomes the last child of the directory \<^verbatim>\<open>p\<close>. It is found under its stored name
  unless an earlier child has that name.
\<close>

definition leaf_added :: "RamFs \<Rightarrow> RamFs \<Rightarrow> nat \<Rightarrow> nat \<Rightarrow> bool" where
  "leaf_added fs fs' p n \<longleftrightarrow> ramfs_wf fs \<and> length (inodes fs') = MAX_INODES \<and>
     (\<forall>i < MAX_INODES. inode_wf (ino fs' i)) \<and> p \<in> used_inodes fs \<and> ino_type (ino fs p) = Node_Directory \<and>
     n < MAX_INODES \<and> n \<notin> used_inodes fs \<and> used_inodes fs' = insert n (used_inodes fs) \<and> kids (ino fs' n) = [] \<and>
     unat (ino_parent (ino fs' n)) = p \<and>
     (\<forall>i < MAX_INODES. i \<noteq> n \<longrightarrow> meta (ino fs' i) = meta (ino fs i) \<and>
        kids (ino fs' i) = (if i = p then kids (ino fs p) @ [n] else kids (ino fs i)))"

lemma leaf_addedD:
  assumes "leaf_added fs fs' p n"
  shows "ramfs_wf fs" "p \<in> used_inodes fs" "0 < n" "used_inodes fs' = insert n (used_inodes fs)"
    "i \<in> used_inodes fs \<Longrightarrow> meta (ino fs' i) = meta (ino fs i)"
    "i \<in> used_inodes fs \<Longrightarrow> kids (ino fs' i) = (if i = p then kids (ino fs p) @ [n] else kids (ino fs i))"
    "i \<in> used_inodes fs \<Longrightarrow> k \<in> set (kids (ino fs i)) \<Longrightarrow> meta (ino fs' k) = meta (ino fs k) \<and> ino_used (ino fs' k) \<and> k \<noteq> n"
proof -
  note A = assms [unfolded leaf_added_def]
  show ok: "ramfs_wf fs" "p \<in> used_inodes fs" "used_inodes fs' = insert n (used_inodes fs)" using A by blast+
  show "0 < n" using A ramfs_wfD(5) [OF ok(1)] by (cases n) auto
  have ne: "i \<noteq> n" if "i \<in> used_inodes fs" for i using that A by auto
  show m: "meta (ino fs' i) = meta (ino fs i)"
    "kids (ino fs' i) = (if i = p then kids (ino fs p) @ [n] else kids (ino fs i))" if "i \<in> used_inodes fs" for i
    using A used_lt ne that by blast+
  show "meta (ino fs' k) = meta (ino fs k) \<and> ino_used (ino fs' k) \<and> k \<noteq> n"
    if "i \<in> used_inodes fs" "k \<in> set (kids (ino fs i))"
    using kids_used(1,2) [OF ok(1) that] m(1) [of k] used_flag [of k fs'] ne [of k] ok(3) by auto
qed

lemma leaf_added_links:
  assumes A: "leaf_added fs fs' p n" and i: "i \<in> used_inodes fs"
  shows "links_wf fs' i"
proof -
  note D = leaf_addedD [OF A] and A' = A [unfolded leaf_added_def]
  have "ino_used (ino fs' n)" using used_flag [of n fs'] D(3,4) by simp
  then show ?thesis
    using ramfs_wfD(6) [OF D(1) i] D(3) D(5,6) [OF i] D(7) [OF i] A' by (auto simp: links_wf_def meta_def)
qed

lemma leaf_added_child:
  assumes A: "leaf_added fs fs' p n" and i: "i \<in> used_inodes fs"
  shows "child fs' i d = (if i = p \<and> child fs i d = None \<and> Inode_name_str (ino fs' n) = d then Some n else child fs i d)"
proof -
  note D = leaf_addedD [OF A]
  have f: "List.find (\<lambda>k. Inode_name_str (ino fs' k) = d) (kids (ino fs i)) = child fs i d"
    unfolding child_find [OF ramfs_wfD(6) [OF D(1) i]] using D(7) [OF i] by (intro find_cong) (simp_all add: meta_def)
  have a: "List.find P (xs @ [n]) = (case List.find P xs of Some k \<Rightarrow> Some k | None \<Rightarrow> if P n then Some n else None)" for P xs
    by (induction xs) auto
  show ?thesis unfolding child_find [OF leaf_added_links [OF A i]] D(6) [OF i]
    using f by (auto simp: a split: option.splits)
qed

lemma leaf_added_lookup:
  assumes A: "leaf_added fs fs' p n" and p: "lookup fs cs = Some p"
  shows "lookup fs' ds =
    (if lookup fs ds = None \<and> ds = cs @ [Inode_name_str (ino fs' n)] then Some n else lookup fs ds)"
proof (induction ds rule: rev_induct)
  case (snoc d ds)
  note D = leaf_addedD [OF A]
  show ?case
  proof (cases "lookup fs ds")
    case (Some i)
    have "i = p \<longleftrightarrow> ds = cs" using lookup_inj [OF D(1) Some, of cs] p Some by auto
    then show ?thesis using snoc Some leaf_added_child [OF A lookup_used [OF D(1) Some], of d] by auto
  next
    case None
    have "child fs' n d = None" using A by (simp add: leaf_added_def child_def find_child_def)
    then show ?thesis using snoc None p by auto
  qed
qed simp

lemma leaf_added_wf:
  assumes A: "leaf_added fs fs' p n"
  shows "ramfs_wf fs'"
proof -
  note D = leaf_addedD [OF A]
  have "links_wf fs' n" using A by (simp add: leaf_added_def links_wf_def)
  then have "\<forall>i \<in> used_inodes fs'. links_wf fs' i" using leaf_added_links [OF A] D(4) by simp
  moreover have "meta (ino fs' 0) = meta (ino fs 0)" using D(5) [of 0] ramfs_wfD(5) [OF D(1)] by blast
  ultimately show ?thesis
    using ramfs_wfD(3,4) [OF D(1)] A by (simp add: ramfs_wf_def meta_def leaf_added_def)
qed

lemma leaf_added_names:
  assumes A: "leaf_added fs fs' p n" and ok: "names_ok fs"
    and c: "child fs p (Inode_name_str (ino fs' n)) = None" "Inode_name_str (ino fs' n) \<noteq> []"
  shows "names_ok fs'"
proof -
  note D = leaf_addedD [OF A]
  have old: "map (\<lambda>k. Inode_name_str (ino fs' k)) (kids (ino fs i)) = kid_names fs i" if "i \<in> used_inodes fs" for i
    using D(7) [OF that] by (simp add: kid_names_def meta_def)
  have "Inode_name_str (ino fs' n) \<notin> set (kid_names fs p)"
    using c(1) unfolding child_find [OF ramfs_wfD(6) [OF D(1,2)]] by (auto simp: find_None_iff kid_names_def)
  moreover have "kid_names fs' i = kid_names fs i @ (if i = p then [Inode_name_str (ino fs' n)] else [])"
    if i: "i \<in> used_inodes fs" for i
    unfolding kid_names_def [of fs'] D(6) [OF i] using old [OF i] by auto
  ultimately have "distinct (kid_names fs' i) \<and> [] \<notin> set (kid_names fs' i)" if i: "i \<in> used_inodes fs" for i
    using ok i c(2) by (simp add: names_ok_def)
  moreover have "kid_names fs' n = []" using A by (simp add: kid_names_def leaf_added_def)
  ultimately show ?thesis by (simp add: names_ok_def D(4))
qed

text \<open>
  The childless inode \<^verbatim>\<open>n\<close> of the directory \<^verbatim>\<open>p\<close> is given back. Only paths through its name can change, and
  with different names in every directory exactly its path goes.
\<close>

definition leaf_dropped :: "RamFs \<Rightarrow> RamFs \<Rightarrow> nat \<Rightarrow> nat \<Rightarrow> bool" where
  "leaf_dropped fs fs' p n \<longleftrightarrow> ramfs_wf fs \<and> length (inodes fs') = MAX_INODES \<and>
     (\<forall>i < MAX_INODES. inode_wf (ino fs' i)) \<and> p \<in> used_inodes fs \<and> n \<in> set (kids (ino fs p)) \<and>
     kids (ino fs n) = [] \<and> used_inodes fs' = used_inodes fs - {n} \<and>
     (\<forall>i < MAX_INODES. i \<noteq> n \<longrightarrow> meta (ino fs' i) = meta (ino fs i) \<and>
        kids (ino fs' i) = (if i = p then remove1 n (kids (ino fs p)) else kids (ino fs i)))"

lemma leaf_droppedD:
  assumes "leaf_dropped fs fs' p n"
  shows "ramfs_wf fs" "p \<in> used_inodes fs" "n \<in> used_inodes fs" "0 < n" "n \<in> set (kids (ino fs p))"
    "used_inodes fs' = used_inodes fs - {n}"
    "i \<in> used_inodes fs' \<Longrightarrow> i \<in> used_inodes fs \<and> meta (ino fs' i) = meta (ino fs i)"
    "i \<in> used_inodes fs' \<Longrightarrow> kids (ino fs' i) = (if i = p then remove1 n (kids (ino fs p)) else kids (ino fs i))"
    "i \<in> used_inodes fs \<Longrightarrow> k \<in> set (kids (ino fs i)) \<Longrightarrow> k = n \<Longrightarrow> i = p"
proof -
  note A = assms [unfolded leaf_dropped_def]
  show ok: "ramfs_wf fs" "p \<in> used_inodes fs" "n \<in> set (kids (ino fs p))" and u: "used_inodes fs' = used_inodes fs - {n}"
    using A by blast+
  note K = kids_used [OF ok]
  show "n \<in> used_inodes fs" "0 < n" using K by blast+
  show "i \<in> used_inodes fs' \<Longrightarrow> i \<in> used_inodes fs \<and> meta (ino fs' i) = meta (ino fs i)"
    "i \<in> used_inodes fs' \<Longrightarrow> kids (ino fs' i) = (if i = p then remove1 n (kids (ino fs p)) else kids (ino fs i))"
    using A used_lt unfolding u by blast+
  show "i \<in> used_inodes fs \<Longrightarrow> k \<in> set (kids (ino fs i)) \<Longrightarrow> k = n \<Longrightarrow> i = p"
    using kids_used(3) [OF ok(1), of i k] K(3) by auto
qed

lemma leaf_dropped_kids:
  assumes A: "leaf_dropped fs fs' p n" and i: "i \<in> used_inodes fs'"
  shows "set (kids (ino fs' i)) = set (kids (ino fs i)) - {n}" "distinct (kids (ino fs' i))"
    "k \<in> set (kids (ino fs' i)) \<Longrightarrow> meta (ino fs' k) = meta (ino fs k) \<and> k \<in> used_inodes fs'"
proof -
  note D = leaf_droppedD [OF A]
  have iu: "i \<in> used_inodes fs" using D(7) [OF i] by simp
  have d: "distinct (kids (ino fs i))" using ramfs_wfD(6) [OF D(1) iu] by (simp add: links_wf_def)
  show s: "set (kids (ino fs' i)) = set (kids (ino fs i)) - {n}"
    using D(8) [OF i] D(9) [OF iu, of n] d by (cases "i = p") (auto simp: set_remove1_eq)
  show "distinct (kids (ino fs' i))" using D(8) [OF i] d by (auto simp: distinct_remove1)
  show "meta (ino fs' k) = meta (ino fs k) \<and> k \<in> used_inodes fs'" if "k \<in> set (kids (ino fs' i))"
    using that s kids_used(1) [OF D(1) iu, of k] D(6) D(7) [of k] by auto
qed

lemma leaf_dropped_links:
  assumes A: "leaf_dropped fs fs' p n" and i: "i \<in> used_inodes fs'"
  shows "links_wf fs' i"
proof -
  note D = leaf_droppedD [OF A] and K = leaf_dropped_kids [OF A i]
  have iu: "i \<in> used_inodes fs" using D(7) [OF i] by simp
  have "0 < k \<and> k < MAX_INODES \<and> ino_used (ino fs' k) \<and> unat (ino_parent (ino fs' k)) = i" if "k \<in> set (kids (ino fs' i))" for k
    using kids_used(2,3) [OF D(1) iu, of k] K(1) K(3) [OF that] that used_flag [of k fs'] used_lt [of k fs'] by (simp add: meta_def)
  moreover have "ino_type (ino fs' i) \<noteq> Node_Directory \<longrightarrow> kids (ino fs' i) = []"
    using D(7,8) [OF i] ramfs_wfD(6) [OF D(1) iu] by (auto simp: meta_def links_wf_def)
  ultimately show ?thesis using K(2) by (simp add: links_wf_def)
qed

lemma leaf_dropped_wf:
  assumes A: "leaf_dropped fs fs' p n"
  shows "ramfs_wf fs'"
proof -
  note D = leaf_droppedD [OF A]
  have "0 \<in> used_inodes fs'" using D(4,6) ramfs_wfD(5) [OF D(1)] by simp
  then show ?thesis
    using ramfs_wfD(3,4) [OF D(1)] A leaf_dropped_links [OF A] D(7) [of 0] by (simp add: ramfs_wf_def meta_def leaf_dropped_def)
qed

lemma leaf_dropped_names:
  assumes A: "leaf_dropped fs fs' p n" and ok: "names_ok fs"
  shows "names_ok fs'"
proof -
  note D = leaf_droppedD [OF A]
  have "distinct (kid_names fs' i) \<and> [] \<notin> set (kid_names fs' i)" if i: "i \<in> used_inodes fs'" for i
  proof -
    note K = leaf_dropped_kids [OF A i]
    have e: "kid_names fs' i = map (\<lambda>k. Inode_name_str (ino fs k)) (kids (ino fs' i))"
      using K(3) by (simp add: kid_names_def meta_def)
    have "inj_on (\<lambda>k. Inode_name_str (ino fs k)) (set (kids (ino fs i)))" "[] \<notin> set (kid_names fs i)"
      using ok D(7) [OF i] by (simp_all add: names_ok_def kid_names_def distinct_map)
    then show ?thesis unfolding e using K(1,2) by (auto simp: distinct_map kid_names_def intro: inj_on_subset)
  qed
  then show ?thesis by (simp add: names_ok_def)
qed

lemma leaf_dropped_child:
  assumes A: "leaf_dropped fs fs' p n" and i: "i \<in> used_inodes fs'"
  shows "i \<noteq> p \<or> d \<noteq> Inode_name_str (ino fs n) \<Longrightarrow> child fs' i d = child fs i d"
    "names_ok fs \<Longrightarrow> p \<in> used_inodes fs' \<Longrightarrow> child fs' p (Inode_name_str (ino fs n)) = None"
proof -
  note D = leaf_droppedD [OF A]
  have new: "child fs' j d = List.find (\<lambda>k. Inode_name_str (ino fs k) = d) (kids (ino fs' j))" if "j \<in> used_inodes fs'" for j d
    unfolding child_find [OF leaf_dropped_links [OF A that]] using leaf_dropped_kids(3) [OF A that]
    by (intro find_cong) (simp_all add: meta_def)
  have r: "List.find P (remove1 n xs) = List.find P xs" if "\<not> P n" for P xs using that by (induction xs) auto
  show "child fs' i d = child fs i d" if "i \<noteq> p \<or> d \<noteq> Inode_name_str (ino fs n)"
    unfolding new [OF i] child_find [OF ramfs_wfD(6) [OF D(1) conjunct1 [OF D(7) [OF i]]]] D(8) [OF i]
    using that by (auto simp: r)
  show "child fs' p (Inode_name_str (ino fs n)) = None" if ok: "names_ok fs" and p: "p \<in> used_inodes fs'"
  proof -
    have "inj_on (\<lambda>k. Inode_name_str (ino fs k)) (set (kids (ino fs p)))"
      using ok D(2) by (simp add: names_ok_def kid_names_def distinct_map)
    then show ?thesis unfolding new [OF p] using leaf_dropped_kids(1) [OF A p] D(5) by (auto simp: find_None_iff dest: inj_onD)
  qed
qed

lemma leaf_dropped_lookup:
  assumes A: "leaf_dropped fs fs' p n" and p: "lookup fs cs = Some p" and n: "lookup fs (cs @ [c]) = Some n"
  shows "\<nexists>qs. ds = (cs @ [c]) @ qs \<Longrightarrow> lookup fs' ds = lookup fs ds"
    "names_ok fs \<Longrightarrow> lookup fs' ds = (if ds = cs @ [c] then None else lookup fs ds)"
proof -
  note D = leaf_droppedD [OF A]
  have c: "c = Inode_name_str (ino fs n)" using child_Some(5) [OF D(1,2), of c n] p n by simp
  have pn: "p \<in> used_inodes fs'" using D(2,5,6) A by (auto simp: leaf_dropped_def)
  show off: "lookup fs' ds = lookup fs ds" if "\<nexists>qs. ds = (cs @ [c]) @ qs" for ds
    using that
  proof (induction ds rule: rev_induct)
    case (snoc d ds)
    have IH: "lookup fs' ds = lookup fs ds" using snoc.prems by (intro snoc.IH) (metis append_assoc)
    show ?case
    proof (cases "lookup fs ds")
      case (Some i)
      have "i \<noteq> n" using lookup_inj [OF D(1) Some, of "cs @ [c]"] n snoc.prems by (metis append_assoc)
      then have i: "i \<in> used_inodes fs'" using lookup_used [OF D(1) Some] D(6) by simp
      have "i \<noteq> p \<or> d \<noteq> c" using lookup_inj [OF D(1) Some, of cs] p snoc.prems by (metis append_Nil2)
      then show ?thesis using IH Some leaf_dropped_child(1) [OF A i, of d] c by auto
    qed (use IH in simp)
  qed simp
  show "lookup fs' ds = (if ds = cs @ [c] then None else lookup fs ds)" if ok: "names_ok fs"
  proof (cases "\<exists>qs. ds = (cs @ [c]) @ qs")
    case False
    then show ?thesis using off [OF False] by (metis append_Nil2)
  next
    case True
    then obtain qs where ds: "ds = (cs @ [c]) @ qs" by blast
    have "lookup fs' (cs @ [c]) = None" using off [of cs] p leaf_dropped_child(2) [OF A pn ok pn] c by simp
    then have "lookup fs' ds = None" unfolding ds by (rule lookup_append_None)
    moreover have "lookup fs ds = None" if "qs \<noteq> []"
      unfolding ds by (rule lookup_below_leaf [OF n _ that]) (use A in \<open>simp add: leaf_dropped_def\<close>)
    ultimately show ?thesis using ds by (cases "qs = []") auto
  qed
qed

end
