(* ===== verification/Ramfs_Spec.thy ===== *)
theory Ramfs_Spec
  imports Ramfs_Tree
begin

text \<open>
  What the operations of the in-memory file system do to its tree, the interpretation of the
  file-system contract, and the properties that follow for the file system and for the mount table
  above it.
\<close>

section \<open>Reading\<close>

lemma ram_content_Some:
  assumes "ramfs_wf fs" "ram_content fs (components p) = Some n"
  obtains i where "RamFs_resolve_path fs p = Ok i" "i \<in> used_inodes fs" "n = node_of (ino fs i)"
    "lookup fs (components p) = Some i" "inode_wf (ino fs i)"
proof -
  obtain i where i: "lookup fs (components p) = Some i" "n = node_of (ino fs i)"
    using assms(2) by (auto simp: ram_content_def)
  then have "i \<in> used_inodes fs" using lookup_used [OF assms(1)] by blast
  then show ?thesis using that i resolve_path_lookup [of fs p i] ramfs_wfD(2) [OF assms(1) used_lt] by blast
qed

lemma node_of_kind [simp]: "node_kind (node_of x) = ino_type x"
  by (cases "ino_type x") (simp_all add: node_of_def)

lemma node_of_file: "node_of x = File_Node d \<longleftrightarrow> ino_type x = Node_File \<and> d = take (ino_data_len x) (ino_data x)"
  by (cases "ino_type x") (auto simp: node_of_def)

lemma ram_stat_node:
  assumes "ramfs_wf fs" "ram_content fs (components p) = Some n"
  shows "\<exists>i. RamFs_stat fs p = Ok i \<and> ni_node_type i = node_kind n \<and> (\<forall>d. n = File_Node d \<longrightarrow> ni_size i = length d)"
proof -
  obtain i where "RamFs_resolve_path fs p = Ok i" "n = node_of (ino fs i)" "inode_wf (ino fs i)"
    by (rule ram_content_Some [OF assms])
  then show ?thesis by (auto simp: RamFs_stat_def Let_def node_of_file inode_wf_def)
qed

lemma ram_read_file:
  assumes "ramfs_wf fs" "ram_content fs (components p) = Some (File_Node d)"
  shows "RamFs_read fs p off buf =
    (Ok (read_count d off (length buf)), splice buf 0 (slice off (read_count d off (length buf)) d))"
proof -
  obtain i where i: "RamFs_resolve_path fs p = Ok i" "File_Node d = node_of (ino fs i)" "inode_wf (ino fs i)"
    by (rule ram_content_Some [OF assms])
  have d: "ino_type (ino fs i) = Node_File" "d = take (ino_data_len (ino fs i)) (ino_data (ino fs i))"
    using i(2) node_of_file [of "ino fs i" d] by auto
  have len: "length d = ino_data_len (ino fs i)" using i(3) d(2) by (simp add: inode_wf_def)
  show ?thesis
  proof (cases "off \<ge> ino_data_len (ino fs i)")
    case True
    then show ?thesis using i(1) d(1) len by (simp add: RamFs_read_def read_count_def)
  next
    case False
    let ?n = "min (length buf) (ino_data_len (ino fs i) - off)"
    have "slice off ?n (ino_data (ino fs i)) = slice off ?n d"
      unfolding d(2) slice_def drop_take take_take by (simp add: min.absorb1 min.commute)
    then show ?thesis using False i(1) d(1) len by (simp add: RamFs_read_def read_count_def Let_def)
  qed
qed

section \<open>Writing\<close>

lemma ino_modify_simps [simp]:
  "length (inodes (ino_modify k f fs)) = length (inodes fs)" "inode_count (ino_modify k f fs) = inode_count fs"
  by (simp_all add: ino_modify_def)

lemma ino_modify_nth: "i < length (inodes fs) \<Longrightarrow> ino (ino_modify k f fs) i = (if i = k then f (ino fs k) else ino fs i)"
  by (auto simp: ino_modify_def)

definition put_data :: "nat \<Rightarrow> bytes \<Rightarrow> Inode \<Rightarrow> Inode" where
  "put_data off data x = x\<lparr>ino_data := splice (ino_data x) off data,
     ino_data_len := (if off + length data > ino_data_len x then off + length data else ino_data_len x)\<rparr>"

lemma put_data_wf:
  assumes "inode_wf x" "off + length data \<le> MAX_FILE_SIZE"
  shows "inode_wf (put_data off data x)"
  using assms by (auto simp: inode_wf_def put_data_def nth_splice)

lemma nth_overwrite:
  assumes "i < max (length d) (off + length data)"
  shows "overwrite d off data ! i =
    (if off \<le> i \<and> i < off + length data then data ! (i - off) else if i < length d then d ! i else 0)"
proof -
  let ?z = "d @ replicate (off - length d) 0"
  have t: "length (take off ?z) = off" by simp
  consider "i < off" | "off \<le> i" "i < off + length data" | "off + length data \<le> i" by linarith
  then show ?thesis
  proof cases
    case 1
    then show ?thesis by (auto simp: overwrite_def nth_append)
  next
    case 2
    then show ?thesis by (simp only: overwrite_def nth_append t) auto
  next
    case 3
    then show ?thesis using assms by (simp only: overwrite_def nth_append t) auto
  qed
qed

lemma put_data_content:
  assumes "inode_wf x" "off + length data \<le> MAX_FILE_SIZE"
  shows "take (ino_data_len (put_data off data x)) (ino_data (put_data off data x)) =
    overwrite (take (ino_data_len x) (ino_data x)) off data" (is "?l = ?r")
proof (rule nth_equalityI)
  note w = assms(1) [unfolded inode_wf_def]
  show len: "length ?l = length ?r"
    using w assms(2) by (auto simp: put_data_def length_overwrite max_def)
  fix i
  assume "i < length ?l"
  then have i: "i < max (ino_data_len x) (off + length data)" "i < MAX_FILE_SIZE"
    using w assms(2) by (auto simp: put_data_def max_def split: if_splits)
  have "?l ! i = (if off \<le> i \<and> i < off + length data then data ! (i - off) else ino_data x ! i)"
    using i w assms(2) by (auto simp: put_data_def nth_splice)
  moreover have "?r ! i = (if off \<le> i \<and> i < off + length data then data ! (i - off) else ino_data x ! i)"
    using i w by (auto simp: nth_overwrite)
  ultimately show "?l ! i = ?r ! i" by simp
qed

lemma ram_write_file:
  assumes "ramfs_wf fs" "ram_content fs (components p) = Some (File_Node d)" "off + length data \<le> MAX_FILE_SIZE"
  shows "\<exists>fs'. RamFs_write fs p off data = Some (Ok (length data), fs') \<and> ramfs_wf fs' \<and> names_ok fs' = names_ok fs \<and>
    ram_content fs' = (ram_content fs)(components p \<mapsto> File_Node (overwrite d off data))"
proof -
  obtain i where i: "RamFs_resolve_path fs p = Ok i" "i \<in> used_inodes fs" "File_Node d = node_of (ino fs i)"
    "lookup fs (components p) = Some i" "inode_wf (ino fs i)" by (rule ram_content_Some [OF assms(1,2)])
  have d: "ino_type (ino fs i) = Node_File" "d = take (ino_data_len (ino fs i)) (ino_data (ino fs i))"
    using i(3) node_of_file [of "ino fs i" d] by auto
  let ?fs' = "ino_modify i (put_data off data) fs"
  note len = ramfs_wfD(1) [OF assms(1)]
  have n: "ino ?fs' k = (if k = i then put_data off data (ino fs i) else ino fs k)" if "k < MAX_INODES" for k
    using that ino_modify_nth [of k fs i] len by simp
  have same: "meta (ino ?fs' k) = meta (ino fs k) \<and> kids (ino ?fs' k) = kids (ino fs k)" if "k < MAX_INODES" for k
    using n [OF that] by (simp add: meta_def kids_def put_data_def Inode_name_str_def)
  have u: "used_inodes ?fs' = used_inodes fs" using n by (auto simp: used_inodes_def put_data_def split: if_splits)
  have wf: "inode_wf (ino ?fs' k)" if "k < MAX_INODES" for k
    using n [OF that] put_data_wf [OF i(5) assms(3)] ramfs_wfD(2) [OF assms(1) that] by simp
  note t = same_tree [OF assms(1) _ wf same u]
  have ok: "ramfs_wf ?fs'" "names_ok ?fs' = names_ok fs" and l: "lookup ?fs' cs = lookup fs cs" for cs using t len by simp_all
  have "node_of (ino ?fs' i) = File_Node (overwrite d off data)"
    using n [OF used_lt [OF i(2)]] d put_data_content [OF i(5) assms(3)] by (simp add: node_of_file) (simp add: put_data_def)
  moreover have "node_of (ino ?fs' k) = node_of (ino fs k)" if "lookup fs cs = Some k" "cs \<noteq> components p" for cs k
    using n [OF used_lt [OF lookup_used [OF assms(1) that(1)]]] lookup_inj [OF assms(1) that(1), of "components p"] that i(4)
    by auto
  ultimately have "ram_content ?fs' cs = ((ram_content fs)(components p \<mapsto> File_Node (overwrite d off data))) cs" for cs
    using i(4) by (cases "lookup fs cs") (auto simp: ram_content_def l)
  then have c: "ram_content ?fs' = (ram_content fs)(components p \<mapsto> File_Node (overwrite d off data))" by (rule ext)
  have "RamFs_write fs p off data = Some (Ok (length data), ?fs')"
    using i(1) d(1) assms(3) by (simp add: RamFs_write_def Let_def put_data_def [abs_def] MAX_FILE_SIZE_def)
  then show ?thesis using ok c by blast
qed

section \<open>Creating\<close>

definition new_inode :: "bytes \<Rightarrow> NodeType \<Rightarrow> nat \<Rightarrow> Inode" where
  "new_inode nm ty p = (Inode_set_name nm (Inode_empty\<lparr>ino_used := True, ino_type := ty\<rparr>))\<lparr>ino_parent := of_nat p\<rparr>"

definition add_child :: "nat \<Rightarrow> Inode \<Rightarrow> Inode" where
  "add_child n x = x\<lparr>ino_children := (ino_children x)[ino_child_count x := of_nat n], ino_child_count := ino_child_count x + 1\<rparr>"

lemma unat_index: "n < MAX_INODES \<Longrightarrow> unat (of_nat n :: u16) = n"
  by (simp add: MAX_INODES_def unat_of_nat take_bit_nat_eq_self)

text \<open>The name an inode keeps: 64 bytes of the given one, or the empty name when they are not valid UTF-8.\<close>

definition stored_name :: "bytes \<Rightarrow> bytes" where
  "stored_name nm = from_utf8_or [] (take MAX_NAME nm)"

lemma stored_name_short: "length nm \<le> MAX_NAME \<Longrightarrow> utf8_valid nm \<Longrightarrow> stored_name nm = nm"
  by (simp add: stored_name_def from_utf8_or_def)

lemma new_inode_facts:
  assumes "p < MAX_INODES"
  shows "inode_wf (new_inode nm ty p)" "ino_used (new_inode nm ty p)" "kids (new_inode nm ty p) = []"
    "unat (ino_parent (new_inode nm ty p)) = p" "Inode_name_str (new_inode nm ty p) = stored_name nm"
    "node_of (new_inode nm ty p) = new_node ty"
  using assms by (cases ty; simp add: new_inode_def inode_wf_def Inode_set_name_def Inode_empty_def Let_def kids_def unat_index
      Inode_name_str_def stored_name_def node_of_def min_def)+

lemma add_child_facts:
  assumes "inode_wf x" "ino_child_count x < MAX_CHILDREN" "n < MAX_INODES"
  shows "inode_wf (add_child n x)" "kids (add_child n x) = kids x @ [n]" "meta (add_child n x) = meta x"
    "node_of (add_child n x) = node_of x"
  using assms
  by (simp_all add: inode_wf_def add_child_def kids_def meta_def Inode_name_str_def node_of_def unat_index
      take_Suc_conv_app_nth split: NodeType.splits)

lemma alloc_inode_cases:
  assumes "RamFs_alloc_inode fs = (r, fs1)"
  obtains (full) e where "r = Err e" "fs1 = fs"
  | (fresh) n where "r = Ok n" "0 < n" "n < MAX_INODES" "\<not> ino_used (ino fs n)"
      "fs1 = fs\<lparr>inodes := (inodes fs)[n := Inode_empty\<lparr>ino_used := True\<rparr>], inode_count := inode_count fs + 1\<rparr>"
  using assms find_SomeD [of "\<lambda>i. \<not> ino_used (ino fs i)" "[1..<MAX_INODES]"]
  by (fastforce simp: RamFs_alloc_inode_def split: option.splits)

definition with_leaf :: "nat \<Rightarrow> Inode \<Rightarrow> nat \<Rightarrow> RamFs \<Rightarrow> RamFs" where
  "with_leaf n x p fs =
     fs\<lparr>inodes := (inodes fs)[n := x, p := add_child n (ino fs p)], inode_count := inode_count fs + 1\<rparr>"

lemma with_leaf_nth:
  assumes "n < length (inodes fs)" "p < length (inodes fs)" "p \<noteq> n" "i < length (inodes fs)"
  shows "ino (with_leaf n x p fs) i = (if i = n then x else if i = p then add_child n (ino fs p) else ino fs i)"
  using assms by (auto simp: with_leaf_def nth_list_update)

text \<open>A successful creation puts one fresh leaf into the array; a failing one changes nothing.\<close>

lemma create_cases:
  assumes ok: "ramfs_wf fs" and step: "RamFs_create fs path ty = (r, fs')"
  obtains (failed) e where "r = Err e" "fs' = fs"
  | (created) pp nm p n where "r = Ok ()" "components path = components pp @ [nm]" "lookup fs (components path) = None"
      "lookup fs (components pp) = Some p" "ino_type (ino fs p) = Node_Directory" "ino_child_count (ino fs p) < MAX_CHILDREN"
      "0 < n" "n < MAX_INODES" "\<not> ino_used (ino fs n)" "fs' = with_leaf n (new_inode nm ty p) p fs"
proof (cases "RamFs_resolve_path fs path")
  case (Inr k)
  then show ?thesis using step failed by (auto simp: RamFs_create_def is_ok_def)
next
  case (Inl e)
  then have none: "lookup fs (components path) = None" using resolve_path_cases [of fs path] by auto
  then have ne: "components path \<noteq> []" by auto
  obtain pp nm where sp: "RamFs_split_path path = (pp, nm)" by force
  note cs = split_path_components [OF ne sp]
  show ?thesis
  proof (cases "RamFs_resolve_path fs pp")
    case (Inl e')
    then show ?thesis using step failed \<open>RamFs_resolve_path fs path = Inl e\<close> sp by (auto simp: RamFs_create_def is_ok_def)
  next
    case (Inr p)
    then have p: "lookup fs (components pp) = Some p" by (simp add: resolve_path_lookup)
    note pu = lookup_used [OF ok p]
    obtain q fs1 where al: "RamFs_alloc_inode fs = (q, fs1)" by force
    note step' = step [unfolded RamFs_create_def, simplified \<open>RamFs_resolve_path fs path = Inl e\<close> sp al is_ok_def Let_def prod.case, simplified Inr, simplified]
    show ?thesis using al
    proof (cases rule: alloc_inode_cases)
      case (full e')
      then show ?thesis using step' failed by (auto split: if_splits)
    next
      case (fresh n)
      have "p \<noteq> n" using pu fresh(2,4) by (auto simp: used_inodes_def)
      then have "with_leaf n (new_inode nm ty p) p fs = ino_modify p (add_child n) (ino_modify n
          (\<lambda>ino. (Inode_set_name nm (ino\<lparr>ino_type := ty\<rparr>))\<lparr>ino_parent := of_nat p\<rparr>) fs1)"
        using fresh(3) ramfs_wfD(1) [OF ok] used_lt [OF pu]
        by (simp add: with_leaf_def ino_modify_def fresh(5) new_inode_def)
      then show ?thesis using step' failed fresh created [OF _ cs none p] by (auto simp: add_child_def [abs_def] split: if_splits)
    qed
  qed
qed

lemma create_leaf:
  assumes "ramfs_wf fs" "lookup fs cs = Some p" "ino_type (ino fs p) = Node_Directory"
    "ino_child_count (ino fs p) < MAX_CHILDREN" "0 < n" "n < MAX_INODES" "\<not> ino_used (ino fs n)"
  shows "leaf_added fs (with_leaf n (new_inode nm ty p) p fs) p n"
    "i \<in> used_inodes fs \<Longrightarrow> node_of (ino (with_leaf n (new_inode nm ty p) p fs) i) = node_of (ino fs i)"
    "node_of (ino (with_leaf n (new_inode nm ty p) p fs) n) = new_node ty"
    "Inode_name_str (ino (with_leaf n (new_inode nm ty p) p fs) n) = stored_name nm"
proof -
  let ?fs' = "with_leaf n (new_inode nm ty p) p fs"
  have pu: "p \<in> used_inodes fs" by (rule lookup_used [OF assms(1,2)])
  have nu: "n \<notin> used_inodes fs" using assms(5,7) by (simp add: used_inodes_def)
  then have pn: "p \<noteq> n" using pu by auto
  note len = ramfs_wfD(1) [OF assms(1)]
  note N = new_inode_facts [OF used_lt [OF pu], of nm ty]
  note C = add_child_facts [OF ramfs_wfD(2) [OF assms(1) used_lt [OF pu]] assms(4,6)]
  have nth: "ino ?fs' i = (if i = n then new_inode nm ty p else if i = p then add_child n (ino fs p) else ino fs i)"
    if "i < MAX_INODES" for i
    using that pn assms(6) used_lt [OF pu] len by (intro with_leaf_nth) auto
  have wf: "inode_wf (ino ?fs' i)" if "i < MAX_INODES" for i
    using nth [OF that] N(1) C(1) ramfs_wfD(2) [OF assms(1) that] by simp
  have same: "meta (ino ?fs' i) = meta (ino fs i) \<and>
      kids (ino ?fs' i) = (if i = p then kids (ino fs p) @ [n] else kids (ino fs i))" if "i < MAX_INODES" "i \<noteq> n" for i
    using nth [OF that(1)] that(2) C(2,3) by simp
  have "ino_used (ino ?fs' i) = (i = n \<or> ino_used (ino fs i))" if "i < MAX_INODES" for i
    using nth [OF that] N(2) by (auto simp: add_child_def)
  then have "used_inodes ?fs' = insert n (used_inodes fs)" using assms(6) by (auto simp: used_inodes_def)
  moreover have "length (inodes ?fs') = MAX_INODES" by (simp add: with_leaf_def len)
  ultimately show "leaf_added fs ?fs' p n"
    unfolding leaf_added_def using assms pu nu N(3,4) nth [OF assms(6)] wf same by simp
  show "node_of (ino ?fs' i) = node_of (ino fs i)" if "i \<in> used_inodes fs"
    using nth [OF used_lt [OF that]] nu that C(4) by auto
  show "node_of (ino ?fs' n) = new_node ty" "Inode_name_str (ino ?fs' n) = stored_name nm"
    using nth [OF assms(6)] N(5,6) by simp_all
qed

lemma components_valid: "utf8_valid p \<Longrightarrow> c \<in> set (components p) \<Longrightarrow> utf8_valid c"
  using utf8_valid_parts by (auto simp: components_def)

text \<open>
  A created node is found under the stored form of its name, unless a node of that name is in the directory;
  with a name that fits this is the path of the call.
\<close>

lemma ram_create_any:
  assumes wf: "ramfs_wf fs" and valid: "utf8_valid path" and step: "RamFs_create fs path ty = (Ok (), fs')"
  shows "ramfs_wf fs' \<and> ram_content fs (components path) = None \<and> inode_count fs' = inode_count fs + 1 \<and>
    (let nm = last (components path); q = butlast (components path) @ [stored_name nm]
     in ram_content fs' = (if ram_content fs q = None then (ram_content fs)(q \<mapsto> new_node ty) else ram_content fs) \<and>
       (length nm \<le> MAX_NAME \<longrightarrow> q = components path \<and> (names_ok fs \<longrightarrow> names_ok fs')))"
  using wf step
proof (cases rule: create_cases)
  case (created pp nm p n)
  note L = create_leaf [OF wf created(4-9), where nm = nm and ty = ty, folded created(10)]
  let ?q = "components pp @ [stored_name nm]"
  have "nm \<in> set (components path)" using created(2) by simp
  then have nm: "nm \<noteq> []" "utf8_valid nm" using components_part components_valid [OF valid] by blast+
  have "ram_content fs' ds = (if ram_content fs ?q = None then (ram_content fs)(?q \<mapsto> new_node ty) else ram_content fs) ds" for ds
    using leaf_added_lookup [OF L(1) created(4), of ds, unfolded L(4)] L(2,3) lookup_used [OF wf, of ds]
    by (cases "lookup fs ds") (auto simp: ram_content_def simp del: lookup_snoc)
  then have c: "ram_content fs' = (if ram_content fs ?q = None then (ram_content fs)(?q \<mapsto> new_node ty) else ram_content fs)" by (rule ext)
  have "names_ok fs'" if "length nm \<le> MAX_NAME" "names_ok fs"
    by (rule leaf_added_names [OF L(1) that(2), unfolded L(4) stored_name_short [OF that(1) nm(2)]])
      (use created(3,4) nm(1) in \<open>simp_all add: created(2)\<close>)
  then show ?thesis using created(2,3,10) c leaf_added_wf [OF L(1)] stored_name_short [OF _ nm(2)]
    by (simp add: ram_content_def with_leaf_def del: lookup_snoc)
qed simp

lemma ram_create_node:
  assumes ok: "ramfs_ok fs" and valid: "utf8_valid path" and short: "\<forall>c \<in> set (components path). length c \<le> MAX_NAME"
    and step: "RamFs_create fs path ty = (r, fs')"
  shows "ramfs_ok fs' \<and> (if r = Ok () then ram_content fs (components path) = None \<and>
      ram_content fs' = (ram_content fs)(components path \<mapsto> new_node ty) else fs' = fs)"
proof (cases "r = Ok ()")
  case True
  have wf: "ramfs_wf fs" "names_ok fs" using ok by (simp_all add: ramfs_ok_def)
  from create_cases [OF wf(1) step] True have "components path \<noteq> []" by fastforce
  then have "length (last (components path)) \<le> MAX_NAME" using short by simp
  with ram_create_any [OF wf(1) valid step [unfolded True]] wf(2) True show ?thesis
    by (simp add: ramfs_ok_def Let_def)
next
  case False
  have "fs' = fs" by (rule create_cases [OF _ step]) (use ok False in \<open>auto simp: ramfs_ok_def\<close>)
  then show ?thesis using ok False by simp
qed

section \<open>Removing\<close>

lemma shift_nth:
  assumes "m < length xs"
  shows "length (foldl (\<lambda>ch j. ch[j := ch ! (j + 1)]) xs [pos..<m]) = length xs \<and>
    (\<forall>i < length xs. foldl (\<lambda>ch j. ch[j := ch ! (j + 1)]) xs [pos..<m] ! i =
       (if pos \<le> i \<and> i < m then xs ! (i + 1) else xs ! i))"
  using assms by (induction m) (auto simp: nth_list_update less_Suc_eq)

lemma shift_take:
  assumes "pos < k" "k \<le> length xs"
  shows "take (k - 1) (foldl (\<lambda>ch j. ch[j := ch ! (j + 1)]) xs [pos..<k - 1]) =
    take pos (take k xs) @ drop (Suc pos) (take k xs)"
proof -
  have m: "k - 1 < length xs" using assms by simp
  show ?thesis
    by (rule nth_equalityI) (use shift_nth [OF m, of pos] assms in \<open>auto simp: nth_append\<close>)
qed

lemma position_remove1:
  assumes "position (\<lambda>c. c = n) xs = Some pos"
  shows "take pos xs @ drop (Suc pos) xs = remove1 n xs" "pos < length xs"
proof -
  have d: "pos < length xs" "xs ! pos = n" "\<forall>j < pos. xs ! j \<noteq> n" using position_SomeD [OF assms] by auto
  then have "n \<notin> set (take pos xs)" by (auto simp: in_set_conv_nth)
  then have "remove1 n (take pos xs @ n # drop (Suc pos) xs) = take pos xs @ drop (Suc pos) xs"
    by (simp add: remove1_append)
  then show "take pos xs @ drop (Suc pos) xs = remove1 n xs" using id_take_nth_drop [OF d(1)] d(2) by simp
  show "pos < length xs" by (rule d(1))
qed

lemma shift_children_facts:
  assumes "inode_wf x" "position (\<lambda>c. c = n) (kids x) = Some pos"
  shows "inode_wf (shift_children pos x)" "kids (shift_children pos x) = remove1 n (kids x)"
    "meta (shift_children pos x) = meta x" "node_of (shift_children pos x) = node_of x"
proof -
  have k: "ino_child_count x \<le> length (ino_children x)" using assms(1) by (simp add: inode_wf_def)
  have pos: "pos < ino_child_count x" using position_remove1(2) [OF assms(2)] k by (simp add: kids_def)
  have "kids (shift_children pos x) = map unat (take pos (take (ino_child_count x) (ino_children x)) @
      drop (Suc pos) (take (ino_child_count x) (ino_children x)))"
    unfolding kids_def shift_children_def using shift_take [OF pos k] by simp
  also have "\<dots> = take pos (kids x) @ drop (Suc pos) (kids x)" by (simp add: kids_def take_map drop_map)
  finally show "kids (shift_children pos x) = remove1 n (kids x)" using position_remove1(1) [OF assms(2)] by simp
  have "length (foldl (\<lambda>ch j. ch[j := ch ! (j + 1)]) (ino_children x) [pos..<ino_child_count x - 1]) = length (ino_children x)"
    using shift_nth [of "ino_child_count x - 1" "ino_children x" pos] pos k by simp
  then show "inode_wf (shift_children pos x)" using assms(1) by (auto simp: inode_wf_def shift_children_def)
  show "meta (shift_children pos x) = meta x" by (simp add: meta_def shift_children_def Inode_name_str_def)
  show "node_of (shift_children pos x) = node_of x" by (simp add: node_of_def shift_children_def split: NodeType.splits)
qed

definition without_leaf :: "nat \<Rightarrow> nat \<Rightarrow> nat \<Rightarrow> RamFs \<Rightarrow> RamFs" where
  "without_leaf n pos p fs =
     (let fs = ino_modify n (\<lambda>x. x\<lparr>ino_used := False\<rparr>) (ino_modify p (shift_children pos) fs)
      in fs\<lparr>inode_count := inode_count fs - 1\<rparr>)"

lemma without_leaf_nth:
  assumes "n < length (inodes fs)" "p < length (inodes fs)" "p \<noteq> n" "i < length (inodes fs)"
  shows "ino (without_leaf n pos p fs) i =
    (if i = n then (ino fs n)\<lparr>ino_used := False\<rparr> else if i = p then shift_children pos (ino fs p) else ino fs i)"
  using assms by (auto simp: without_leaf_def ino_modify_def nth_list_update Let_def)

text \<open>
  A path that consists of several slashes passes the test for the root; then the root, when it has no
  children, loses its flag, which nothing reads.
\<close>

definition root_unflagged :: "RamFs \<Rightarrow> RamFs" where
  "root_unflagged fs = (ino_modify 0 (\<lambda>x. x\<lparr>ino_used := False\<rparr>) fs)\<lparr>inode_count := inode_count fs - 1\<rparr>"

lemma remove_cases:
  assumes wf: "ramfs_wf fs" and step: "RamFs_remove fs path = (r, fs')"
  obtains (failed) e where "r = Err e" "fs' = fs"
  | (root) "r = Ok ()" "components path = []" "fs' = root_unflagged fs"
  | (removed) cs c p n pos where "r = Ok ()" "components path = cs @ [c]" "lookup fs cs = Some p"
      "lookup fs (cs @ [c]) = Some n" "kids (ino fs n) = []" "position (\<lambda>k. k = n) (kids (ino fs p)) = Some pos"
      "fs' = without_leaf n pos p fs"
proof (cases "(path = [SLASH] \<or> path = []) \<or> (\<exists>e. RamFs_resolve_path fs path = Err e)")
  case True
  then show ?thesis using step failed by (auto simp: RamFs_remove_def split: if_splits)
next
  case False
  then obtain n where n: "RamFs_resolve_path fs path = Ok n" "lookup fs (components path) = Some n"
    using resolve_path_cases [of fs path] by auto
  note nu = lookup_used [OF wf n(2)]
  show ?thesis
  proof (cases "ino_type (ino fs n) = Node_Directory \<and> ino_child_count (ino fs n) > 0")
    case True
    then show ?thesis using step failed False n(1) by (auto simp: RamFs_remove_def)
  next
    case leaf: False
    then have k: "kids (ino fs n) = []" using ramfs_wfD(6) [OF wf nu] by (auto simp: links_wf_def kids_def)
    show ?thesis
    proof (cases "components path" rule: rev_cases)
      case Nil
      then have "n = 0" "unat (ino_parent (ino fs 0)) = 0" using n(2) ramfs_wfD(4) [OF wf] by simp_all
      then have "r = Ok ()" "fs' = root_unflagged fs"
        using step False n(1) leaf k by (auto simp: RamFs_remove_def Let_def root_unflagged_def)
      then show ?thesis using root Nil by blast
    next
      case (snoc cs c)
      obtain p where p: "lookup fs cs = Some p" "child fs p c = Some n" using n(2) snoc by (auto simp: bind_eq_Some_conv)
      note C = child_Some [OF wf lookup_used [OF wf p(1)] p(2)]
      obtain pos where pos: "position (\<lambda>k. k = n) (kids (ino fs p)) = Some pos"
        using C(1) position_None_iff [of "\<lambda>k. k = n" "kids (ino fs p)"] by (cases "position (\<lambda>k. k = n) (kids (ino fs p))") auto
      have "r = Ok ()" "fs' = without_leaf n pos p fs"
        using step False n(1) leaf C(4) pos by (auto simp: RamFs_remove_def Let_def without_leaf_def)
      then show ?thesis using removed snoc n(2) p(1) pos k by metis
    qed
  qed
qed

lemma remove_leaf:
  assumes "ramfs_wf fs" "lookup fs cs = Some p" "lookup fs (cs @ [c]) = Some n" "kids (ino fs n) = []"
    "position (\<lambda>k. k = n) (kids (ino fs p)) = Some pos"
  shows "leaf_dropped fs (without_leaf n pos p fs) p n"
    "i \<in> used_inodes fs \<Longrightarrow> i \<noteq> n \<Longrightarrow> node_of (ino (without_leaf n pos p fs) i) = node_of (ino fs i)"
proof -
  let ?fs' = "without_leaf n pos p fs"
  have pu: "p \<in> used_inodes fs" and nu: "n \<in> used_inodes fs" using lookup_used [OF assms(1)] assms(2,3) by blast+
  have C: "n \<in> set (kids (ino fs p))" "0 < n" using child_Some(1,3) [OF assms(1) pu, of c n] assms(2,3) by simp_all
  have pn: "p \<noteq> n" using assms(4) C(1) by auto
  note len = ramfs_wfD(1) [OF assms(1)]
  note S = shift_children_facts [OF ramfs_wfD(2) [OF assms(1) used_lt [OF pu]] assms(5)]
  have nth: "ino ?fs' i = (if i = n then (ino fs n)\<lparr>ino_used := False\<rparr> else if i = p then shift_children pos (ino fs p) else ino fs i)"
    if "i < MAX_INODES" for i
    using that pn used_lt [OF pu] used_lt [OF nu] len by (intro without_leaf_nth) auto
  have "inode_wf ((ino fs n)\<lparr>ino_used := False\<rparr>)"
    using ramfs_wfD(2) [OF assms(1) used_lt [OF nu]] by (simp add: inode_wf_def)
  then have wf: "inode_wf (ino ?fs' i)" if "i < MAX_INODES" for i
    using nth [OF that] S(1) ramfs_wfD(2) [OF assms(1) that] by simp
  have same: "meta (ino ?fs' i) = meta (ino fs i) \<and>
      kids (ino ?fs' i) = (if i = p then remove1 n (kids (ino fs p)) else kids (ino fs i))" if "i < MAX_INODES" "i \<noteq> n" for i
    using nth [OF that(1)] that(2) S(2,3) by simp
  have "ino_used (ino ?fs' i) = (i \<noteq> n \<and> ino_used (ino fs i))" if "i < MAX_INODES" for i
    using nth [OF that] by (auto simp: shift_children_def)
  then have "used_inodes ?fs' = used_inodes fs - {n}" using C(2) by (auto simp: used_inodes_def)
  moreover have "length (inodes ?fs') = MAX_INODES" by (simp add: without_leaf_def Let_def len)
  ultimately show "leaf_dropped fs ?fs' p n"
    unfolding leaf_dropped_def using assms pu C(1) wf same by simp
  show "node_of (ino ?fs' i) = node_of (ino fs i)" if "i \<in> used_inodes fs" "i \<noteq> n"
    using nth [OF used_lt [OF that(1)]] that(2) S(4) by simp
qed

lemma root_unflagged_same:
  assumes "ramfs_wf fs"
  shows "ramfs_wf (root_unflagged fs)" "names_ok (root_unflagged fs) = names_ok fs" "ram_content (root_unflagged fs) = ram_content fs"
proof -
  let ?fs' = "root_unflagged fs"
  have nth: "ino ?fs' i = (if i = 0 then (ino fs 0)\<lparr>ino_used := False\<rparr> else ino fs i)" if "i < MAX_INODES" for i
    using that ramfs_wfD(1) [OF assms] by (auto simp: root_unflagged_def ino_modify_def)
  have wf: "inode_wf (ino ?fs' i)" and same: "meta (ino ?fs' i) = meta (ino fs i) \<and> kids (ino ?fs' i) = kids (ino fs i)"
    if "i < MAX_INODES" for i
    using nth [OF that] ramfs_wfD(2) [OF assms that] by (auto simp: inode_wf_def meta_def kids_def Inode_name_str_def)
  have u: "used_inodes ?fs' = used_inodes fs" using nth by (auto simp: used_inodes_def split: if_splits)
  have len: "length (inodes ?fs') = MAX_INODES" using ramfs_wfD(1) [OF assms] by (simp add: root_unflagged_def)
  note t = same_tree [OF assms len wf same u]
  show "ramfs_wf ?fs'" "names_ok ?fs' = names_ok fs" using t by simp_all
  have "node_of (ino ?fs' i) = node_of (ino fs i)" if "lookup fs cs = Some i" for cs i
    using nth [OF used_lt [OF lookup_used [OF assms that]]] by (auto simp: node_of_def split: NodeType.split)
  then have "ram_content ?fs' cs = ram_content fs cs" for cs
    using t(3) [of cs] by (cases "lookup fs cs") (simp_all add: ram_content_def)
  then show "ram_content ?fs' = ram_content fs" by (rule ext)
qed

text \<open>
  A removed node can uncover an entry of the same name behind it; with different names in every directory
  exactly the path of the call goes.
\<close>

lemma ram_remove_any:
  assumes wf: "ramfs_wf fs" and step: "RamFs_remove fs path = (Ok (), fs')"
  shows "ramfs_wf fs' \<and> (names_ok fs \<longrightarrow> names_ok fs') \<and> inode_count fs' = inode_count fs - 1 \<and>
    (if components path = [] then ram_content fs' = ram_content fs
     else ram_content fs (components path) \<noteq> None \<and>
       (\<forall>q. (\<nexists>qs. q = components path @ qs) \<longrightarrow> ram_content fs' q = ram_content fs q) \<and>
       (names_ok fs \<longrightarrow> ram_content fs' = (ram_content fs)(components path := None)))"
  using wf step
proof (cases rule: remove_cases)
  case root
  then show ?thesis using root_unflagged_same [OF wf] by (simp add: root_unflagged_def)
next
  case (removed cs c p n pos)
  note L = remove_leaf [OF wf removed(3-6), folded removed(7)]
  note l = leaf_dropped_lookup [OF L(1) removed(3,4)]
  have nd: "node_of (ino fs' i) = node_of (ino fs i)" if "lookup fs q = Some i" "q \<noteq> cs @ [c]" for q i
    using L(2) [OF lookup_used [OF wf that(1)]] lookup_inj [OF wf that(1), of "cs @ [c]"] that removed(4) by metis
  have off: "ram_content fs' q = ram_content fs q" if "\<nexists>qs. q = (cs @ [c]) @ qs" for q
    using l(1) [OF that] nd [of q] that by (cases "lookup fs q") (auto simp: ram_content_def simp del: lookup_snoc)
  have "ram_content fs' q = ((ram_content fs)(cs @ [c] := None)) q" if "names_ok fs" for q
    using l(2) [OF that, of q] nd [of q] by (cases "lookup fs q") (auto simp: ram_content_def simp del: lookup_snoc)
  then have "ram_content fs' = (ram_content fs)(cs @ [c] := None)" if "names_ok fs" using that by (intro ext)
  moreover have "ram_content fs (cs @ [c]) \<noteq> None" using removed(4) by (simp add: ram_content_def del: lookup_snoc)
  ultimately show ?thesis
    using removed(2,7) leaf_dropped_wf [OF L(1)] leaf_dropped_names [OF L(1)] off by (simp add: without_leaf_def Let_def)
qed simp

lemma ram_remove_node:
  assumes ok: "ramfs_ok fs" and ne: "components path \<noteq> []" and step: "RamFs_remove fs path = (r, fs')"
  shows "ramfs_ok fs' \<and> (if r = Ok () then ram_content fs (components path) \<noteq> None \<and>
      ram_content fs' = (ram_content fs)(components path := None) else fs' = fs)"
proof (cases "r = Ok ()")
  case True
  then show ?thesis using ram_remove_any [of fs path fs'] ok ne step by (simp add: ramfs_ok_def)
next
  case False
  have "fs' = fs" by (rule remove_cases [OF _ step]) (use ok False in \<open>auto simp: ramfs_ok_def\<close>)
  then show ?thesis using ok False by simp
qed

section \<open>The contract\<close>

interpretation ram: writable_fs RamFs_ops ramfs_ok "\<lambda>_. True" ram_content "\<lambda>c. length c \<le> MAX_NAME" MAX_FILE_SIZE
proof unfold_locales
  show "\<exists>i. fs_stat RamFs_ops s p = Ok i \<and> ni_node_type i = node_kind n \<and> (\<forall>d. n = File_Node d \<longrightarrow> ni_size i = length d)"
    if "ramfs_ok s" "ram_content s (components p) = Some n" for s p n
    using ram_stat_node [of s p n] that by (simp add: RamFs_ops_def ramfs_ok_def)
  show "fs_read RamFs_ops s p off buf =
      (Ok (read_count d off (length buf)), splice buf 0 (slice off (read_count d off (length buf)) d))"
    if "ramfs_ok s" "ram_content s (components p) = Some (File_Node d)" for s p d off buf
    using ram_read_file [of s p d] that by (simp add: RamFs_ops_def ramfs_ok_def)
  show "\<exists>s'. fs_write RamFs_ops s p off data = Some (Ok (length data), s') \<and> ramfs_ok s' \<and>
      ram_content s' = (ram_content s)(components p \<mapsto> File_Node (overwrite d off data))"
    if "ramfs_ok s" "ram_content s (components p) = Some (File_Node d)" "off + length data \<le> MAX_FILE_SIZE" for s p d off data
    using ram_write_file [of s p d off data] that by (auto simp: RamFs_ops_def ramfs_ok_def)
  show "ramfs_ok s' \<and> (if r = Ok () then ram_content s (components p) = None \<and>
        ram_content s' = (ram_content s)(components p \<mapsto> new_node ty) else ram_content s' = ram_content s)"
    if "ramfs_ok s" "utf8_valid p" "\<forall>c \<in> set (components p). length c \<le> MAX_NAME" "fs_create RamFs_ops s p ty = (r, s')"
    for s p ty r s'
    using ram_create_node [OF that(1-3), of ty r s'] that(4) by (auto simp: RamFs_ops_def)
  show "ramfs_ok s' \<and> (if r = Ok () then ram_content s (components p) \<noteq> None \<and>
        ram_content s' = (ram_content s)(components p := None) else ram_content s' = ram_content s)"
    if "ramfs_ok s" "components p \<noteq> []" "fs_remove RamFs_ops s p = (r, s')" for s p r s'
    using ram_remove_node [OF that(1,2), of r s'] that(3) by (auto simp: RamFs_ops_def)
qed

section \<open>Reachable states\<close>

lemma ino_new: "i < MAX_INODES \<Longrightarrow> ino RamFs_new i = (if i = 0 then
    Inode_empty\<lparr>ino_used := True, ino_type := Node_Directory, ino_name := splice (replicate MAX_NAME 0) 0 [SLASH], ino_name_len := 1\<rparr>
    else Inode_empty)"
  by (auto simp: RamFs_new_def root_setup_def ino_modify_def Inode_set_name_def Inode_empty_def MAX_NAME_def Let_def)

lemma ramfs_ok_new: "ramfs_ok RamFs_new"
proof -
  have z: "0 < MAX_INODES" by (simp add: MAX_INODES_def)
  have len: "length (inodes RamFs_new) = MAX_INODES" by (simp add: RamFs_new_def root_setup_def)
  have u: "used_inodes RamFs_new = {0}"
    using z by (auto simp: used_inodes_def ino_new Inode_empty_def split: if_splits)
  have "inode_wf (ino RamFs_new i)" if "i < MAX_INODES" for i
    using that by (simp add: ino_new inode_wf_def Inode_empty_def MAX_NAME_def)
  moreover have "ino_type (ino RamFs_new 0) = Node_Directory" "ino_parent (ino RamFs_new 0) = 0" "kids (ino RamFs_new 0) = []"
    using z by (simp_all add: ino_new kids_def Inode_empty_def)
  ultimately show ?thesis
    unfolding ramfs_ok_def ramfs_wf_def names_ok_def u using len by (simp add: links_wf_def kid_names_def)
qed

text \<open>
  A file system after any sequence of calls with valid strings as paths. The flag tells whether the names of
  all nodes created so far fit the 64 bytes of an inode's name field.
\<close>

inductive ram_reach :: "bool \<Rightarrow> RamFs \<Rightarrow> bool" where
  ram_new: "ram_reach True RamFs_new"
| ram_create: "ram_reach fit fs \<Longrightarrow> utf8_valid path \<Longrightarrow> RamFs_create fs path ty = (r, fs') \<Longrightarrow>
    ram_reach (fit \<and> (r = Ok () \<longrightarrow> length (last (components path)) \<le> MAX_NAME)) fs'"
| ram_write: "ram_reach fit fs \<Longrightarrow> RamFs_write fs path off data = Some (r, fs') \<Longrightarrow> ram_reach fit fs'"
| ram_remove: "ram_reach fit fs \<Longrightarrow> RamFs_remove fs path = (r, fs') \<Longrightarrow> ram_reach fit fs'"

lemma ram_write_cases:
  assumes wf: "ramfs_wf fs"
  shows "case RamFs_write fs path off data of
      None \<Rightarrow> 2 ^ 64 \<le> off + length data
    | Some (Inl e, fs') \<Rightarrow> fs' = fs
    | Some (Inr n, fs') \<Rightarrow> ramfs_wf fs' \<and> names_ok fs' = names_ok fs \<and> n = length data \<and>
        (\<exists>d. ram_content fs (components path) = Some (File_Node d) \<and>
        ram_content fs' = (ram_content fs)(components path \<mapsto> File_Node (overwrite d off data)))"
proof (cases "\<exists>d. ram_content fs (components path) = Some (File_Node d) \<and> off + length data \<le> MAX_FILE_SIZE")
  case True
  then show ?thesis using ram_write_file [OF wf, of path _ off data] by fastforce
next
  case False
  have c: "ram_content fs (components path) = Some (node_of (ino fs i))" if "RamFs_resolve_path fs path = Inr i" for i
    using that by (simp add: ram_content_def resolve_path_lookup)
  have w: "off + length data = end'" if "end' = (off + length data) mod 2 ^ 64" "\<not> end' < off" "end' - off = length data" for end'
    using that by linarith
  have o: "2 ^ 64 \<le> off + length data" if "(off + length data) mod 2 ^ 64 \<noteq> off + length data"
    using that by (metis mod_less not_le)
  show ?thesis using False c
    by (auto simp: RamFs_write_def Let_def node_of_file simp del: power_numeral split: sum.splits intro!: o dest: w [OF refl])
qed

text \<open>A call that reports an error changes nothing.\<close>

lemma ram_errors:
  assumes "ramfs_wf fs"
  shows "RamFs_create fs path ty = (Err e, fs') \<Longrightarrow> fs' = fs" "RamFs_remove fs path = (Err e, fs') \<Longrightarrow> fs' = fs"
  by (erule create_cases [OF assms]; simp) (erule remove_cases [OF assms]; simp)

lemma ram_reach_wf: "ram_reach fit fs \<Longrightarrow> ramfs_wf fs \<and> (fit \<longrightarrow> names_ok fs)"
proof (induction rule: ram_reach.induct)
  case ram_new
  show ?case using ramfs_ok_new by (simp add: ramfs_ok_def)
next
  case (ram_create fit fs path ty r fs')
  then show ?case using ram_create_any [of fs path ty fs'] ram_errors(1) [of fs path ty _ fs'] by (cases r) (auto simp: Let_def)
next
  case (ram_write fit fs path off data r fs')
  then show ?case using ram_write_cases [where fs = fs and path = path and off = off and data = data] by (cases r) auto
next
  case (ram_remove fit fs path r fs')
  then show ?case using ram_remove_any [of fs path fs'] ram_errors(2) [of fs path _ fs'] by (cases r) auto
qed

lemma ram_reach_ok: "ram_reach True fs \<Longrightarrow> ramfs_ok fs"
  using ram_reach_wf [of True fs] by (simp add: ramfs_ok_def)

section \<open>Names that do not fit\<close>

lemma name_str_short: "inode_wf x \<Longrightarrow> length (Inode_name_str x) \<le> MAX_NAME"
  by (simp add: Inode_name_str_def from_utf8_or_def inode_wf_def)

lemma lookup_long:
  assumes "\<And>i. i < MAX_INODES \<Longrightarrow> inode_wf (ino fs i)" "c \<in> set cs" "MAX_NAME < length c"
  shows "lookup fs cs = None"
  using assms(2)
proof (induction cs rule: rev_induct)
  case (snoc d cs)
  have "child fs i c = None" for i
    using find_child_Some(2,4) [of fs "ino fs i" c] name_str_short assms(1,3)
    by (cases "child fs i c") (fastforce simp: child_def split: if_splits)+
  then show ?case using snoc by (cases "lookup fs cs") auto
qed simp

section \<open>Properties\<close>

text \<open>A file created in an empty file system, for the witnesses.\<close>

lemma lookup_new: "cs \<noteq> [] \<Longrightarrow> lookup RamFs_new cs = None"
proof -
  have "child RamFs_new 0 c = None" for c
    by (simp add: child_def find_child_def kids_def ino_new MAX_INODES_def Inode_empty_def)
  then show "cs \<noteq> [] \<Longrightarrow> lookup RamFs_new cs = None"
    by (cases cs) (simp_all add: lookup_def foldl_bind_None)
qed

lemma create_in_new:
  assumes "c \<noteq> []" "SLASH \<notin> set c"
  shows "fst (RamFs_create RamFs_new (SLASH # c) ty) = Ok ()"
proof -
  have comps: "components (SLASH # c) = [c]" using assms by (simp add: components_fresh)
  obtain e where e: "RamFs_resolve_path RamFs_new (SLASH # c) = Err e"
    using resolve_path_cases [of RamFs_new "SLASH # c"] lookup_new [of "[c]"] comps by auto
  obtain pp nm where sp: "RamFs_split_path (SLASH # c) = (pp, nm)" by force
  have "components pp = []" using split_path_components [OF _ sp] comps by auto
  then have r: "RamFs_resolve_path RamFs_new pp = Ok 0" by (simp add: resolve_path_lookup)
  have f: "List.find (\<lambda>i. \<not> ino_used (ino RamFs_new i)) [1..<MAX_INODES] = Some 1"
    by (subst upt_conv_Cons) (simp_all add: ino_new MAX_INODES_def Inode_empty_def)
  show ?thesis
    using e sp r f by (simp add: RamFs_create_def RamFs_alloc_inode_def is_ok_def Let_def ino_new MAX_INODES_def
        MAX_CHILDREN_def Inode_empty_def)
qed

text \<open>
  C12. The in-memory file system implements a file tree, after every sequence of calls and for every path.
  Creating a node succeeds only where none is, and then the tree gains exactly that node when its name fits the
  64 bytes of the name field; a longer name is cut, and the node appears under the cut name, or, when that
  name is taken, nowhere. Removing a node takes away exactly the named node as long as all names created so
  far fit, and otherwise changes at most paths that begin with the named one, where an entry with the same cut
  name can appear; a path of several slashes, which names the root, changes nothing in the tree. Writing
  changes exactly the bytes of the named file. Successful creation and removal count the inodes up and down,
  and an operation that reports an error leaves the file system as it was. The kernel stops only on a write
  whose offset and length overflow an address.
\<close>

theorem ramfs_refines_file_tree:
  assumes "ram_reach fit fs" "utf8_valid path"
  shows "(case RamFs_create fs path ty of
       (Inl _, fs') \<Rightarrow> fs' = fs
     | (Inr _, fs') \<Rightarrow> ram_content fs (components path) = None \<and> inode_count fs' = inode_count fs + 1 \<and>
         (let nm = last (components path); q = butlast (components path) @ [stored_name nm]
          in if length nm \<le> MAX_NAME then ram_content fs' = (ram_content fs)(components path \<mapsto> new_node ty)
             else ram_content fs' = (if ram_content fs q = None then (ram_content fs)(q \<mapsto> new_node ty) else ram_content fs))) \<and>
    (case RamFs_remove fs path of
       (Inl _, fs') \<Rightarrow> fs' = fs
     | (Inr _, fs') \<Rightarrow> inode_count fs' = inode_count fs - 1 \<and>
         (if components path = [] then ram_content fs' = ram_content fs
          else ram_content fs (components path) \<noteq> None \<and>
            (\<forall>q. (\<nexists>qs. q = components path @ qs) \<longrightarrow> ram_content fs' q = ram_content fs q) \<and>
            (fit \<longrightarrow> ram_content fs' = (ram_content fs)(components path := None)))) \<and>
    (case RamFs_write fs path off data of
       None \<Rightarrow> 2 ^ 64 \<le> off + length data
     | Some (Inl _, fs') \<Rightarrow> fs' = fs
     | Some (Inr n, fs') \<Rightarrow> n = length data \<and> (\<exists>d. ram_content fs (components path) = Some (File_Node d) \<and>
         ram_content fs' = (ram_content fs)(components path \<mapsto> File_Node (overwrite d off data))))"
    (is "?C \<and> ?R \<and> ?W")
proof (intro conjI)
  note wf = conjunct1 [OF ram_reach_wf [OF assms(1)]] and names = conjunct2 [OF ram_reach_wf [OF assms(1)]]
  obtain r fs' where c: "RamFs_create fs path ty = (r, fs')" by fastforce
  then show ?C using ram_create_any [OF wf assms(2), of ty fs'] ram_errors(1) [OF wf, of path ty _ fs']
    by (cases r) (simp_all add: Let_def)
  obtain r2 fs2 where d: "RamFs_remove fs path = (r2, fs2)" by fastforce
  then show ?R using ram_remove_any [OF wf, of path fs2] ram_errors(2) [OF wf, of path _ fs2] names
    by (cases r2) simp_all
  show ?W using ram_write_cases [OF wf, of off data path] by (auto split: option.splits sum.splits)
qed

lemma path_a: "utf8_valid (ascii ''/a'')" "ascii ''/a'' = SLASH # ascii ''a''" "components (ascii ''/a'') = [ascii ''a'']"
  "length (ascii ''a'') \<le> MAX_NAME"
  by (simp_all add: ascii_def SLASH_def components_def MAX_NAME_def utf8_valid_ascii_Cons)

theorem ramfs_refines_file_tree_witness:
  "let fs' = snd (RamFs_create RamFs_new (ascii ''/a'') Node_File)
   in ram_content fs' = (ram_content RamFs_new)([ascii ''a''] \<mapsto> File_Node []) \<and> inode_count fs' = inode_count RamFs_new + 1"
proof -
  obtain u fs' where c: "RamFs_create RamFs_new (ascii ''/a'') Node_File = (Ok u, fs')"
    using create_in_new [of "ascii ''a''" Node_File] unfolding path_a(2)
    by (cases "RamFs_create RamFs_new (SLASH # ascii ''a'') Node_File") (auto simp: ascii_def SLASH_def)
  show ?thesis
    using ramfs_refines_file_tree [OF ram_new path_a(1), of Node_File] c path_a
    by (simp add: Let_def)
qed

text \<open>
  C13. Files of the name space keep what is written to them. For any mount table whose path leads to an
  in-memory file system in a reachable state whose names fit, writing within the file-size limit succeeds, a read of
  the same range through the mount table returns the bytes written, and no path that denotes another
  file, on this or on another mounted file system, sees a change.
\<close>

theorem vfs_ramfs_read_after_write:
  assumes "routed (ram_reach True) (\<lambda>_. True) h m path"
    and "vfs_content ram_content h m path = Some (File_Node d)" "off + length data \<le> MAX_FILE_SIZE"
  shows "\<exists>h'. VfsManager_write RamFs_ops h m path off data = Some (Ok (length data), h') \<and>
    (\<forall>buf. length buf = length data \<longrightarrow> VfsManager_read RamFs_ops h' m path off buf = (Ok (length data), data)) \<and>
    (\<forall>q. vfs_place m q \<noteq> vfs_place m path \<longrightarrow> vfs_content ram_content h' m q = vfs_content ram_content h m q)"
proof -
  have "routed ramfs_ok (\<lambda>_. True) h m path"
    using assms(1) ram_reach_ok by (auto simp: routed_def split: option.splits)
  from ram.vfs_read_after_write [OF this assms(2,3)] show ?thesis .
qed

definition one_mount :: VfsManager where
  "one_mount = snd (VfsManager_mount [SLASH] 0 VfsManager_new)"

lemma one_mount_resolve:
  "\<exists>mp. VfsManager_resolve one_mount (ascii ''/a'') = Some (mp, ascii ''a'') \<and> mp_fs mp = 0"
  by (simp add: one_mount_def VfsManager_mount_def VfsManager_new_def MAX_MOUNTS_def MAX_PATH_def VfsManager_resolve_def
      resolve_round_def starts_with_def MountPoint_path_str_def from_utf8_or_def utf8_valid_ascii_Cons path_a(2) SLASH_def
      ascii_def Let_def)

theorem vfs_ramfs_read_after_write_witness:
  "let fs = snd (RamFs_create RamFs_new (ascii ''/a'') Node_File); h = (\<lambda>_. fs)
   in \<exists>h'. VfsManager_write RamFs_ops h one_mount (ascii ''/a'') 2 (ascii ''hi'') = Some (Ok 2, h') \<and>
        VfsManager_read RamFs_ops h' one_mount (ascii ''/a'') 2 [0, 0] = (Ok 2, ascii ''hi'')"
proof -
  let ?fs = "snd (RamFs_create RamFs_new (ascii ''/a'') Node_File)"
  obtain u where c: "RamFs_create RamFs_new (ascii ''/a'') Node_File = (Ok u, ?fs)"
    using create_in_new [of "ascii ''a''" Node_File] unfolding path_a(2)
    by (cases "RamFs_create RamFs_new (SLASH # ascii ''a'') Node_File") (auto simp: ascii_def SLASH_def)
  have reach: "ram_reach True ?fs" using ram_create [OF ram_new path_a(1) c] path_a(3,4) by simp
  have "ram_content ?fs [ascii ''a''] = Some (File_Node [])"
    using ram_create_node [OF ramfs_ok_new, of "ascii ''/a''" Node_File "Ok u" ?fs] path_a c by simp
  moreover obtain mp where mp: "VfsManager_resolve one_mount (ascii ''/a'') = Some (mp, ascii ''a'')"
    using one_mount_resolve by blast
  moreover have "components (ascii ''a'') = [ascii ''a'']" by (simp add: components_def ascii_def SLASH_def)
  ultimately have "vfs_content ram_content (\<lambda>_. ?fs) one_mount (ascii ''/a'') = Some (File_Node [])"
    by (simp add: vfs_content_def vfs_place_def)
  moreover have "routed (ram_reach True) (\<lambda>_. True) (\<lambda>_. ?fs) one_mount (ascii ''/a'')"
    using mp reach path_a(1) by (simp add: routed_def)
  ultimately obtain h' where "VfsManager_write RamFs_ops (\<lambda>_. ?fs) one_mount (ascii ''/a'') 2 (ascii ''hi'') = Some (Ok 2, h')"
    "\<forall>buf. length buf = 2 \<longrightarrow> VfsManager_read RamFs_ops h' one_mount (ascii ''/a'') 2 buf = (Ok 2, ascii ''hi'')"
    using vfs_ramfs_read_after_write [of "\<lambda>_. ?fs" one_mount "ascii ''/a''" "[]" 2 "ascii ''hi''"]
    by (auto simp: MAX_FILE_SIZE_def ascii_def)
  then show ?thesis by (auto simp: Let_def)
qed

text \<open>
  A name longer than the 64 bytes of an inode's name field is accepted and lost: the call that
  creates such a node reports success and takes an inode, but the path it was created under does not
  resolve afterwards, so the node cannot be read, written or removed and the same call succeeds again.
\<close>

theorem ramfs_long_name_is_lost:
  assumes "ramfs_wf fs" "utf8_valid path" "c \<in> set (components path)" "MAX_NAME < length c" "RamFs_create fs path ty = (Ok (), fs')"
  shows "inode_count fs' = inode_count fs + 1 \<and> (\<exists>e. RamFs_stat fs' path = Err e) \<and> (\<exists>e. RamFs_remove fs' path = (Err e, fs'))"
proof -
  note R = ram_create_any [OF assms(1,2,5)]
  have "lookup fs' (components path) = None"
    by (rule lookup_long [OF ramfs_wfD(2) assms(3,4)]) (use R in auto)
  then obtain e where "RamFs_resolve_path fs' path = Err e" using resolve_path_cases [of fs' path] by auto
  then show ?thesis using R by (auto simp: RamFs_stat_def RamFs_remove_def)
qed

theorem ramfs_long_name_is_lost_witness:
  "let path = SLASH # replicate 65 97; fs' = snd (RamFs_create RamFs_new path Node_File)
   in fst (RamFs_create RamFs_new path Node_File) = Ok () \<and> (\<exists>e. RamFs_stat fs' path = Err e)"
proof -
  let ?path = "SLASH # replicate 65 97"
  let ?fs' = "snd (RamFs_create RamFs_new ?path Node_File)"
  have ok: "fst (RamFs_create RamFs_new ?path Node_File) = Ok ()" by (rule create_in_new) (simp_all add: SLASH_def)
  have valid: "utf8_valid ?path" by (rule ascii_utf8_valid) (simp add: SLASH_def)
  have "replicate 65 97 \<in> set (components ?path)"
    unfolding components_Cons_slash using components_fresh [of "replicate 65 97"] by (simp add: SLASH_def)
  then show ?thesis
    using ramfs_long_name_is_lost [of RamFs_new ?path "replicate 65 97" Node_File ?fs'] ramfs_ok_new ok valid
    by (simp add: Let_def MAX_NAME_def prod_eq_iff ramfs_ok_def)
qed

text \<open>
  Two slashes name the root but are not refused: removing that path from an empty file system succeeds, every
  time, and takes the count of inodes to zero and then below it.
\<close>

lemma remove_root_alias:
  assumes "ino_child_count (ino fs 0) = 0" "ino_parent (ino fs 0) = 0"
  shows "RamFs_remove fs [SLASH, SLASH] = (Ok (), root_unflagged fs)"
proof -
  have "RamFs_resolve_path fs [SLASH, SLASH] = Ok 0" by (simp add: resolve_path_lookup components_def)
  then show ?thesis using assms by (simp add: RamFs_remove_def kids_def root_unflagged_def Let_def)
qed

theorem ramfs_root_alias_is_removed:
  "\<exists>fs fs'. RamFs_remove RamFs_new [SLASH, SLASH] = (Ok (), fs) \<and> inode_count fs = 0 \<and>
     RamFs_remove fs [SLASH, SLASH] = (Ok (), fs') \<and> inode_count fs' = - 1"
proof -
  have r: "ino_child_count (ino RamFs_new 0) = 0" "ino_parent (ino RamFs_new 0) = 0" "inode_count RamFs_new = 1"
    "0 < length (inodes RamFs_new)"
    using ramfs_wfD(1) [of RamFs_new] ramfs_ok_new
    by (simp_all add: ino_new MAX_INODES_def Inode_empty_def ramfs_ok_def) (simp_all add: RamFs_new_def root_setup_def)
  let ?fs = "root_unflagged RamFs_new"
  have "ino_child_count (ino ?fs 0) = 0" "ino_parent (ino ?fs 0) = 0" "inode_count ?fs = 0" "inode_count (root_unflagged ?fs) = - 1"
    using r unfolding root_unflagged_def by (simp_all add: ino_modify_nth)
  then show ?thesis using remove_root_alias [OF r(1,2)] remove_root_alias [of ?fs] by blast
qed

end
