(* ===== verification/Block.thy ===== *)
theory Block
  imports Byte_Strings
begin

text \<open>
  The device-independent block layer of \<^verbatim>\<open>src/kernel/src/block.rs\<close>: the fixed registry of block
  devices and the checked dispatch of transfers to drivers. A driver is a trait object; here it is a
  record of its constants and of its functions over the state of the storage hardware, which stays a
  type parameter. Reading a device observes that state, writing and flushing replace it.
\<close>

section \<open>Types\<close>

definition MAX_BLOCK_DEVICES :: nat where "MAX_BLOCK_DEVICES = 16"
definition MAX_BLOCK_DEVICE_NAME :: nat where "MAX_BLOCK_DEVICE_NAME = 24"
definition MIN_BLOCK_SIZE :: u32 where "MIN_BLOCK_SIZE = 512"
definition MAX_BLOCK_SIZE :: u32 where "MAX_BLOCK_SIZE = 64 * 1024"

type_synonym BlockDeviceId = u16

datatype BlockError =
    Block_RegistryFull | Block_DuplicateName | Block_InvalidDevice | Block_InvalidGeometry | Block_InvalidBuffer
  | Block_OutOfRange | Block_ReadOnly | Block_Busy | Block_Unsupported | Block_Io

record BlockDeviceInfo =
  bi_id :: BlockDeviceId
  bi_name :: bytes
  bi_name_len :: nat
  bi_block_size :: u32
  bi_block_count :: u64
  bi_read_only :: bool

record 'd BlockDevice =
  dev_name :: bytes
  dev_block_size :: u32
  dev_block_count :: u64
  dev_read_only :: bool
  dev_read_blocks :: "'d \<Rightarrow> u64 \<Rightarrow> bytes \<Rightarrow> (unit, BlockError) result \<times> bytes"
  dev_write_blocks :: "'d \<Rightarrow> u64 \<Rightarrow> bytes \<Rightarrow> (unit, BlockError) result \<times> 'd"
  dev_flush :: "'d \<Rightarrow> (unit, BlockError) result \<times> 'd"

text \<open>The default method bodies of the trait.\<close>

definition default_read_only :: bool where "default_read_only = False"

definition default_write_blocks :: "'d \<Rightarrow> u64 \<Rightarrow> bytes \<Rightarrow> (unit, BlockError) result \<times> 'd" where
  "default_write_blocks d lba data = (Err Block_ReadOnly, d)"

definition default_flush :: "'d \<Rightarrow> (unit, BlockError) result \<times> 'd" where
  "default_flush d = (Ok (), d)"

definition BlockDeviceInfo_empty :: BlockDeviceInfo where
  "BlockDeviceInfo_empty = \<lparr>bi_id = 0, bi_name = replicate MAX_BLOCK_DEVICE_NAME 0, bi_name_len = 0, bi_block_size = 0,
     bi_block_count = 0, bi_read_only = False\<rparr>"

definition BlockDeviceInfo_from_device :: "BlockDeviceId \<Rightarrow> 'd BlockDevice \<Rightarrow> BlockDeviceInfo" where
  "BlockDeviceInfo_from_device i device =
     (let info = BlockDeviceInfo_empty\<lparr>bi_id := i\<rparr>;
          name = dev_name device;
          info = info\<lparr>bi_name_len := min (length name) MAX_BLOCK_DEVICE_NAME\<rparr>;
          info = info\<lparr>bi_name := splice (bi_name info) 0 (take (bi_name_len info) name)\<rparr>
      in info\<lparr>bi_block_size := dev_block_size device, bi_block_count := dev_block_count device,
              bi_read_only := dev_read_only device\<rparr>)"

definition BlockDeviceInfo_name :: "BlockDeviceInfo \<Rightarrow> bytes" where
  "BlockDeviceInfo_name info = from_utf8_or (ascii ''invalid'') (take (bi_name_len info) (bi_name info))"

definition BlockDeviceInfo_capacity_bytes :: "BlockDeviceInfo \<Rightarrow> u64 option" where
  "BlockDeviceInfo_capacity_bytes info = checked_mul (bi_block_count info) (ucast (bi_block_size info))"

section \<open>Validated transfers\<close>

definition validate_transfer :: "BlockDeviceInfo \<Rightarrow> u64 \<Rightarrow> nat \<Rightarrow> (unit, BlockError) result" where
  "validate_transfer info lba buffer_len =
     (let block_size = unat (bi_block_size info)
      in if buffer_len = 0 \<or> buffer_len mod block_size \<noteq> 0 then Err Block_InvalidBuffer
         else
           let transfer_blocks = of_nat (buffer_len div block_size)
           in case checked_add lba transfer_blocks of
                None \<Rightarrow> Err Block_OutOfRange
              | Some end' \<Rightarrow> if end' > bi_block_count info then Err Block_OutOfRange else Ok ())"

record 'd BlockDeviceHandle =
  bh_info :: BlockDeviceInfo
  bh_device :: "'d BlockDevice"

definition BlockDeviceHandle_read ::
  "'d BlockDeviceHandle \<Rightarrow> 'd \<Rightarrow> u64 \<Rightarrow> bytes \<Rightarrow> (unit, BlockError) result \<times> bytes" where
  "BlockDeviceHandle_read h d lba buffer =
     (case validate_transfer (bh_info h) lba (length buffer) of
        Inl e \<Rightarrow> (Err e, buffer)
      | Inr _ \<Rightarrow> dev_read_blocks (bh_device h) d lba buffer)"

definition BlockDeviceHandle_write ::
  "'d BlockDeviceHandle \<Rightarrow> 'd \<Rightarrow> u64 \<Rightarrow> bytes \<Rightarrow> (unit, BlockError) result \<times> 'd" where
  "BlockDeviceHandle_write h d lba data =
     (if bi_read_only (bh_info h) then (Err Block_ReadOnly, d)
      else case validate_transfer (bh_info h) lba (length data) of
             Inl e \<Rightarrow> (Err e, d)
           | Inr _ \<Rightarrow> dev_write_blocks (bh_device h) d lba data)"

definition BlockDeviceHandle_flush :: "'d BlockDeviceHandle \<Rightarrow> 'd \<Rightarrow> (unit, BlockError) result \<times> 'd" where
  "BlockDeviceHandle_flush h d = dev_flush (bh_device h) d"

section \<open>The registry\<close>

text \<open>A registered device is its information and its driver, like a handle.\<close>

record 'd BlockRegistry =
  br_devices :: "'d BlockDeviceHandle option list"
  br_count :: nat
  br_next_id :: BlockDeviceId

definition BlockRegistry_new :: "'d BlockRegistry" where
  "BlockRegistry_new = \<lparr>br_devices = replicate MAX_BLOCK_DEVICES None, br_count = 0, br_next_id = 1\<rparr>"

definition BlockRegistry_register ::
  "'d BlockDevice \<Rightarrow> 'd BlockRegistry \<Rightarrow> (BlockDeviceId, BlockError) result \<times> 'd BlockRegistry" where
  "BlockRegistry_register device r =
     (if br_count r = MAX_BLOCK_DEVICES then (Err Block_RegistryFull, r)
      else
        let block_size = dev_block_size device
        in if dev_name device = [] \<or> \<not> (MIN_BLOCK_SIZE \<le> block_size \<and> block_size \<le> MAX_BLOCK_SIZE) \<or>
              \<not> is_power_of_two block_size \<or> dev_block_count device = 0
           then (Err Block_InvalidGeometry, r)
           else
             let candidate = BlockDeviceInfo_from_device (br_next_id r) device
             in if \<exists>registered \<in> set (flatten (br_devices r)).
                     BlockDeviceInfo_name (bh_info registered) = BlockDeviceInfo_name candidate
                then (Err Block_DuplicateName, r)
                else case checked_add (br_next_id r) 1 of
                       None \<Rightarrow> (Err Block_RegistryFull, r)
                     | Some n \<Rightarrow>
                         (Ok (br_next_id r),
                          r\<lparr>br_next_id := n,
                            br_devices := (br_devices r)[br_count r := Some \<lparr>bh_info = candidate, bh_device = device\<rparr>],
                            br_count := br_count r + 1\<rparr>))"

definition BlockRegistry_handle :: "'d BlockRegistry \<Rightarrow> BlockDeviceId \<Rightarrow> 'd BlockDeviceHandle option" where
  "BlockRegistry_handle r i =
     List.find (\<lambda>registered. bi_id (bh_info registered) = i) (flatten (take (br_count r) (br_devices r)))"

definition BlockRegistry_info :: "'d BlockRegistry \<Rightarrow> BlockDeviceId \<Rightarrow> BlockDeviceInfo option" where
  "BlockRegistry_info r i = map_option bh_info (BlockRegistry_handle r i)"

definition BlockRegistry_snapshot :: "'d BlockRegistry \<Rightarrow> BlockDeviceInfo option list" where
  "BlockRegistry_snapshot r =
     splice (replicate MAX_BLOCK_DEVICES None) 0
       (map (\<lambda>h. Some (bh_info h)) (flatten (take (br_count r) (br_devices r))))"

definition BlockRegistry_read ::
  "'d BlockRegistry \<Rightarrow> 'd \<Rightarrow> BlockDeviceId \<Rightarrow> u64 \<Rightarrow> bytes \<Rightarrow> (unit, BlockError) result \<times> bytes" where
  "BlockRegistry_read r d i lba buffer =
     (case BlockRegistry_handle r i of
        None \<Rightarrow> (Err Block_InvalidDevice, buffer)
      | Some h \<Rightarrow> BlockDeviceHandle_read h d lba buffer)"

definition BlockRegistry_write ::
  "'d BlockRegistry \<Rightarrow> 'd \<Rightarrow> BlockDeviceId \<Rightarrow> u64 \<Rightarrow> bytes \<Rightarrow> (unit, BlockError) result \<times> 'd" where
  "BlockRegistry_write r d i lba data =
     (case BlockRegistry_handle r i of
        None \<Rightarrow> (Err Block_InvalidDevice, d)
      | Some h \<Rightarrow> BlockDeviceHandle_write h d lba data)"

definition BlockRegistry_flush :: "'d BlockRegistry \<Rightarrow> 'd \<Rightarrow> BlockDeviceId \<Rightarrow> (unit, BlockError) result \<times> 'd" where
  "BlockRegistry_flush r d i =
     (case BlockRegistry_handle r i of
        None \<Rightarrow> (Err Block_InvalidDevice, d)
      | Some h \<Rightarrow> BlockDeviceHandle_flush h d)"

section \<open>Transfers in range\<close>

text \<open>A transfer of \<^verbatim>\<open>n\<close> bytes at \<^verbatim>\<open>lba\<close> is a positive number of whole blocks that ends on the device.\<close>

definition in_range :: "u32 \<Rightarrow> u64 \<Rightarrow> u64 \<Rightarrow> nat \<Rightarrow> bool" where
  "in_range block_size block_count lba n \<longleftrightarrow>
     0 < n \<and> unat block_size dvd n \<and> unat lba + n div unat block_size \<le> unat block_count"

lemma validate_transfer_iff:
  assumes "n < 2 ^ 64" "bi_block_size info \<noteq> 0"
  shows "validate_transfer info lba n = Ok () \<longleftrightarrow> in_range (bi_block_size info) (bi_block_count info) lba n"
proof -
  let ?b = "unat (bi_block_size info)"
  have b: "0 < ?b" using assms(2) by (simp add: unat_gt_0)
  have "n div ?b < 2 ^ 64" using assms(1) by (meson div_le_dividend le_less_trans)
  then have u: "unat (of_nat (n div ?b) :: u64) = n div ?b" by (simp add: unat_of_nat take_bit_nat_eq_self)
  have l: "unat (bi_block_count info) < 2 ^ 64" using unsigned_less [of "bi_block_count info"] by simp
  have "(case checked_add lba (of_nat (n div ?b)) of None \<Rightarrow> False | Some e \<Rightarrow> \<not> e > bi_block_count info) \<longleftrightarrow>
      unat lba + n div ?b \<le> unat (bi_block_count info)"
  proof (cases "checked_add lba (of_nat (n div ?b))")
    case None
    then have "2 ^ 64 \<le> unat lba + n div ?b" using u by (simp add: checked_add_None_iff)
    then show ?thesis unfolding None using l by simp
  next
    case (Some e)
    then have "unat e = unat lba + n div ?b" using u checked_add_SomeD [of lba "of_nat (n div ?b)" e] by simp
    then show ?thesis using Some by (simp add: word_less_nat_alt not_less)
  qed
  then show ?thesis
    by (auto simp: validate_transfer_def in_range_def Let_def dvd_eq_mod_eq_0 split: option.splits if_splits)
qed

text \<open>What the registry holds: devices of accepted geometry with distinct identifiers and names.\<close>

definition device_accepted :: "'d BlockDevice \<Rightarrow> bool" where
  "device_accepted device \<longleftrightarrow> dev_name device \<noteq> [] \<and> MIN_BLOCK_SIZE \<le> dev_block_size device \<and>
     dev_block_size device \<le> MAX_BLOCK_SIZE \<and> is_power_of_two (dev_block_size device) \<and> dev_block_count device \<noteq> 0"

definition registry_ok :: "'d BlockRegistry \<Rightarrow> bool" where
  "registry_ok r \<longleftrightarrow> br_count r \<le> MAX_BLOCK_DEVICES \<and> length (br_devices r) = MAX_BLOCK_DEVICES \<and>
     (\<exists>hs. length hs = br_count r \<and>
        br_devices r = map Some hs @ replicate (MAX_BLOCK_DEVICES - br_count r) None \<and>
        (\<forall>h \<in> set hs. device_accepted (bh_device h) \<and>
           bh_info h = BlockDeviceInfo_from_device (bi_id (bh_info h)) (bh_device h) \<and> bi_id (bh_info h) < br_next_id r) \<and>
        distinct (map (\<lambda>h. bi_id (bh_info h)) hs) \<and> distinct (map (\<lambda>h. BlockDeviceInfo_name (bh_info h)) hs))"

inductive registry_reach :: "'d BlockRegistry \<Rightarrow> bool" where
  registry_start: "registry_reach BlockRegistry_new"
| registry_add: "registry_reach r \<Longrightarrow> BlockRegistry_register device r = (res, r') \<Longrightarrow> registry_reach r'"

lemma flatten_map_Some [simp]: "flatten (map Some hs) = hs"
  by (induction hs) auto

lemma from_device_simps [simp]:
  "bi_id (BlockDeviceInfo_from_device i dv) = i" "bi_block_size (BlockDeviceInfo_from_device i dv) = dev_block_size dv"
  "bi_block_count (BlockDeviceInfo_from_device i dv) = dev_block_count dv"
  "bi_read_only (BlockDeviceInfo_from_device i dv) = dev_read_only dv"
  by (simp_all add: BlockDeviceInfo_from_device_def Let_def)

lemma register_cases:
  assumes "BlockRegistry_register device r = (res, r')"
  obtains (refused) e where "res = Err e" "r' = r"
  | (accepted) "res = Ok (br_next_id r)" "br_count r \<noteq> MAX_BLOCK_DEVICES" "device_accepted device"
      "\<forall>h \<in> set (flatten (br_devices r)).
         BlockDeviceInfo_name (bh_info h) \<noteq> BlockDeviceInfo_name (BlockDeviceInfo_from_device (br_next_id r) device)"
      "br_next_id r < br_next_id r'" "br_count r' = br_count r + 1"
      "br_devices r' = (br_devices r)[br_count r :=
         Some \<lparr>bh_info = BlockDeviceInfo_from_device (br_next_id r) device, bh_device = device\<rparr>]"
proof -
  have "br_next_id r < n" if "checked_add (br_next_id r) 1 = Some n" for n
    using checked_add_SomeD [OF that] by (simp add: word_less_nat_alt)
  note next_id = this
  let ?c = "BlockDeviceInfo_from_device (br_next_id r) device"
  let ?dup = "\<exists>h \<in> set (flatten (br_devices r)). BlockDeviceInfo_name (bh_info h) = BlockDeviceInfo_name ?c"
  have eq: "BlockRegistry_register device r =
      (if br_count r = MAX_BLOCK_DEVICES then (Err Block_RegistryFull, r)
       else if \<not> device_accepted device then (Err Block_InvalidGeometry, r)
       else if ?dup then (Err Block_DuplicateName, r)
       else case checked_add (br_next_id r) 1 of
         None \<Rightarrow> (Err Block_RegistryFull, r)
       | Some n \<Rightarrow> (Ok (br_next_id r), r\<lparr>br_next_id := n,
           br_devices := (br_devices r)[br_count r := Some \<lparr>bh_info = ?c, bh_device = device\<rparr>], br_count := br_count r + 1\<rparr>))"
    by (auto simp: BlockRegistry_register_def device_accepted_def Let_def)
  consider "br_count r = MAX_BLOCK_DEVICES \<or> \<not> device_accepted device \<or> ?dup \<or> checked_add (br_next_id r) 1 = None"
    | n where "br_count r \<noteq> MAX_BLOCK_DEVICES" "device_accepted device" "\<not> ?dup" "checked_add (br_next_id r) 1 = Some n"
    by blast
  then show ?thesis
  proof cases
    case 1
    then show ?thesis using assms [unfolded eq] by (intro refused [of "projl res"]) (auto split: if_splits option.splits)
  next
    case 2
    then show ?thesis using assms [unfolded eq] next_id [of n] by (intro accepted) auto
  qed
qed

lemma registry_ok_step:
  assumes "registry_ok r" "BlockRegistry_register device r = (res, r')"
  shows "registry_ok r'"
  using assms(2)
proof (cases rule: register_cases)
  case refused
  then show ?thesis using assms(1) by simp
next
  case accepted
  obtain hs where hs: "length hs = br_count r" "br_devices r = map Some hs @ replicate (MAX_BLOCK_DEVICES - br_count r) None"
    "\<forall>h \<in> set hs. device_accepted (bh_device h) \<and>
       bh_info h = BlockDeviceInfo_from_device (bi_id (bh_info h)) (bh_device h) \<and> bi_id (bh_info h) < br_next_id r"
    "distinct (map (\<lambda>h. bi_id (bh_info h)) hs)" "distinct (map (\<lambda>h. BlockDeviceInfo_name (bh_info h)) hs)"
    "br_count r \<le> MAX_BLOCK_DEVICES" "length (br_devices r) = MAX_BLOCK_DEVICES"
    using assms(1) by (auto simp: registry_ok_def)
  let ?h = "\<lparr>bh_info = BlockDeviceInfo_from_device (br_next_id r) device, bh_device = device\<rparr>"
  have lt: "br_count r < MAX_BLOCK_DEVICES" using accepted(2) hs(6) by simp
  then obtain k where k: "MAX_BLOCK_DEVICES - br_count r = Suc k" by (metis Suc_diff_Suc)
  have "br_devices r' = map Some (hs @ [?h]) @ replicate (MAX_BLOCK_DEVICES - br_count r') None"
    using accepted(6,7) hs(1,2) k by (simp add: list_update_append)
  moreover have "device_accepted (bh_device h) \<and> bh_info h = BlockDeviceInfo_from_device (bi_id (bh_info h)) (bh_device h) \<and>
      bi_id (bh_info h) < br_next_id r'" if "h \<in> set (hs @ [?h])" for h
    using that hs(3) accepted(3,5) by (auto simp: less_trans)
  moreover have "distinct (map (\<lambda>h. bi_id (bh_info h)) (hs @ [?h]))" using hs(3,4) by auto
  moreover have "distinct (map (\<lambda>h. BlockDeviceInfo_name (bh_info h)) (hs @ [?h]))"
    using hs(2,5) accepted(4) by (auto simp: flatten_append)
  ultimately show ?thesis unfolding registry_ok_def
    using accepted(6,7) hs(1,7) lt by (intro conjI exI [of _ "hs @ [?h]"]) auto
qed

lemma registry_reach_ok: "registry_reach r \<Longrightarrow> registry_ok r"
proof (induction rule: registry_reach.induct)
  case registry_start
  show ?case by (simp add: registry_ok_def BlockRegistry_new_def)
next
  case (registry_add r device res r')
  then show ?case using registry_ok_step by blast
qed

lemma registry_handle_facts:
  assumes "registry_ok r" "BlockRegistry_handle r i = Some h"
  shows "device_accepted (bh_device h)" "bi_id (bh_info h) = i" "bh_info h = BlockDeviceInfo_from_device i (bh_device h)"
proof -
  obtain hs where hs: "length hs = br_count r" "br_devices r = map Some hs @ replicate (MAX_BLOCK_DEVICES - br_count r) None"
    "\<forall>h \<in> set hs. device_accepted (bh_device h) \<and> bh_info h = BlockDeviceInfo_from_device (bi_id (bh_info h)) (bh_device h)"
    using assms(1) by (auto simp: registry_ok_def)
  have "h \<in> set hs" "bi_id (bh_info h) = i"
    using find_SomeD [OF assms(2) [unfolded BlockRegistry_handle_def]] hs(1,2) by simp_all
  then show "device_accepted (bh_device h)" "bi_id (bh_info h) = i"
    "bh_info h = BlockDeviceInfo_from_device i (bh_device h)" using hs(3) by auto
qed

section \<open>Properties\<close>

text \<open>
  C16. No transfer reaches a driver unless it lies on the device. For a registry built by any sequence of
  registrations and any identifier, a read or a write either fails before the driver is called, leaving
  buffer and storage as they were, or the device is registered under that identifier with an accepted
  geometry, the transfer is a positive number of whole blocks ending within the device's block count,
  computed without wrap-around, and the result is the driver's; a write moreover never reaches a
  read-only device.
\<close>

theorem block_transfers_stay_on_device:
  assumes "registry_reach r" "length buffer < 2 ^ 64"
  shows "(case BlockRegistry_handle r i of
      None \<Rightarrow> BlockRegistry_read r d i lba buffer = (Err Block_InvalidDevice, buffer) \<and>
        BlockRegistry_write r d i lba buffer = (Err Block_InvalidDevice, d)
    | Some h \<Rightarrow> device_accepted (bh_device h) \<and> bi_id (bh_info h) = i \<and>
        (if in_range (dev_block_size (bh_device h)) (dev_block_count (bh_device h)) lba (length buffer)
         then BlockRegistry_read r d i lba buffer = dev_read_blocks (bh_device h) d lba buffer
         else \<exists>e. BlockRegistry_read r d i lba buffer = (Err e, buffer)) \<and>
        (if in_range (dev_block_size (bh_device h)) (dev_block_count (bh_device h)) lba (length buffer) \<and>
            \<not> dev_read_only (bh_device h)
         then BlockRegistry_write r d i lba buffer = dev_write_blocks (bh_device h) d lba buffer
         else \<exists>e. BlockRegistry_write r d i lba buffer = (Err e, d)))"
proof (cases "BlockRegistry_handle r i")
  case None
  then show ?thesis by (simp add: BlockRegistry_read_def BlockRegistry_write_def)
next
  case (Some h)
  note f = registry_handle_facts [OF registry_reach_ok [OF assms(1)] Some]
  have "bi_block_size (bh_info h) \<noteq> 0"
    using f(1) by (subst f(3)) (auto simp: device_accepted_def MIN_BLOCK_SIZE_def)
  note v = validate_transfer_iff [OF assms(2) this, of lba]
  have g: "bi_block_size (bh_info h) = dev_block_size (bh_device h)" "bi_block_count (bh_info h) = dev_block_count (bh_device h)"
    "bi_read_only (bh_info h) = dev_read_only (bh_device h)" by (subst f(3), simp)+
  show ?thesis
    using Some f(1,2) v unfolding g
    by (cases "validate_transfer (bh_info h) lba (length buffer)")
      (auto simp: BlockRegistry_read_def BlockRegistry_write_def BlockDeviceHandle_read_def BlockDeviceHandle_write_def g)
qed

text \<open>A four-block device whose storage is a byte list.\<close>

definition memory_device :: "bytes BlockDevice" where
  "memory_device = \<lparr>dev_name = ascii ''mem0'', dev_block_size = 512, dev_block_count = 4, dev_read_only = default_read_only,
     dev_read_blocks = (\<lambda>d lba buffer. (Ok (), slice (unat lba * 512) (length buffer) d)),
     dev_write_blocks = (\<lambda>d lba data. (Ok (), splice d (unat lba * 512) data)), dev_flush = default_flush\<rparr>"

theorem block_transfers_stay_on_device_witness:
  "let r = snd (BlockRegistry_register memory_device BlockRegistry_new); buffer = replicate 512 0; d = replicate 2048 7
   in BlockRegistry_read r d 1 3 buffer = (Ok (), slice 1536 512 d) \<and>
      (\<exists>e. BlockRegistry_read r d 1 4 buffer = (Err e, buffer))"
proof -
  let ?r = "snd (BlockRegistry_register memory_device BlockRegistry_new)"
  let ?i = "BlockDeviceInfo_from_device 1 memory_device"
  define d :: bytes where "d = replicate 2048 7"
  have "is_power_of_two (512 :: u32)" by (simp add: is_power_of_two_def)
  then have r: "?r = BlockRegistry_new\<lparr>br_next_id := 2, br_devices := (br_devices BlockRegistry_new)[0 :=
      Some \<lparr>bh_info = ?i, bh_device = memory_device\<rparr>], br_count := 1\<rparr>"
    by (simp add: BlockRegistry_register_def BlockRegistry_new_def memory_device_def Let_def MIN_BLOCK_SIZE_def MAX_BLOCK_SIZE_def
        MAX_BLOCK_DEVICES_def checked_add_def ascii_def)
  have reach: "registry_reach ?r"
    using registry_add [OF registry_start, of memory_device] by (metis prod.collapse)
  have h: "BlockRegistry_handle ?r 1 = Some \<lparr>bh_info = ?i, bh_device = memory_device\<rparr>"
    unfolding r by (simp add: BlockRegistry_handle_def BlockRegistry_new_def MAX_BLOCK_DEVICES_def)
  note t = block_transfers_stay_on_device [OF reach, where buffer = "replicate 512 0" and i = 1 and d = d]
  have "in_range 512 4 3 512" "\<not> in_range 512 4 4 512" by (simp_all add: in_range_def)
  then show ?thesis using t [of 3] t [of 4] h unfolding d_def [symmetric] Let_def by (simp add: memory_device_def)
qed

end
