(* ===== verification/Fat32.thy ===== *)
theory Fat32
  imports Block Vfs
begin

text \<open>
  The read-only FAT32 file system of \<^verbatim>\<open>src/kernel/src/fat32.rs\<close>: the partition and boot-sector
  parsers, the geometry check, cluster chains, directory scans, path resolution and file reads, over
  the handle of a registered block device. The state of the storage hardware is a type parameter and
  the driver is the one of the handle.
\<close>

section \<open>Partition entries and boot sectors\<close>

definition SECTOR_SIZE :: nat where "SECTOR_SIZE = 512"
definition MBR_PARTITION_TABLE_OFFSET :: nat where "MBR_PARTITION_TABLE_OFFSET = 446"
definition MBR_PARTITION_ENTRY_SIZE :: nat where "MBR_PARTITION_ENTRY_SIZE = 16"
definition FAT32_MIN_CLUSTERS :: u32 where "FAT32_MIN_CLUSTERS = 65525"
definition FAT32_ENTRY_MASK :: u32 where "FAT32_ENTRY_MASK = 0x0FFFFFFF"
definition FAT32_BAD_CLUSTER :: u32 where "FAT32_BAD_CLUSTER = 0x0FFFFFF7"
definition FAT32_END_OF_CHAIN :: u32 where "FAT32_END_OF_CHAIN = 0x0FFFFFF8"

datatype Fat32Error = Fat_DeviceNotFound | Fat_Io | Fat_NoFat32Volume | Fat_UnsupportedGeometry | Fat_CorruptFilesystem

record PartitionEntry =
  pe_status :: u8
  pe_start_chs :: bytes
  pe_partition_type :: u8
  pe_end_chs :: bytes
  pe_start_lba :: u32
  pe_sector_count :: u32

definition PartitionEntry_parse :: "bytes \<Rightarrow> PartitionEntry option" where
  "PartitionEntry_parse data =
     (if length data < MBR_PARTITION_ENTRY_SIZE \<or> data ! 4 = 0x00 then None
      else Some \<lparr>pe_status = data ! 0, pe_start_chs = [data ! 1, data ! 2, data ! 3], pe_partition_type = data ! 4,
                 pe_end_chs = [data ! 5, data ! 6, data ! 7], pe_start_lba = u32_le_at data 8,
                 pe_sector_count = u32_le_at data 12\<rparr>)"

definition PartitionEntry_is_fat32 :: "PartitionEntry \<Rightarrow> bool" where
  "PartitionEntry_is_fat32 p \<longleftrightarrow> pe_partition_type p \<in> {0x0B, 0x0C, 0x1B, 0x1C}"

record Fat32BootSector =
  bs_bytes_per_sector :: u16
  bs_sectors_per_cluster :: u8
  bs_reserved_sectors :: u16
  bs_fat_count :: u8
  bs_root_dir_entries :: u16
  bs_total_sectors_16 :: u16
  bs_media_descriptor :: u8
  bs_sectors_per_fat_16 :: u16
  bs_sectors_per_track :: u16
  bs_heads :: u16
  bs_hidden_sectors :: u32
  bs_total_sectors_32 :: u32
  bs_sectors_per_fat_32 :: u32
  bs_ext_flags :: u16
  bs_fs_version :: u16
  bs_root_cluster :: u32
  bs_fs_info_sector :: u16
  bs_backup_boot_sector :: u16
  bs_drive_number :: u8
  bs_boot_signature :: u8
  bs_volume_id :: u32
  bs_volume_label :: bytes
  bs_fs_type_label :: bytes

definition Fat32BootSector_parse :: "bytes \<Rightarrow> Fat32BootSector option" where
  "Fat32BootSector_parse data =
     (if length data < SECTOR_SIZE \<or> data ! 510 \<noteq> 0x55 \<or> data ! 511 \<noteq> 0xAA then None
      else Some
        \<lparr>bs_bytes_per_sector = u16_le_at data 11, bs_sectors_per_cluster = data ! 13,
         bs_reserved_sectors = u16_le_at data 14, bs_fat_count = data ! 16, bs_root_dir_entries = u16_le_at data 17,
         bs_total_sectors_16 = u16_le_at data 19, bs_media_descriptor = data ! 21,
         bs_sectors_per_fat_16 = u16_le_at data 22, bs_sectors_per_track = u16_le_at data 24,
         bs_heads = u16_le_at data 26, bs_hidden_sectors = u32_le_at data 28, bs_total_sectors_32 = u32_le_at data 32,
         bs_sectors_per_fat_32 = u32_le_at data 36, bs_ext_flags = u16_le_at data 40, bs_fs_version = u16_le_at data 42,
         bs_root_cluster = u32_le_at data 44, bs_fs_info_sector = u16_le_at data 48,
         bs_backup_boot_sector = u16_le_at data 50, bs_drive_number = data ! 64, bs_boot_signature = data ! 66,
         bs_volume_id = u32_le_at data 67, bs_volume_label = slice 71 11 data, bs_fs_type_label = slice 82 8 data\<rparr>)"

definition Fat32BootSector_total_sectors :: "Fat32BootSector \<Rightarrow> u32" where
  "Fat32BootSector_total_sectors b =
     (if bs_total_sectors_16 b \<noteq> 0 then ucast (bs_total_sectors_16 b) else bs_total_sectors_32 b)"

section \<open>Geometry\<close>

record Fat32Geometry =
  ge_partition_lba :: u64
  ge_fat_lba :: u64
  ge_data_lba :: u64
  ge_sectors_per_cluster :: u32
  ge_cluster_count :: u32
  ge_root_cluster :: u32

definition Fat32Geometry_parse ::
  "Fat32BootSector \<Rightarrow> u64 \<Rightarrow> u64 option \<Rightarrow> u64 \<Rightarrow> (Fat32Geometry, Fat32Error) result" where
  "Fat32Geometry_parse boot partition_lba partition_sectors device_blocks =
     (if bs_bytes_per_sector boot \<noteq> ucast MIN_BLOCK_SIZE \<or> bs_sectors_per_cluster boot = 0 \<or>
         \<not> is_power_of_two (bs_sectors_per_cluster boot) \<or> bs_sectors_per_cluster boot > 128 \<or>
         bs_reserved_sectors boot = 0 \<or> bs_fat_count boot = 0 \<or> bs_root_dir_entries boot \<noteq> 0 \<or>
         bs_sectors_per_fat_16 boot \<noteq> 0 \<or> bs_sectors_per_fat_32 boot = 0 \<or> bs_fs_version boot \<noteq> 0 \<or>
         bs_root_cluster boot < 2
      then Err Fat_UnsupportedGeometry
      else
        let total_sectors = ucast (Fat32BootSector_total_sectors boot) :: u64
        in case checked_mul (ucast (bs_fat_count boot)) (ucast (bs_sectors_per_fat_32 boot)) of
             None \<Rightarrow> Err Fat_CorruptFilesystem
           | Some fat_sectors \<Rightarrow>
               (case checked_add (ucast (bs_reserved_sectors boot)) fat_sectors of
                  None \<Rightarrow> Err Fat_CorruptFilesystem
                | Some first_data_sector \<Rightarrow>
                    if total_sectors \<le> first_data_sector \<or>
                       (case partition_sectors of None \<Rightarrow> False | Some sectors \<Rightarrow> total_sectors > sectors) \<or>
                       (case checked_add partition_lba total_sectors of None \<Rightarrow> True | Some end' \<Rightarrow> end' > device_blocks)
                    then Err Fat_CorruptFilesystem
                    else
                      let cluster_count =
                            ucast ((total_sectors - first_data_sector) div ucast (bs_sectors_per_cluster boot)) :: u32
                      in if cluster_count < FAT32_MIN_CLUSTERS \<or> bs_root_cluster boot > saturating_add cluster_count 1
                         then Err Fat_UnsupportedGeometry
                         else
                           let fat_entries = ucast (bs_sectors_per_fat_32 boot) * (of_nat SECTOR_SIZE div 4) :: u64
                           in if fat_entries < ucast cluster_count + 2 then Err Fat_CorruptFilesystem
                              else Ok
                                \<lparr>ge_partition_lba = partition_lba,
                                 ge_fat_lba = partition_lba + ucast (bs_reserved_sectors boot),
                                 ge_data_lba = partition_lba + first_data_sector,
                                 ge_sectors_per_cluster = ucast (bs_sectors_per_cluster boot),
                                 ge_cluster_count = cluster_count, ge_root_cluster = bs_root_cluster boot\<rparr>))"

definition Fat32Geometry_cluster_lba :: "Fat32Geometry \<Rightarrow> u32 \<Rightarrow> (u64, Fat32Error) result" where
  "Fat32Geometry_cluster_lba g cluster =
     (if cluster < 2 \<or> cluster > saturating_add (ge_cluster_count g) 1 then Err Fat_CorruptFilesystem
      else Ok (ge_data_lba g + ucast (cluster - 2) * ucast (ge_sectors_per_cluster g)))"

section \<open>Directory records\<close>

record DirectoryRecord =
  dr_name :: bytes
  dr_name_len :: nat
  dr_node_type :: NodeType
  dr_first_cluster :: u32
  dr_size :: u32

definition sanitise_name_byte :: "u8 \<Rightarrow> u8" where
  "sanitise_name_byte b = (if b < 0x80 \<and> \<not> (b < 0x20 \<or> b = 0x7F) then b else 0x5F)"

definition SPACE :: u8 where "SPACE = 0x20"

definition copy_short_name :: "bytes \<Rightarrow> bytes \<Rightarrow> (nat \<times> bytes) option" where
  "copy_short_name source destination =
     (if length source < 8 then None
      else
        let base = take 8 source;
            base_len = (case position (\<lambda>b. b = SPACE) base of Some i \<Rightarrow> i | None \<Rightarrow> 8)
        in if base_len = 0 then None
           else Some (base_len, splice destination 0
             (map (\<lambda>b. sanitise_name_byte (if b = 0x05 then 0xE5 else b)) (take base_len base))))"

definition DirectoryRecord_parse :: "bytes \<Rightarrow> DirectoryRecord option" where
  "DirectoryRecord_parse data =
     (if length data < 32 \<or> data ! 0 \<in> {0x00, 0xE5} then None
      else
        let attributes = data ! 11
        in if attributes AND 0x0F = 0x0F \<or> attributes AND 0x08 \<noteq> 0 then None
           else case copy_short_name (take 11 data) (replicate MAX_NAME 0) of
                  None \<Rightarrow> None
                | Some (name_len, name) \<Rightarrow>
                    (let ext = slice 8 3 data;
                         (name_len, name) =
                           (if attributes AND 0x10 = 0 \<and> (\<exists>b \<in> set ext. b \<noteq> SPACE) then
                              let suffix = 0x2E # map sanitise_name_byte (takeWhile (\<lambda>b. b \<noteq> SPACE) ext)
                              in (name_len + length suffix, splice name name_len suffix)
                            else (name_len, name))
                     in Some \<lparr>dr_name = name, dr_name_len = name_len,
                              dr_node_type = (if attributes AND 0x10 \<noteq> 0 then Node_Directory else Node_File),
                              dr_first_cluster = push_bit 16 (ucast (u16_le_at data 20)) OR ucast (u16_le_at data 26),
                              dr_size = u32_le_at data 28\<rparr>))"

definition DirectoryRecord_name :: "DirectoryRecord \<Rightarrow> bytes" where
  "DirectoryRecord_name r = from_utf8_or [] (take (dr_name_len r) (dr_name r))"

definition to_ascii_lowercase :: "u8 \<Rightarrow> u8" where
  "to_ascii_lowercase b = (if 0x41 \<le> b \<and> b \<le> 0x5A then b + 0x20 else b)"

definition names_equal :: "bytes \<Rightarrow> bytes \<Rightarrow> bool" where
  "names_equal left right \<longleftrightarrow> length left = length right \<and>
     list_all (\<lambda>(a, b). to_ascii_lowercase a = to_ascii_lowercase b) (zip left right)"

section \<open>Mounting\<close>

record 'd Fat32Fs =
  ff_device :: "'d BlockDeviceHandle"
  ff_boot_sector :: Fat32BootSector
  ff_geometry :: Fat32Geometry

text \<open>\<^verbatim>\<open>device.read(lba, &mut sector)\<close> into a zeroed sector, with the error mapped to \<^verbatim>\<open>Io\<close>.\<close>

definition device_sector :: "'d BlockDeviceHandle \<Rightarrow> 'd \<Rightarrow> u64 \<Rightarrow> (bytes, Fat32Error) result" where
  "device_sector device d lba =
     (case BlockDeviceHandle_read device d lba (replicate SECTOR_SIZE 0) of
        (Inl _, _) \<Rightarrow> Err Fat_Io
      | (Inr _, sector) \<Rightarrow> Ok sector)"

fun try_partitions :: "'d BlockDeviceHandle \<Rightarrow> 'd \<Rightarrow> bytes \<Rightarrow> nat list \<Rightarrow> ('d Fat32Fs, Fat32Error) result" where
  "try_partitions device d sector [] = Err Fat_NoFat32Volume"
| "try_partitions device d sector (index # rest) =
     (let offset = MBR_PARTITION_TABLE_OFFSET + index * MBR_PARTITION_ENTRY_SIZE;
          continue = try_partitions device d sector rest
      in case PartitionEntry_parse (slice offset 16 sector) of
           None \<Rightarrow> continue
         | Some entry \<Rightarrow>
             if \<not> PartitionEntry_is_fat32 entry \<or> pe_start_lba entry = 0 \<or> pe_sector_count entry = 0 then continue
             else
               let start_lba = ucast (pe_start_lba entry)
               in if start_lba \<ge> bi_block_count (bh_info device) then continue
                  else case device_sector device d start_lba of
                         Inl e \<Rightarrow> Err e
                       | Inr boot_data \<Rightarrow>
                           (case Fat32BootSector_parse boot_data of
                              None \<Rightarrow> continue
                            | Some boot_sector \<Rightarrow>
                                (case Fat32Geometry_parse boot_sector start_lba (Some (ucast (pe_sector_count entry)))
                                        (bi_block_count (bh_info device)) of
                                   Inl _ \<Rightarrow> continue
                                 | Inr geometry \<Rightarrow>
                                     Ok \<lparr>ff_device = device, ff_boot_sector = boot_sector, ff_geometry = geometry\<rparr>)))"

definition Fat32Fs_from_device :: "'d BlockDeviceHandle \<Rightarrow> 'd \<Rightarrow> ('d Fat32Fs, Fat32Error) result" where
  "Fat32Fs_from_device device d =
     (let info = bh_info device
      in if bi_block_size info \<noteq> of_nat SECTOR_SIZE then Err Fat_UnsupportedGeometry
         else case device_sector device d 0 of
           Inl e \<Rightarrow> Err e
         | Inr sector \<Rightarrow>
             (let partitioned = try_partitions device d sector [0..<4]
              in case Fat32BootSector_parse sector of
                   None \<Rightarrow> partitioned
                 | Some boot_sector \<Rightarrow>
                     (case Fat32Geometry_parse boot_sector 0 None (bi_block_count info) of
                        Inl _ \<Rightarrow> partitioned
                      | Inr geometry \<Rightarrow>
                          Ok \<lparr>ff_device = device, ff_boot_sector = boot_sector, ff_geometry = geometry\<rparr>)))"

definition Fat32Fs_mount :: "'d BlockRegistry \<Rightarrow> 'd \<Rightarrow> BlockDeviceId \<Rightarrow> ('d Fat32Fs, Fat32Error) result" where
  "Fat32Fs_mount r d device_id =
     (case BlockRegistry_handle r device_id of
        None \<Rightarrow> Err Fat_DeviceNotFound
      | Some device \<Rightarrow> Fat32Fs_from_device device d)"

definition Fat32Fs_device_id :: "'d Fat32Fs \<Rightarrow> BlockDeviceId" where
  "Fat32Fs_device_id fs = bi_id (bh_info (ff_device fs))"

definition Fat32Fs_partition_lba :: "'d Fat32Fs \<Rightarrow> u64" where
  "Fat32Fs_partition_lba fs = ge_partition_lba (ff_geometry fs)"

definition Fat32Fs_root_cluster :: "'d Fat32Fs \<Rightarrow> u32" where
  "Fat32Fs_root_cluster fs = ge_root_cluster (ff_geometry fs)"

section \<open>Cluster chains and directory scans\<close>

definition Fat32Fs_read_sector :: "'d Fat32Fs \<Rightarrow> 'd \<Rightarrow> u64 \<Rightarrow> (bytes, Fat32Error) result" where
  "Fat32Fs_read_sector fs d lba = device_sector (ff_device fs) d lba"

definition Fat32Fs_next_cluster :: "'d Fat32Fs \<Rightarrow> 'd \<Rightarrow> u32 \<Rightarrow> (u32 option, Fat32Error) result" where
  "Fat32Fs_next_cluster fs d cluster =
     (let g = ff_geometry fs
      in if cluster < 2 \<or> cluster > saturating_add (ge_cluster_count g) 1 then Err Fat_CorruptFilesystem
         else
           let fat_offset = ucast cluster * 4 :: u64;
               fat_sector = ge_fat_lba g + fat_offset div of_nat SECTOR_SIZE;
               entry_offset = unat (fat_offset mod of_nat SECTOR_SIZE)
           in case Fat32Fs_read_sector fs d fat_sector of
                Inl e \<Rightarrow> Err e
              | Inr sector \<Rightarrow>
                  (let value = u32_le_at sector entry_offset AND FAT32_ENTRY_MASK
                   in if value \<ge> FAT32_END_OF_CHAIN then Ok None
                      else if value < 2 \<or> value = FAT32_BAD_CLUSTER \<or> value > saturating_add (ge_cluster_count g) 1
                           then Err Fat_CorruptFilesystem
                           else Ok (Some value)))"

text \<open>
  A scan hands every record to a visitor, which updates a state of its own and says whether to go on.
  The scan of a sector or of a cluster ends in one of three ways: the whole scan returns, it goes on
  behind, or it fails.
\<close>

datatype scan_flow = Scan_Return | Scan_Continue | Scan_Fail Fat32Error

fun scan_records :: "('v \<Rightarrow> DirectoryRecord \<Rightarrow> bool \<times> 'v) \<Rightarrow> bytes list \<Rightarrow> 'v \<Rightarrow> scan_flow \<times> 'v" where
  "scan_records visitor [] v = (Scan_Continue, v)"
| "scan_records visitor (raw # rest) v =
     (if raw ! 0 = 0x00 then (Scan_Return, v)
      else case DirectoryRecord_parse raw of
             None \<Rightarrow> scan_records visitor rest v
           | Some record \<Rightarrow>
               (case visitor v record of
                  (False, v) \<Rightarrow> (Scan_Return, v)
                | (True, v) \<Rightarrow> scan_records visitor rest v))"

text \<open>\<^verbatim>\<open>slice::chunks_exact\<close>.\<close>

definition chunks_exact :: "nat \<Rightarrow> 'a list \<Rightarrow> 'a list list" where
  "chunks_exact n xs = map (\<lambda>i. slice (i * n) n xs) [0..<length xs div n]"

fun scan_sectors ::
  "'d Fat32Fs \<Rightarrow> 'd \<Rightarrow> ('v \<Rightarrow> DirectoryRecord \<Rightarrow> bool \<times> 'v) \<Rightarrow> u64 \<Rightarrow> nat list \<Rightarrow> 'v \<Rightarrow> scan_flow \<times> 'v" where
  "scan_sectors fs d visitor first_lba [] v = (Scan_Continue, v)"
| "scan_sectors fs d visitor first_lba (sector_index # rest) v =
     (case Fat32Fs_read_sector fs d (first_lba + of_nat sector_index) of
        Inl e \<Rightarrow> (Scan_Fail e, v)
      | Inr sector \<Rightarrow>
          (case scan_records visitor (chunks_exact 32 sector) v of
             (Scan_Continue, v) \<Rightarrow> scan_sectors fs d visitor first_lba rest v
           | other \<Rightarrow> other))"

function scan_clusters ::
  "'d Fat32Fs \<Rightarrow> 'd \<Rightarrow> ('v \<Rightarrow> DirectoryRecord \<Rightarrow> bool \<times> 'v) \<Rightarrow> u32 \<Rightarrow> nat \<Rightarrow> 'v \<Rightarrow> (unit, Fat32Error) result \<times> 'v" where
  "scan_clusters fs d visitor cluster traversed v =
     (case Fat32Geometry_cluster_lba (ff_geometry fs) cluster of
        Inl e \<Rightarrow> (Err e, v)
      | Inr first_lba \<Rightarrow>
          (case scan_sectors fs d visitor first_lba [0..<unat (ge_sectors_per_cluster (ff_geometry fs))] v of
             (Scan_Return, v) \<Rightarrow> (Ok (), v)
           | (Scan_Fail e, v) \<Rightarrow> (Err e, v)
           | (Scan_Continue, v) \<Rightarrow>
               if traversed + 1 > unat (ge_cluster_count (ff_geometry fs)) then (Err Fat_CorruptFilesystem, v)
               else case Fat32Fs_next_cluster fs d cluster of
                      Inl e \<Rightarrow> (Err e, v)
                    | Inr None \<Rightarrow> (Ok (), v)
                    | Inr (Some next) \<Rightarrow> scan_clusters fs d visitor next (traversed + 1) v))"
  by pat_completeness auto

termination
  by (relation "measure (\<lambda>(fs, d, visitor, cluster, traversed, v). unat (ge_cluster_count (ff_geometry fs)) - traversed)")
    auto

definition Fat32Fs_scan_directory ::
  "'d Fat32Fs \<Rightarrow> 'd \<Rightarrow> u32 \<Rightarrow> ('v \<Rightarrow> DirectoryRecord \<Rightarrow> bool \<times> 'v) \<Rightarrow> 'v \<Rightarrow> (unit, Fat32Error) result \<times> 'v" where
  "Fat32Fs_scan_directory fs d start_cluster visitor v = scan_clusters fs d visitor start_cluster 0 v"

section \<open>Resolving paths\<close>

definition find_visitor :: "bytes \<Rightarrow> DirectoryRecord option \<Rightarrow> DirectoryRecord \<Rightarrow> bool \<times> DirectoryRecord option" where
  "find_visitor component result record =
     (if names_equal (DirectoryRecord_name record) component then (False, Some record) else (True, result))"

definition Fat32Fs_find_entry ::
  "'d Fat32Fs \<Rightarrow> 'd \<Rightarrow> u32 \<Rightarrow> bytes \<Rightarrow> (DirectoryRecord option, Fat32Error) result" where
  "Fat32Fs_find_entry fs d directory_cluster component =
     (case Fat32Fs_scan_directory fs d directory_cluster (find_visitor component) None of
        (Inl e, _) \<Rightarrow> Err e
      | (Inr _, result) \<Rightarrow> Ok result)"

fun resolve_records ::
  "'d Fat32Fs \<Rightarrow> 'd \<Rightarrow> u32 \<Rightarrow> bytes list \<Rightarrow> DirectoryRecord option \<Rightarrow> (DirectoryRecord option, VfsError) result" where
  "resolve_records fs d directory_cluster [] current = Ok current"
| "resolve_records fs d directory_cluster (component # cs) current =
     (if component = ascii ''.'' \<or> component = ascii ''..'' \<or> length component > 12 then Err Vfs_InvalidPath
      else case Fat32Fs_find_entry fs d directory_cluster component of
             Inl _ \<Rightarrow> Err Vfs_IoError
           | Inr None \<Rightarrow> Err Vfs_NotFound
           | Inr (Some record) \<Rightarrow>
               if cs \<noteq> [] then
                 (if dr_node_type record \<noteq> Node_Directory then Err Vfs_NotADirectory
                  else resolve_records fs d (dr_first_cluster record) cs (Some record))
               else resolve_records fs d directory_cluster cs (Some record))"

definition Fat32Fs_resolve_path :: "'d Fat32Fs \<Rightarrow> 'd \<Rightarrow> bytes \<Rightarrow> (DirectoryRecord option, VfsError) result" where
  "Fat32Fs_resolve_path fs d path =
     (if path = [] \<or> path = [SLASH] then Ok None
      else if \<not> starts_with path [SLASH] then Err Vfs_InvalidPath
      else resolve_records fs d (ge_root_cluster (ff_geometry fs)) (components path) None)"

section \<open>Reading files\<close>

definition cluster_size :: "'d Fat32Fs \<Rightarrow> nat" where
  "cluster_size fs = unat (ge_sectors_per_cluster (ff_geometry fs)) * SECTOR_SIZE"

text \<open>The first loop skips the clusters before the offset.\<close>

fun skip_clusters :: "'d Fat32Fs \<Rightarrow> 'd \<Rightarrow> nat \<Rightarrow> u32 \<Rightarrow> nat \<Rightarrow> (u32 \<times> nat, VfsError) result" where
  "skip_clusters fs d 0 cluster traversed = Ok (cluster, traversed)"
| "skip_clusters fs d (Suc clusters_to_skip) cluster traversed =
     (case Fat32Fs_next_cluster fs d cluster of
        Inl _ \<Rightarrow> Err Vfs_IoError
      | Inr None \<Rightarrow> Err Vfs_IoError
      | Inr (Some next) \<Rightarrow>
          if traversed + 1 > unat (ge_cluster_count (ff_geometry fs)) then Err Vfs_IoError
          else skip_clusters fs d clusters_to_skip next (traversed + 1))"

text \<open>
  The sectors of one cluster: the result is an error, or the number of bytes written so far with the
  buffer; reaching the wanted number ends the read.
\<close>

primrec read_sectors ::
  "'d Fat32Fs \<Rightarrow> 'd \<Rightarrow> u64 \<Rightarrow> nat \<Rightarrow> nat list \<Rightarrow> nat \<Rightarrow> nat \<Rightarrow> bytes \<Rightarrow> (nat, VfsError) result \<times> bytes" where
  "read_sectors fs d first_lba wanted [] sector_offset written buffer = (Ok written, buffer)"
| "read_sectors fs d first_lba wanted (sector_index # rest) sector_offset written buffer =
     (case Fat32Fs_read_sector fs d (first_lba + of_nat sector_index) of
        Inl _ \<Rightarrow> (Err Vfs_IoError, buffer)
      | Inr sector \<Rightarrow>
          (let available = SECTOR_SIZE - sector_offset;
               count = min available (wanted - written);
               buffer = splice buffer written (slice sector_offset count sector);
               written = written + count
           in if written = wanted then (Ok written, buffer)
              else read_sectors fs d first_lba wanted rest 0 written buffer))"

function read_clusters ::
  "'d Fat32Fs \<Rightarrow> 'd \<Rightarrow> nat \<Rightarrow> u32 \<Rightarrow> nat \<Rightarrow> nat \<Rightarrow> nat \<Rightarrow> bytes \<Rightarrow> (nat, VfsError) result \<times> bytes" where
  "read_clusters fs d wanted cluster cluster_offset traversed written buffer =
     (if \<not> written < wanted then (Ok written, buffer)
      else case Fat32Geometry_cluster_lba (ff_geometry fs) cluster of
        Inl _ \<Rightarrow> (Err Vfs_IoError, buffer)
      | Inr first_lba \<Rightarrow>
          (case read_sectors fs d first_lba wanted
                  [cluster_offset div SECTOR_SIZE..<unat (ge_sectors_per_cluster (ff_geometry fs))]
                  (cluster_offset mod SECTOR_SIZE) written buffer of
             (Inl e, buffer') \<Rightarrow> (Err e, buffer')
           | (Inr written', buffer') \<Rightarrow>
               if written' = wanted then (Ok written', buffer')
               else if traversed + 1 > unat (ge_cluster_count (ff_geometry fs)) then (Err Vfs_IoError, buffer')
               else case Fat32Fs_next_cluster fs d cluster of
                      Inl _ \<Rightarrow> (Err Vfs_IoError, buffer')
                    | Inr None \<Rightarrow> (Err Vfs_IoError, buffer')
                    | Inr (Some next) \<Rightarrow> read_clusters fs d wanted next 0 (traversed + 1) written' buffer'))"
  by pat_completeness auto

termination
  by (relation "measure (\<lambda>(fs, d, wanted, cluster, cluster_offset, traversed, written, buffer).
    unat (ge_cluster_count (ff_geometry fs)) - traversed)")
    auto

definition Fat32Fs_read_file ::
  "'d Fat32Fs \<Rightarrow> 'd \<Rightarrow> DirectoryRecord \<Rightarrow> nat \<Rightarrow> bytes \<Rightarrow> (nat, VfsError) result \<times> bytes" where
  "Fat32Fs_read_file fs d record offset buffer =
     (if dr_node_type record \<noteq> Node_File then (Err Vfs_NotAFile, buffer)
      else
        let file_size = unat (dr_size record)
        in if offset \<ge> file_size \<or> buffer = [] then (Ok 0, buffer)
           else if dr_first_cluster record < 2 then (Err Vfs_IoError, buffer)
           else case skip_clusters fs d (offset div cluster_size fs) (dr_first_cluster record) 0 of
                  Inl e \<Rightarrow> (Err e, buffer)
                | Inr (cluster, traversed) \<Rightarrow>
                    (let wanted = min (length buffer) (file_size - offset)
                     in read_clusters fs d wanted cluster (offset mod cluster_size fs) traversed 0 buffer))"

section \<open>Operations\<close>

definition Fat32Fs_node_info :: "DirectoryRecord \<Rightarrow> NodeInfo" where
  "Fat32Fs_node_info record =
     \<lparr>ni_name = dr_name record, ni_name_len = dr_name_len record, ni_node_type = dr_node_type record,
      ni_size = unat (dr_size record), ni_inode = ucast (dr_first_cluster record)\<rparr>"

definition Fat32Fs_stat :: "'d Fat32Fs \<Rightarrow> 'd \<Rightarrow> bytes \<Rightarrow> (NodeInfo, VfsError) result" where
  "Fat32Fs_stat fs d path =
     (case Fat32Fs_resolve_path fs d path of
        Inl e \<Rightarrow> Err e
      | Inr (Some record) \<Rightarrow> Ok (Fat32Fs_node_info record)
      | Inr None \<Rightarrow>
          Ok \<lparr>ni_name = (replicate MAX_NAME 0)[0 := SLASH], ni_name_len = 1, ni_node_type = Node_Directory,
              ni_size = 0, ni_inode = ucast (ge_root_cluster (ff_geometry fs))\<rparr>)"

definition Fat32Fs_read :: "'d Fat32Fs \<Rightarrow> 'd \<Rightarrow> bytes \<Rightarrow> nat \<Rightarrow> bytes \<Rightarrow> (nat, VfsError) result \<times> bytes" where
  "Fat32Fs_read fs d path offset buffer =
     (case Fat32Fs_resolve_path fs d path of
        Inl e \<Rightarrow> (Err e, buffer)
      | Inr None \<Rightarrow> (Err Vfs_NotAFile, buffer)
      | Inr (Some record) \<Rightarrow> Fat32Fs_read_file fs d record offset buffer)"

definition list_visitor ::
  "DirEntry list \<times> nat \<Rightarrow> DirectoryRecord \<Rightarrow> bool \<times> DirEntry list \<times> nat" where
  "list_visitor v record =
     (case v of (entries, count) \<Rightarrow>
        if count = length entries then (False, (entries, count))
        else (True, (entries[count := \<lparr>de_name = dr_name record, de_name_len = dr_name_len record,
                                       de_node_type = dr_node_type record\<rparr>], count + 1)))"

definition Fat32Fs_readdir ::
  "'d Fat32Fs \<Rightarrow> 'd \<Rightarrow> bytes \<Rightarrow> DirEntry list \<Rightarrow> (nat, VfsError) result \<times> DirEntry list" where
  "Fat32Fs_readdir fs d path entries =
     (let list = (\<lambda>cluster.
            case Fat32Fs_scan_directory fs d cluster list_visitor (entries, 0) of
              (Inl _, (entries, _)) \<Rightarrow> (Err Vfs_IoError, entries)
            | (Inr _, (entries, count)) \<Rightarrow> (Ok count, entries))
      in case Fat32Fs_resolve_path fs d path of
           Inl e \<Rightarrow> (Err e, entries)
         | Inr (Some record) \<Rightarrow>
             if dr_node_type record = Node_Directory then list (dr_first_cluster record)
             else (Err Vfs_NotADirectory, entries)
         | Inr None \<Rightarrow> list (ge_root_cluster (ff_geometry fs)))"

text \<open>The trait for a mounted volume; the state is the volume with the storage hardware.\<close>

definition Fat32Fs_write :: "'s \<Rightarrow> bytes \<Rightarrow> nat \<Rightarrow> bytes \<Rightarrow> ((nat, VfsError) result \<times> 's) option" where
  "Fat32Fs_write s path offset data = Some (Err Vfs_IoError, s)"

definition Fat32Fs_create :: "'s \<Rightarrow> bytes \<Rightarrow> NodeType \<Rightarrow> (unit, VfsError) result \<times> 's" where
  "Fat32Fs_create s path node_type = (Err Vfs_IoError, s)"

definition Fat32Fs_remove :: "'s \<Rightarrow> bytes \<Rightarrow> (unit, VfsError) result \<times> 's" where
  "Fat32Fs_remove s path = (Err Vfs_IoError, s)"

definition Fat32Fs_fs_name :: "'s \<Rightarrow> bytes" where
  "Fat32Fs_fs_name s = ascii ''fat32''"

definition Fat32Fs_ops :: "('d Fat32Fs \<times> 'd) FileSystem" where
  "Fat32Fs_ops = \<lparr>fs_stat = (\<lambda>(fs, d). Fat32Fs_stat fs d), fs_read = (\<lambda>(fs, d). Fat32Fs_read fs d),
     fs_write = Fat32Fs_write, fs_create = Fat32Fs_create, fs_readdir = (\<lambda>(fs, d). Fat32Fs_readdir fs d),
     fs_remove = Fat32Fs_remove, fs_name = Fat32Fs_fs_name\<rparr>"

end
