(* ===== verification/Fat32_Spec.thy ===== *)
theory Fat32_Spec
  imports Fat32
begin

text \<open>
  The geometry of a FAT32 volume: what a mount accepts keeps every sector it computes on the partition
  and on the device, and computes it without wrap-around. The bytes that a readable cluster holds.
\<close>

section \<open>Sound geometry\<close>

definition valid_cluster :: "Fat32Geometry \<Rightarrow> u32 \<Rightarrow> bool" where
  "valid_cluster g c \<longleftrightarrow> 2 \<le> unat c \<and> unat c \<le> unat (ge_cluster_count g) + 1"

text \<open>Of a geometry on a partition of \<^verbatim>\<open>sectors\<close> sectors of a device of \<^verbatim>\<open>blocks\<close> blocks.\<close>

definition geometry_ok :: "Fat32Geometry \<Rightarrow> nat \<Rightarrow> nat \<Rightarrow> bool" where
  "geometry_ok g sectors blocks \<longleftrightarrow>
     0 < unat (ge_sectors_per_cluster g) \<and> unat (ge_sectors_per_cluster g) \<le> 128 \<and>
     unat (ge_cluster_count g) < 2 ^ 32 - 1 \<and> valid_cluster g (ge_root_cluster g) \<and>
     unat (ge_partition_lba g) < unat (ge_fat_lba g) \<and>
     unat (ge_fat_lba g) + ((unat (ge_cluster_count g) + 2) * 4 + 511) div 512 \<le> unat (ge_data_lba g) \<and>
     unat (ge_data_lba g) + unat (ge_cluster_count g) * unat (ge_sectors_per_cluster g) \<le> unat (ge_partition_lba g) + sectors \<and>
     unat (ge_partition_lba g) + sectors \<le> blocks \<and> blocks < 2 ^ 64"

lemma saturating_succ: "unat (saturating_add (c :: u32) 1) = min (unat c + 1) (2 ^ 32 - 1)"
proof -
  have "unat c < 2 ^ LENGTH(32)" by (rule unsigned_less)
  moreover have "unat (- 1 :: u32) = 2 ^ 32 - 1"
  proof -
    have "(- 1 :: u32) = 4294967295" by simp
    then show ?thesis by (simp only:) simp
  qed
  ultimately show ?thesis by (auto simp: saturating_add_def unat_word_ariths min_def)
qed

lemma fat_sectors_cover:
  assumes "cnt + 2 \<le> spf * (128 :: nat)" "0 < n"
  shows "((cnt + 2) * 4 + 511) div 512 \<le> n * spf"
proof -
  have "((cnt + 2) * 4 + 511) div 512 \<le> (spf * 512 + 511) div 512" using assms(1) by (intro div_le_mono) simp
  also have "\<dots> = spf" by simp
  also have "spf \<le> n * spf" using assms(2) by simp
  finally show ?thesis .
qed

text \<open>The number of table entries that the sectors of one table hold, computed in 64 bits.\<close>

lemma fat_entries_of_sectors: "unat (ucast (n :: u32) * (of_nat SECTOR_SIZE div 4) :: u64) = unat n * 128"
proof -
  have "(of_nat SECTOR_SIZE div 4 :: u64) = 128" by (simp add: SECTOR_SIZE_def)
  moreover have "unat n < 2 ^ LENGTH(32)" by (rule unsigned_less)
  ultimately show ?thesis by (simp add: unat_word_ariths unat_ucast_up)
qed

text \<open>What the checks of the mount say about the fields, with \<^verbatim>\<open>fd\<close> the first data sector of the partition.\<close>

lemma geometry_parse_fields:
  fixes boot defines "tot \<equiv> (ucast (Fat32BootSector_total_sectors boot) :: u64)"
  assumes "Fat32Geometry_parse boot plba psec blocks = Ok g"
  obtains fd where "unat fd = unat (bs_reserved_sectors boot) + unat (bs_fat_count boot) * unat (bs_sectors_per_fat_32 boot)"
    "unat fd < unat tot" and "unat plba + unat tot \<le> unat blocks"
    "\<forall>s. psec = Some s \<longrightarrow> unat tot \<le> unat s"
    "bs_sectors_per_cluster boot \<noteq> 0" "\<not> bs_sectors_per_cluster boot > 128" "bs_reserved_sectors boot \<noteq> 0"
      "bs_fat_count boot \<noteq> 0" "\<not> bs_root_cluster boot < 2"
    "\<not> bs_root_cluster boot > saturating_add (ucast ((tot - fd) div ucast (bs_sectors_per_cluster boot)) :: u32) 1"
    "\<not> ucast (bs_sectors_per_fat_32 boot) * (of_nat SECTOR_SIZE div 4) <
        (ucast (ucast ((tot - fd) div ucast (bs_sectors_per_cluster boot)) :: u32) + 2 :: u64)"
    "g = \<lparr>ge_partition_lba = plba, ge_fat_lba = plba + ucast (bs_reserved_sectors boot), ge_data_lba = plba + fd,
      ge_sectors_per_cluster = ucast (bs_sectors_per_cluster boot),
      ge_cluster_count = ucast ((tot - fd) div ucast (bs_sectors_per_cluster boot)), ge_root_cluster = bs_root_cluster boot\<rparr>"
proof -
  obtain fs fd where fs: "checked_mul (ucast (bs_fat_count boot) :: u64) (ucast (bs_sectors_per_fat_32 boot)) = Some fs"
    and fd: "checked_add (ucast (bs_reserved_sectors boot)) fs = Some fd"
    and lt: "\<not> tot \<le> fd" and pend: "\<not> (case checked_add plba tot of None \<Rightarrow> True | Some e \<Rightarrow> e > blocks)"
    and psec: "\<not> (case psec of None \<Rightarrow> False | Some s \<Rightarrow> tot > s)"
    and nz: "bs_sectors_per_cluster boot \<noteq> 0" "\<not> bs_sectors_per_cluster boot > 128" "bs_reserved_sectors boot \<noteq> 0"
      "bs_fat_count boot \<noteq> 0" "\<not> bs_root_cluster boot < 2"
    and root: "\<not> bs_root_cluster boot > saturating_add (ucast ((tot - fd) div ucast (bs_sectors_per_cluster boot)) :: u32) 1"
    and ent: "\<not> ucast (bs_sectors_per_fat_32 boot) * (of_nat SECTOR_SIZE div 4) <
        (ucast (ucast ((tot - fd) div ucast (bs_sectors_per_cluster boot)) :: u32) + 2 :: u64)"
    and g: "g = \<lparr>ge_partition_lba = plba, ge_fat_lba = plba + ucast (bs_reserved_sectors boot), ge_data_lba = plba + fd,
      ge_sectors_per_cluster = ucast (bs_sectors_per_cluster boot),
      ge_cluster_count = ucast ((tot - fd) div ucast (bs_sectors_per_cluster boot)), ge_root_cluster = bs_root_cluster boot\<rparr>"
    using assms(2) by (auto simp: Fat32Geometry_parse_def Let_def tot_def split: if_splits option.splits)
  obtain e where e: "checked_add plba tot = Some e" "\<not> e > blocks" using pend by (auto split: option.splits)
  have "unat fd = unat (bs_reserved_sectors boot) + unat (bs_fat_count boot) * unat (bs_sectors_per_fat_32 boot)"
    using checked_add_SomeD [OF fd] checked_mul_SomeD [OF fs] by (simp add: unat_ucast_up)
  moreover have "unat fd < unat tot" using lt by (simp add: word_le_nat_alt)
  moreover have "unat plba + unat tot \<le> unat blocks" using checked_add_SomeD [OF e(1)] e(2) by (simp add: word_less_nat_alt)
  moreover have "\<forall>s. psec = Some s \<longrightarrow> unat tot \<le> unat s" using psec by (cases psec) (simp_all add: word_less_nat_alt not_less)
  ultimately show thesis using that [OF _ _ _ _ nz root ent g] by blast
qed

lemma geometry_parse_ok:
  assumes "Fat32Geometry_parse boot plba psec blocks = Ok g"
  shows "geometry_ok g (unat (Fat32BootSector_total_sectors boot)) (unat blocks)" "ge_partition_lba g = plba"
    "\<And>s. psec = Some s \<Longrightarrow> unat (Fat32BootSector_total_sectors boot) \<le> unat s"
proof -
  define tot where "tot = (ucast (Fat32BootSector_total_sectors boot) :: u64)"
  define spc where "spc = unat (bs_sectors_per_cluster boot)"
  have tot: "unat tot = unat (Fat32BootSector_total_sectors boot)" "unat tot < 2 ^ 32"
    using unsigned_less [of "Fat32BootSector_total_sectors boot"] by (simp_all add: tot_def unat_ucast_up)
  define spf where "spf = unat (bs_sectors_per_fat_32 boot)"
  obtain fd where fdv: "unat fd = unat (bs_reserved_sectors boot) + unat (bs_fat_count boot) * spf"
    and lt': "unat fd < unat tot" and pe: "unat plba + unat tot \<le> unat blocks"
    and psec: "\<forall>s. psec = Some s \<longrightarrow> unat tot \<le> unat s"
    and nz: "bs_sectors_per_cluster boot \<noteq> 0" "\<not> bs_sectors_per_cluster boot > 128" "bs_reserved_sectors boot \<noteq> 0"
      "bs_fat_count boot \<noteq> 0" "\<not> bs_root_cluster boot < 2"
    and root: "\<not> bs_root_cluster boot > saturating_add (ucast ((tot - fd) div ucast (bs_sectors_per_cluster boot)) :: u32) 1"
    and ent: "\<not> ucast (bs_sectors_per_fat_32 boot) * (of_nat SECTOR_SIZE div 4) <
        (ucast (ucast ((tot - fd) div ucast (bs_sectors_per_cluster boot)) :: u32) + 2 :: u64)"
    and g: "g = \<lparr>ge_partition_lba = plba, ge_fat_lba = plba + ucast (bs_reserved_sectors boot), ge_data_lba = plba + fd,
      ge_sectors_per_cluster = ucast (bs_sectors_per_cluster boot),
      ge_cluster_count = ucast ((tot - fd) div ucast (bs_sectors_per_cluster boot)), ge_root_cluster = bs_root_cluster boot\<rparr>"
    by (rule geometry_parse_fields [OF assms, folded tot_def spf_def])
  define cnt where "cnt = (unat tot - unat fd) div spc"
  have q: "unat ((tot - fd) div ucast (bs_sectors_per_cluster boot)) = cnt"
    using lt' by (simp add: unat_div unat_sub_if' unat_ucast_up spc_def cnt_def word_le_nat_alt)
  have "cnt \<le> unat tot - unat fd" unfolding cnt_def by simp
  moreover have pos: "0 < unat (bs_reserved_sectors boot)" "0 < unat (bs_fat_count boot)" "0 < spc"
    using nz by (simp_all add: unat_gt_0 spc_def)
  ultimately have cnt: "cnt < 2 ^ 32 - 1" using tot(2) lt' fdv by linarith
  have c32: "unat (ucast ((tot - fd) div ucast (bs_sectors_per_cluster boot)) :: u32) = cnt"
    using q cnt by (simp add: unat_ucast_small)
  show "ge_partition_lba g = plba" by (simp add: g)
  show "unat (Fat32BootSector_total_sectors boot) \<le> unat s" if "psec = Some s" for s
    using psec that tot(1) by simp
  show "geometry_ok g (unat (Fat32BootSector_total_sectors boot)) (unat blocks)"
  proof -
    have bl: "unat blocks < 2 ^ LENGTH(64)" by (rule unsigned_less)
    have l1: "unat (plba + ucast (bs_reserved_sectors boot)) = unat plba + unat (bs_reserved_sectors boot)"
      using pe bl lt' fdv by (simp add: unat_add_lem [THEN iffD1] unat_ucast_up)
    have l2: "unat (plba + fd) = unat plba + unat fd" using pe bl lt' by (simp add: unat_add_lem [THEN iffD1])
    have "unat (ucast (ucast ((tot - fd) div ucast (bs_sectors_per_cluster boot)) :: u32) + 2 :: u64) = cnt + 2"
      using c32 cnt by (simp add: unat_word_ariths unat_ucast_up)
    then have "cnt + 2 \<le> spf * 128"
      using ent by (simp only: word_less_nat_alt not_less fat_entries_of_sectors spf_def)
    then have fat: "((cnt + 2) * 4 + 511) div 512 \<le> unat (bs_fat_count boot) * spf" by (rule fat_sectors_cover) (rule pos(2))
    have "cnt * spc \<le> unat tot - unat fd" by (simp add: cnt_def)
    then have data: "unat plba + unat fd + cnt * spc \<le> unat plba + unat tot" using lt' by linarith
    have "spc \<le> 128" using nz(2) by (simp add: spc_def word_less_nat_alt)
    moreover have "2 \<le> unat (bs_root_cluster boot)" using nz(5) by (simp add: word_less_nat_alt)
    moreover have "unat (bs_root_cluster boot) \<le> cnt + 1"
      using root saturating_succ [of "ucast ((tot - fd) div ucast (bs_sectors_per_cluster boot))"] cnt
      by (simp add: word_less_nat_alt not_less c32)
    ultimately show ?thesis
      unfolding geometry_ok_def valid_cluster_def g using pos c32 cnt l1 l2 fat data pe bl fdv tot(1)
      by (simp add: unat_ucast_up spc_def)
  qed
qed

text \<open>Every sector of a valid cluster, and the FAT sector of every valid cluster, lie on the partition.\<close>

lemma valid_cluster_iff:
  assumes "geometry_ok g sectors blocks"
  shows "\<not> (c < 2 \<or> c > saturating_add (ge_cluster_count g) 1) \<longleftrightarrow> valid_cluster g c"
proof -
  have "unat (saturating_add (ge_cluster_count g) 1) = unat (ge_cluster_count g) + 1"
    using assms by (simp add: saturating_succ geometry_ok_def)
  then show ?thesis by (auto simp: valid_cluster_def word_less_nat_alt not_less)
qed

lemma cluster_lba_ok:
  assumes ok: "geometry_ok g sectors blocks" and c: "valid_cluster g c"
  shows "\<exists>lba. Fat32Geometry_cluster_lba g c = Ok lba \<and>
    unat lba = unat (ge_data_lba g) + (unat c - 2) * unat (ge_sectors_per_cluster g) \<and>
    unat lba + unat (ge_sectors_per_cluster g) \<le> unat (ge_partition_lba g) + sectors"
proof -
  note G = ok [unfolded geometry_ok_def]
  let ?s = "unat (ge_sectors_per_cluster g)" and ?n = "unat (ge_cluster_count g)" and ?k = "unat c - 2"
  have k: "?k + 1 \<le> ?n" using c by (auto simp: valid_cluster_def)
  then have "(?k + 1) * ?s \<le> ?n * ?s" by (rule mult_le_mono1)
  then have ub: "unat (ge_data_lba g) + ?k * ?s + ?s \<le> unat (ge_partition_lba g) + sectors" using G by simp
  have c2: "unat (c - 2) = ?k" using c by (simp add: valid_cluster_def unat_sub_if' word_le_nat_alt)
  have u: "unat (ucast (c - 2) :: u64) = ?k" "unat (ucast (ge_sectors_per_cluster g) :: u64) = ?s"
    by (simp_all add: unat_ucast_up c2)
  have "unat (ge_data_lba g) + ?k * ?s < 2 ^ 64" using ub G by linarith
  then have "unat (ge_data_lba g + ucast (c - 2) * ucast (ge_sectors_per_cluster g)) = unat (ge_data_lba g) + ?k * ?s"
    by (simp add: unat_word_ariths u)
  then show ?thesis using ub valid_cluster_iff [OF ok, of c] c by (simp add: Fat32Geometry_cluster_lba_def)
qed

lemma fat_sector_ok:
  assumes ok: "geometry_ok g sectors blocks" and c: "valid_cluster g c"
  shows "unat (ge_fat_lba g + ucast c * 4 div of_nat SECTOR_SIZE) = unat (ge_fat_lba g) + unat c * 4 div 512"
    "unat (ge_fat_lba g) + unat c * 4 div 512 < unat (ge_data_lba g)"
    "unat ((ucast c * 4 :: u64) mod of_nat SECTOR_SIZE) + 4 \<le> 512"
proof -
  note G = ok [unfolded geometry_ok_def]
  have c': "unat c + 1 \<le> unat (ge_cluster_count g) + 2" using c by (simp add: valid_cluster_def)
  have "unat c * 4 div 512 + 1 = (unat c * 4 + 512) div 512" by simp
  also have "\<dots> \<le> ((unat (ge_cluster_count g) + 2) * 4 + 511) div 512" using c' by (intro div_le_mono) simp
  finally show lt: "unat (ge_fat_lba g) + unat c * 4 div 512 < unat (ge_data_lba g)" using G by linarith
  have "unat c < 2 ^ LENGTH(32)" by (rule unsigned_less)
  then have m: "unat (ucast c * 4 :: u64) = unat c * 4" by (simp add: unat_word_ariths unat_ucast_up)
  have d: "unat (ucast c * 4 div of_nat SECTOR_SIZE :: u64) = unat c * 4 div 512"
    by (simp add: unat_div m SECTOR_SIZE_def)
  have "unat (ge_data_lba g) < 2 ^ LENGTH(64)" by (rule unsigned_less)
  then show "unat (ge_fat_lba g + ucast c * 4 div of_nat SECTOR_SIZE) = unat (ge_fat_lba g) + unat c * 4 div 512"
    using lt d unat_add_no_wrap [of "ge_fat_lba g" "ucast c * 4 div of_nat SECTOR_SIZE"] by simp
  have "unat ((ucast c * 4 :: u64) mod of_nat SECTOR_SIZE) = unat c * 4 mod 512" by (simp add: unat_mod m SECTOR_SIZE_def)
  moreover have "unat c * 4 mod 512 = (unat c mod 128) * 4" using mult_mod_left [of "unat c" 128 4] by simp
  ultimately show "unat ((ucast c * 4 :: u64) mod of_nat SECTOR_SIZE) + 4 \<le> 512"
    using mod_less_divisor [of 128 "unat c"] by linarith
qed

lemma try_partitions_ok:
  assumes "try_partitions device d sector is = Ok fs"
  shows "\<exists>sectors. geometry_ok (ff_geometry fs) sectors (unat (bi_block_count (bh_info device))) \<and> ff_device fs = device"
  using assms
proof (induction "is")
  case (Cons i "is")
  then show ?case
    by (auto simp: Let_def split: option.splits if_splits sum.splits dest!: geometry_parse_ok(1))
qed simp

lemma from_device_ok:
  assumes "Fat32Fs_from_device device d = Ok fs"
  shows "\<exists>sectors. geometry_ok (ff_geometry fs) sectors (unat (bi_block_count (bh_info device)))" "ff_device fs = device"
  using assms try_partitions_ok [of device d]
  by (auto simp: Fat32Fs_from_device_def Let_def split: option.splits if_splits sum.splits dest!: geometry_parse_ok(1))

end
