(* ===== verification/Fat32_Read.thy ===== *)
theory Fat32_Read
  imports Fat32_Spec
begin

text \<open>
  Reading a file of a FAT32 volume, the sector, cluster and skip loops included, equals a slice of the
  bytes that the cluster chain of its directory record denotes.
\<close>

declare read_clusters.simps [simp del] scan_clusters.simps [simp del]

section \<open>Buffers filled piecewise\<close>

lemma splice_append:
  assumes "off + length xs + length ys \<le> length buf"
  shows "splice (splice buf off xs) (off + length xs) ys = splice buf off (xs @ ys)"
  using assms by (simp add: splice_def ac_simps)

lemma slice_split:
  assumes "so + m = length s \<or> k = 0" "so + m \<le> length s"
  shows "slice so (m + k) (s @ t) = slice so m s @ slice 0 k t"
proof (cases "k = 0")
  case False
  then have "m + k - (length s - so) = k" "so \<le> length s" using assms by linarith+
  then show ?thesis using assms False by (simp add: slice_def)
qed (use assms(2) in \<open>simp add: slice_def\<close>)

lemma length_slice_le: "length (slice a n xs) \<le> n"
  by (simp add: slice_def)

lemma slice_take: "a + n \<le> k \<Longrightarrow> slice a n (take k xs) = slice a n xs"
  by (simp add: slice_def drop_take min_def)

lemma slice_drop: "slice a n (drop k xs) = slice (k + a) n xs"
  by (simp add: slice_def add.commute)

lemma drop_blocks:
  assumes "\<And>c. c \<in> set cs \<Longrightarrow> length (f c) = z"
  shows "drop (k * z) (concat (map f cs)) = concat (map f (drop k cs))"
  using assms
proof (induction cs arbitrary: k)
  case (Cons c cs)
  then show ?case by (cases k) auto
qed simp

lemma length_blocks:
  assumes "\<And>c. c \<in> set cs \<Longrightarrow> length (f c) = z"
  shows "length (concat (map f cs)) = length cs * z"
  using assms by (induction cs) auto

section \<open>The bytes of a cluster and of a chain\<close>

definition sector_at :: "'d Fat32Fs \<Rightarrow> 'd \<Rightarrow> u64 \<Rightarrow> bytes" where
  "sector_at fs d lba = (case Fat32Fs_read_sector fs d lba of Inl _ \<Rightarrow> [] | Inr s \<Rightarrow> s)"

definition sectors_of :: "'d Fat32Fs \<Rightarrow> nat" where
  "sectors_of fs = unat (ge_sectors_per_cluster (ff_geometry fs))"

definition cluster_readable :: "'d Fat32Fs \<Rightarrow> 'd \<Rightarrow> u32 \<Rightarrow> bool" where
  "cluster_readable fs d c =
     (case Fat32Geometry_cluster_lba (ff_geometry fs) c of
        Inl _ \<Rightarrow> False
      | Inr lba \<Rightarrow> list_all (\<lambda>i. case Fat32Fs_read_sector fs d (lba + of_nat i) of
            Inl _ \<Rightarrow> False | Inr s \<Rightarrow> length s = SECTOR_SIZE) [0..<sectors_of fs])"

definition cluster_data :: "'d Fat32Fs \<Rightarrow> 'd \<Rightarrow> u32 \<Rightarrow> bytes" where
  "cluster_data fs d c =
     (case Fat32Geometry_cluster_lba (ff_geometry fs) c of
        Inl _ \<Rightarrow> []
      | Inr lba \<Rightarrow> concat (map (\<lambda>i. sector_at fs d (lba + of_nat i)) [0..<sectors_of fs]))"

text \<open>The first \<^verbatim>\<open>n\<close> clusters of the chain that starts at a cluster.\<close>

fun chain :: "'d Fat32Fs \<Rightarrow> 'd \<Rightarrow> nat \<Rightarrow> u32 \<Rightarrow> u32 list option" where
  "chain fs d 0 c = Some []"
| "chain fs d (Suc 0) c = Some [c]"
| "chain fs d (Suc (Suc n)) c =
     (case Fat32Fs_next_cluster fs d c of
        Inr (Some c') \<Rightarrow> map_option (Cons c) (chain fs d (Suc n) c')
      | _ \<Rightarrow> None)"

definition linked :: "'d Fat32Fs \<Rightarrow> 'd \<Rightarrow> u32 list \<Rightarrow> bool" where
  "linked fs d cs \<longleftrightarrow> (\<forall>i. Suc i < length cs \<longrightarrow> Fat32Fs_next_cluster fs d (cs ! i) = Ok (Some (cs ! Suc i)))"

lemma chain_linked: "chain fs d n c = Some cs \<Longrightarrow> length cs = n \<and> linked fs d cs \<and> (cs \<noteq> [] \<longrightarrow> hd cs = c)"
proof (induction fs d n c arbitrary: cs rule: chain.induct)
  case (3 fs d n c)
  then obtain c' cs' where s: "Fat32Fs_next_cluster fs d c = Inr (Some c')" "chain fs d (Suc n) c' = Some cs'" "cs = c # cs'"
    by (auto split: sum.splits option.splits)
  with 3(1) [OF s(1) refl] have I: "length cs' = Suc n" "linked fs d cs'" "hd cs' = c'" by fastforce+
  then have "cs' ! 0 = c'" by (cases cs') auto
  then show ?case using I s by (auto simp: linked_def nth_Cons split: nat.splits)
qed (auto simp: linked_def)

lemma linked_Cons: "linked fs d (c # c' # cs) \<longleftrightarrow> Fat32Fs_next_cluster fs d c = Ok (Some c') \<and> linked fs d (c' # cs)"
  by (auto simp: linked_def nth_Cons split: nat.splits)

lemma linked_drop: "linked fs d cs \<Longrightarrow> linked fs d (drop k cs)"
  by (auto simp: linked_def)

section \<open>The loops\<close>

lemma read_sectors_step:
  assumes "Fat32Fs_read_sector fs d (lba + of_nat a) = Ok s" "a < b" "m = min (SECTOR_SIZE - so) (wanted - w)"
  shows "read_sectors fs d lba wanted [a..<b] so w buf =
    (if w + m = wanted then (Ok wanted, splice buf w (slice so m s))
     else read_sectors fs d lba wanted [Suc a..<b] 0 (w + m) (splice buf w (slice so m s)))"
  using assms by (simp add: upt_conv_Cons Let_def)

definition sector_run :: "'d Fat32Fs \<Rightarrow> 'd \<Rightarrow> u64 \<Rightarrow> nat \<Rightarrow> nat \<Rightarrow> bytes" where
  "sector_run fs d lba a b = concat (map (\<lambda>i. sector_at fs d (lba + of_nat i)) [a..<b])"

lemma sector_run_Cons:
  "a < b \<Longrightarrow> Fat32Fs_read_sector fs d (lba + of_nat a) = Ok s \<Longrightarrow>
     sector_run fs d lba a b = s @ sector_run fs d lba (Suc a) b"
  by (simp add: sector_run_def upt_conv_Cons sector_at_def)

lemma read_sectors_slice:
  assumes "\<And>i. a \<le> i \<Longrightarrow> i < b \<Longrightarrow> \<exists>s. Fat32Fs_read_sector fs d (lba + of_nat i) = Ok s \<and> length s = SECTOR_SIZE"
    and "a \<le> b" "so < SECTOR_SIZE" "w < wanted" "wanted \<le> length buf" "a < b \<or> so = 0"
    and "n = min ((b - a) * SECTOR_SIZE - so) (wanted - w)"
  shows "read_sectors fs d lba wanted [a..<b] so w buf = (Ok (w + n), splice buf w (slice so n (sector_run fs d lba a b)))"
  using assms
proof (induction "b - a" arbitrary: a so w buf n)
  case 0
  then show ?case by simp
next
  case (Suc k)
  then have ab: "a < b" by simp
  obtain s where s: "Fat32Fs_read_sector fs d (lba + of_nat a) = Ok s" "length s = SECTOR_SIZE"
    using Suc.prems(1) [of a] ab by auto
  define m where "m = min (SECTOR_SIZE - so) (wanted - w)"
  define buf' where "buf' = splice buf w (slice so m s)"
  note step = read_sectors_step [OF s(1) ab m_def, of buf, folded buf'_def] and run = sector_run_Cons [OF ab s(1)]
  have lm: "length (slice so m s) = m" "so + m \<le> length s" using s(2) Suc.prems(3) by (simp_all add: m_def)
  have blocks: "(b - a) * SECTOR_SIZE = SECTOR_SIZE + (b - Suc a) * SECTOR_SIZE"
    using ab by (metis Suc_diff_Suc mult_Suc)
  show ?case
  proof (cases "w + m = wanted")
    case True
    then have n: "n = m" using Suc.prems(4,7) blocks by (simp add: m_def)
    have "slice so m (s @ sector_run fs d lba (Suc a) b) = slice so m s" using slice_split [of so m s 0] lm by simp
    then show ?thesis using True step n run by (simp add: buf'_def)
  next
    case False
    have m: "m = SECTOR_SIZE - so" "w + m < wanted" using False Suc.prems(3,4) by (auto simp: m_def)
    define r where "r = min ((b - Suc a) * SECTOR_SIZE - 0) (wanted - (w + m))"
    have "length buf' = length buf" using lm Suc.prems(5) m(2) by (simp add: buf'_def)
    then have IH: "read_sectors fs d lba wanted [Suc a..<b] 0 (w + m) buf' =
        (Ok (w + m + r), splice buf' (w + m) (slice 0 r (sector_run fs d lba (Suc a) b)))"
      using Suc.hyps(1) [of "Suc a" 0 "w + m" buf' r] Suc.hyps(2) Suc.prems(1,5) ab m(2) r_def
      by (simp add: SECTOR_SIZE_def)
    have n: "n = m + r" using Suc.prems(3,7) blocks m unfolding r_def by linarith
    have sp: "slice so n (sector_run fs d lba a b) = slice so m s @ slice 0 r (sector_run fs d lba (Suc a) b)"
      unfolding run n by (rule slice_split) (use s(2) m(1) Suc.prems(3) lm in auto)
    have "length (slice 0 r (sector_run fs d lba (Suc a) b)) \<le> r" "r \<le> wanted - (w + m)"
      by (rule length_slice_le) (simp add: r_def)
    then have "w + length (slice so m s) + length (slice 0 r (sector_run fs d lba (Suc a) b)) \<le> length buf"
      using lm(1) Suc.prems(5) m(2) by linarith
    from splice_append [OF this] show ?thesis using False step IH sp n lm by (simp add: buf'_def add.assoc)
  qed
qed

lemma cluster_readableD:
  assumes "cluster_readable fs d c"
  obtains lba where "Fat32Geometry_cluster_lba (ff_geometry fs) c = Ok lba"
    "\<forall>i < sectors_of fs. \<exists>s. Fat32Fs_read_sector fs d (lba + of_nat i) = Ok s \<and> length s = SECTOR_SIZE"
    "cluster_data fs d c = sector_run fs d lba 0 (sectors_of fs)"
proof (cases "Fat32Geometry_cluster_lba (ff_geometry fs) c")
  case (Inr lba)
  show ?thesis
  proof (rule that [OF Inr])
    show "\<forall>i < sectors_of fs. \<exists>s. Fat32Fs_read_sector fs d (lba + of_nat i) = Ok s \<and> length s = SECTOR_SIZE"
    proof (intro allI impI)
      fix i
      assume "i < sectors_of fs"
      then show "\<exists>s. Fat32Fs_read_sector fs d (lba + of_nat i) = Ok s \<and> length s = SECTOR_SIZE"
        using assms Inr
        by (cases "Fat32Fs_read_sector fs d (lba + of_nat i)") (force simp: cluster_readable_def list_all_iff)+
    qed
  qed (simp add: cluster_data_def Inr sector_run_def)
qed (use assms in \<open>simp add: cluster_readable_def\<close>)

lemma length_sector_run:
  assumes "\<And>i. a \<le> i \<Longrightarrow> i < b \<Longrightarrow> \<exists>s. Fat32Fs_read_sector fs d (lba + of_nat i) = Ok s \<and> length s = SECTOR_SIZE"
  shows "length (sector_run fs d lba a b) = (b - a) * SECTOR_SIZE"
proof -
  have "length (sector_at fs d (lba + of_nat i)) = SECTOR_SIZE" if "i \<in> set [a..<b]" for i
    using assms [of i] that by (auto simp: sector_at_def)
  then show ?thesis unfolding sector_run_def using length_blocks [of "[a..<b]" "\<lambda>i. sector_at fs d (lba + of_nat i)"] by simp
qed

lemma length_cluster_data: "cluster_readable fs d c \<Longrightarrow> length (cluster_data fs d c) = cluster_size fs"
  by (elim cluster_readableD) (simp add: length_sector_run cluster_size_def sectors_of_def)

lemma sector_run_drop:
  assumes "\<And>i. i < b \<Longrightarrow> \<exists>s. Fat32Fs_read_sector fs d (lba + of_nat i) = Ok s \<and> length s = SECTOR_SIZE"
  shows "drop (a * SECTOR_SIZE) (sector_run fs d lba 0 b) = sector_run fs d lba a b"
proof -
  have "length (sector_at fs d (lba + of_nat i)) = SECTOR_SIZE" if "i \<in> set [0..<b]" for i
    using assms [of i] that by (auto simp: sector_at_def)
  then have "drop (a * SECTOR_SIZE) (concat (map (\<lambda>i. sector_at fs d (lba + of_nat i)) [0..<b])) =
      concat (map (\<lambda>i. sector_at fs d (lba + of_nat i)) (drop a [0..<b]))" by (rule drop_blocks)
  then show ?thesis by (simp add: sector_run_def)
qed

text \<open>One cluster, read from an offset in it.\<close>

lemma read_cluster_slice:
  assumes "cluster_readable fs d c" "co < cluster_size fs" "w < wanted" "wanted \<le> length buf"
    and "n = min (cluster_size fs - co) (wanted - w)" "Fat32Geometry_cluster_lba (ff_geometry fs) c = Ok lba"
  shows "read_sectors fs d lba wanted [co div SECTOR_SIZE..<unat (ge_sectors_per_cluster (ff_geometry fs))]
      (co mod SECTOR_SIZE) w buf = (Ok (w + n), splice buf w (slice co n (cluster_data fs d c)))"
proof -
  let ?a = "co div SECTOR_SIZE" and ?so = "co mod SECTOR_SIZE"
  obtain lba' where l: "Fat32Geometry_cluster_lba (ff_geometry fs) c = Ok lba'"
    "\<forall>i < sectors_of fs. \<exists>s. Fat32Fs_read_sector fs d (lba' + of_nat i) = Ok s \<and> length s = SECTOR_SIZE"
    "cluster_data fs d c = sector_run fs d lba' 0 (sectors_of fs)" by (rule cluster_readableD [OF assms(1)])
  have "lba' = lba" using l(1) assms(6) by simp
  note rd = l(2) [unfolded this, rule_format] and cd = l(3) [unfolded this]
  have pos: "0 < SECTOR_SIZE" by (simp add: SECTOR_SIZE_def)
  have a: "?a < sectors_of fs" using assms(2) pos by (simp add: cluster_size_def sectors_of_def div_less_iff_less_mult)
  have so: "?so < SECTOR_SIZE" using pos by simp
  have co: "co = ?a * SECTOR_SIZE + ?so" by simp
  have "(sectors_of fs - ?a) * SECTOR_SIZE - ?so = cluster_size fs - co"
    by (simp add: cluster_size_def sectors_of_def diff_mult_distrib)
  then have n: "n = min ((sectors_of fs - ?a) * SECTOR_SIZE - ?so) (wanted - w)" using assms(5) by simp
  have "slice ?so n (sector_run fs d lba ?a (sectors_of fs)) = slice co n (cluster_data fs d c)"
  proof -
    have "drop (?a * SECTOR_SIZE) (sector_run fs d lba 0 (sectors_of fs)) = sector_run fs d lba ?a (sectors_of fs)"
      by (rule sector_run_drop) (rule rd)
    then show ?thesis unfolding cd using slice_drop [of ?so n "?a * SECTOR_SIZE" "sector_run fs d lba 0 (sectors_of fs)"] by simp
  qed
  then show ?thesis
    using read_sectors_slice [of ?a "sectors_of fs" fs d lba ?so w wanted buf n] rd a so assms(3,4) n
    by (simp add: sectors_of_def)
qed

lemma read_clusters_slice:
  assumes "cs \<noteq> []" "linked fs d cs" "\<And>c. c \<in> set cs \<Longrightarrow> cluster_readable fs d c"
    and "co < cluster_size fs" "w < wanted" "wanted \<le> length buf" "wanted - w \<le> length cs * cluster_size fs - co"
    and "traversed + length cs \<le> unat (ge_cluster_count (ff_geometry fs)) + 1"
  shows "read_clusters fs d wanted (hd cs) co traversed w buf =
    (Ok wanted, splice buf w (slice co (wanted - w) (concat (map (cluster_data fs d) cs))))"
  using assms
proof (induction cs arbitrary: co w buf traversed)
  case (Cons c cs)
  obtain lba where lba: "Fat32Geometry_cluster_lba (ff_geometry fs) c = Ok lba"
    using cluster_readableD [OF Cons.prems(3) [of c]] by auto
  define n where "n = min (cluster_size fs - co) (wanted - w)"
  define buf' where "buf' = splice buf w (slice co n (cluster_data fs d c))"
  have rd: "read_sectors fs d lba wanted [co div SECTOR_SIZE..<unat (ge_sectors_per_cluster (ff_geometry fs))]
      (co mod SECTOR_SIZE) w buf = (Ok (w + n), buf')"
    unfolding buf'_def by (rule read_cluster_slice [OF _ _ _ _ n_def lba]) (use Cons.prems in auto)
  have len: "length (cluster_data fs d c) = cluster_size fs" by (rule length_cluster_data) (simp add: Cons.prems(3))
  have ln: "length (slice co n (cluster_data fs d c)) = n" using len Cons.prems(4) by (simp add: n_def)
  note step = read_clusters.simps [of fs d wanted c co traversed w buf]
  show ?case
  proof (cases "w + n = wanted")
    case True
    then have "slice co (wanted - w) (concat (map (cluster_data fs d) (c # cs))) = slice co n (cluster_data fs d c)"
      using slice_split [of co n "cluster_data fs d c" 0] len Cons.prems(4) by (simp add: n_def)
    then show ?thesis using step True rd lba Cons.prems(5) by (simp add: buf'_def)
  next
    case False
    have n: "n = cluster_size fs - co" "w + n < wanted" using False Cons.prems(5) by (auto simp: n_def)
    have "cs \<noteq> []" using Cons.prems(7) n by auto
    then obtain c' cs' where cs: "cs = c' # cs'" by (cases cs) auto
    have next_c: "Fat32Fs_next_cluster fs d c = Ok (Some c')" using Cons.prems(2) by (simp add: cs linked_Cons)
    have lb: "length buf' = length buf" using ln Cons.prems(6) n(2) by (simp add: buf'_def)
    have "0 < cluster_size fs" using Cons.prems(4) by simp
    then have IH: "read_clusters fs d wanted c' 0 (traversed + 1) (w + n) buf' =
      (Ok wanted, splice buf' (w + n) (slice 0 (wanted - (w + n)) (concat (map (cluster_data fs d) cs))))"
      using Cons.IH [of 0 "w + n" buf' "traversed + 1"] Cons.prems n cs lb by (simp add: linked_Cons)
    have "slice co (n + (wanted - (w + n))) (concat (map (cluster_data fs d) (c # cs))) =
      slice co n (cluster_data fs d c) @ slice 0 (wanted - (w + n)) (concat (map (cluster_data fs d) cs))"
      unfolding list.map concat.simps by (rule slice_split) (use len n(1) Cons.prems(4) in auto)
    moreover have "n + (wanted - (w + n)) = wanted - w" using n(2) by simp
    moreover have "splice buf' (w + n) (slice 0 (wanted - (w + n)) (concat (map (cluster_data fs d) cs))) =
      splice buf w (slice co n (cluster_data fs d c) @ slice 0 (wanted - (w + n)) (concat (map (cluster_data fs d) cs)))"
      using splice_append [of w "slice co n (cluster_data fs d c)" _ buf] ln n(2) Cons.prems(6)
      by (simp add: buf'_def slice_def)
    ultimately show ?thesis
      using step False rd lba next_c IH Cons.prems(5,8) cs by simp
  qed
qed simp

lemma skip_clusters_nth:
  assumes "linked fs d cs" "k < length cs" "traversed + k \<le> unat (ge_cluster_count (ff_geometry fs))"
  shows "skip_clusters fs d k (cs ! 0) traversed = Ok (cs ! k, traversed + k)"
  using assms
proof (induction k arbitrary: cs traversed)
  case (Suc k)
  then obtain c c' cs' where cs: "cs = c # c' # cs'" by (cases cs; cases "tl cs") auto
  have "linked fs d (c' # cs')" "Fat32Fs_next_cluster fs d c = Ok (Some c')" using Suc.prems(1) by (simp_all add: cs linked_Cons)
  then show ?case using Suc.IH [of "c' # cs'" "traversed + 1"] Suc.prems(2,3) by (simp add: cs)
qed simp

section \<open>The bytes of a file\<close>

definition clusters_needed :: "'d Fat32Fs \<Rightarrow> DirectoryRecord \<Rightarrow> nat" where
  "clusters_needed fs record = (unat (dr_size record) + cluster_size fs - 1) div cluster_size fs"

text \<open>
  The contents a record denotes: the bytes along its chain, cut at the size, when the chain is long
  enough and its sectors can be read.
\<close>

definition file_bytes :: "'d Fat32Fs \<Rightarrow> 'd \<Rightarrow> DirectoryRecord \<Rightarrow> bytes option" where
  "file_bytes fs d record =
     (if clusters_needed fs record > unat (ge_cluster_count (ff_geometry fs)) then None
      else case chain fs d (clusters_needed fs record) (dr_first_cluster record) of
        None \<Rightarrow> None
      | Some cs \<Rightarrow>
          if list_all (cluster_readable fs d) cs then
            Some (take (unat (dr_size record)) (concat (map (cluster_data fs d) cs)))
          else None)"

lemma readable_valid: "cluster_readable fs d c \<Longrightarrow> \<not> c < 2"
  by (auto simp: cluster_readable_def Fat32Geometry_cluster_lba_def split: if_splits)

lemma clusters_needed_covers:
  assumes "0 < cluster_size fs"
  shows "unat (dr_size record) \<le> clusters_needed fs record * cluster_size fs"
proof -
  let ?s = "unat (dr_size record)" and ?z = "cluster_size fs"
  have "(?s + ?z - 1) mod ?z < ?z" using assms by simp
  moreover have "(?s + ?z - 1) div ?z * ?z + (?s + ?z - 1) mod ?z = ?s + ?z - 1" by (rule div_mult_mod_eq)
  ultimately show ?thesis unfolding clusters_needed_def by linarith
qed

lemma file_bytesD:
  assumes z: "0 < cluster_size fs" and bytes: "file_bytes fs d record = Some data"
  obtains cs where "length cs = clusters_needed fs record" "clusters_needed fs record \<le> unat (ge_cluster_count (ff_geometry fs))"
    "linked fs d cs" "cs \<noteq> [] \<longrightarrow> hd cs = dr_first_cluster record" "\<forall>c \<in> set cs. cluster_readable fs d c"
    "data = take (unat (dr_size record)) (concat (map (cluster_data fs d) cs))"
    "unat (dr_size record) \<le> length cs * cluster_size fs" "length data = unat (dr_size record)"
proof -
  obtain cs where few: "clusters_needed fs record \<le> unat (ge_cluster_count (ff_geometry fs))"
    and ch: "chain fs d (clusters_needed fs record) (dr_first_cluster record) = Some cs"
    and rd: "\<forall>c \<in> set cs. cluster_readable fs d c"
    and data: "data = take (unat (dr_size record)) (concat (map (cluster_data fs d) cs))"
    using bytes by (auto simp: file_bytes_def list_all_iff split: if_splits option.splits)
  have cs: "length cs = clusters_needed fs record" "linked fs d cs" "cs \<noteq> [] \<longrightarrow> hd cs = dr_first_cluster record"
    using chain_linked [OF ch] by auto
  have all: "length (concat (map (cluster_data fs d) cs)) = length cs * cluster_size fs"
    by (rule length_blocks) (rule length_cluster_data [OF bspec [OF rd]])
  have cover: "unat (dr_size record) \<le> length cs * cluster_size fs" using clusters_needed_covers [OF z] cs(1) by simp
  then have "length data = unat (dr_size record)" using all data by simp
  then show ?thesis using that [OF cs(1) few cs(2,3) rd data cover] by blast
qed

lemma read_from_cluster:
  assumes "0 < cluster_size fs" "linked fs d cs" "\<And>c. c \<in> set cs \<Longrightarrow> cluster_readable fs d c"
    and "k < length cs" "length cs \<le> unat (ge_cluster_count (ff_geometry fs))" "off div cluster_size fs = k"
    and w: "0 < wanted" "wanted \<le> length buf" "off + wanted \<le> n" "n \<le> length cs * cluster_size fs"
  shows "read_clusters fs d wanted (cs ! k) (off mod cluster_size fs) k 0 buf =
    (Ok wanted, splice buf 0 (slice off wanted (take n (concat (map (cluster_data fs d) cs)))))"
proof -
  let ?z = "cluster_size fs"
  have km: "k * ?z + off mod ?z = off" unfolding assms(6) [symmetric] by (rule div_mult_mod_eq)
  have "(length cs - k) * ?z = length cs * ?z - k * ?z" by (rule diff_mult_distrib)
  then have enough: "wanted - 0 \<le> (length cs - k) * ?z - off mod ?z" using w(3,4) km by linarith
  have rd: "\<And>c. c \<in> set (drop k cs) \<Longrightarrow> cluster_readable fs d c" by (rule assms(3)) (rule in_set_dropD)
  have "read_clusters fs d wanted (hd (drop k cs)) (off mod ?z) k 0 buf =
    (Ok wanted, splice buf 0 (slice (off mod ?z) (wanted - 0) (concat (map (cluster_data fs d) (drop k cs)))))"
    by (rule read_clusters_slice)
      (use assms(1,2,4,5) w(1,2) enough rd in \<open>auto intro: linked_drop\<close>)
  moreover have "concat (map (cluster_data fs d) (drop k cs)) = drop (k * ?z) (concat (map (cluster_data fs d) cs))"
    by (rule drop_blocks [symmetric]) (rule length_cluster_data [OF assms(3)])
  moreover have "slice off wanted (take n (concat (map (cluster_data fs d) cs))) = slice off wanted (concat (map (cluster_data fs d) cs))"
    using w(3) by (simp add: slice_take)
  ultimately show ?thesis using assms(4) km by (simp add: slice_drop hd_drop_conv_nth)
qed

lemma read_file_slice:
  assumes z: "0 < cluster_size fs" and is_file: "dr_node_type record = Node_File" and bytes: "file_bytes fs d record = Some data"
  shows "Fat32Fs_read_file fs d record off buf =
    (Ok (read_count data off (length buf)), splice buf 0 (slice off (read_count data off (length buf)) data))"
proof -
  let ?z = "cluster_size fs" and ?size = "unat (dr_size record)"
  obtain cs where cs: "length cs = clusters_needed fs record"
      "clusters_needed fs record \<le> unat (ge_cluster_count (ff_geometry fs))" "linked fs d cs"
      "cs \<noteq> [] \<longrightarrow> hd cs = dr_first_cluster record" and rds: "\<forall>c \<in> set cs. cluster_readable fs d c"
    and data: "data = take ?size (concat (map (cluster_data fs d) cs))"
    and cover: "?size \<le> length cs * ?z" and len: "length data = ?size"
    by (rule file_bytesD [OF z bytes])
  note rd = bspec [OF rds]
  show ?thesis
  proof (cases "off \<ge> ?size \<or> buf = []")
    case True
    then have "read_count data off (length buf) = 0" using len by (auto simp: read_count_def)
    then show ?thesis using True is_file by (auto simp: Fat32Fs_read_file_def)
  next
    case False
    define k where "k = off div ?z"
    define wanted where "wanted = min (length buf) (?size - off)"
    have off: "off < length cs * ?z" using False cover by linarith
    then have k: "k < length cs" by (simp add: k_def less_mult_imp_div_less)
    have ne: "cs \<noteq> []" using k by auto
    have first: "cs ! 0 = dr_first_cluster record" using cs(4) ne by (simp add: hd_conv_nth)
    have "dr_first_cluster record \<in> set cs" using first ne by (metis length_greater_0_conv nth_mem)
    then have n2: "\<not> dr_first_cluster record < 2" by (rule readable_valid [OF rd])
    have skip: "skip_clusters fs d k (dr_first_cluster record) 0 = Ok (cs ! k, k)"
      using skip_clusters_nth [OF cs(3) k, of 0] first cs(1,2) k by simp
    have "off < ?size" "0 < length buf" using False by auto
    then have w: "0 < wanted" "wanted \<le> length buf" "off + wanted \<le> ?size" unfolding wanted_def by linarith+
    have w': "wanted = read_count data off (length buf)" using len by (simp add: wanted_def read_count_def)
    have "read_clusters fs d wanted (cs ! k) (off mod ?z) k 0 buf = (Ok wanted, splice buf 0 (slice off wanted data))"
      unfolding data by (rule read_from_cluster [OF z cs(3) rd k _ k_def [symmetric] w cover]) (use cs(1,2) in simp_all)
    then show ?thesis using False is_file n2 skip w'
      by (simp add: Fat32Fs_read_file_def Let_def k_def wanted_def)
  qed
qed

end
