(* ===== verification/Fat32_Dir.thy ===== *)
theory Fat32_Dir
  imports Fat32_Read
begin

text \<open>
  Directories of a FAT32 volume. The raw entries along a cluster chain, cut at the end marker and
  parsed, are the records of a directory. A scan is a fold of its visitor over that list, so that a
  lookup is the first record whose name matches and a listing is a prefix. A chain that never ends is
  refused after as many clusters as the volume has.
\<close>

section \<open>The records of a directory\<close>

definition cluster_raws :: "'d Fat32Fs \<Rightarrow> 'd \<Rightarrow> u32 \<Rightarrow> bytes list" where
  "cluster_raws fs d c =
     (case Fat32Geometry_cluster_lba (ff_geometry fs) c of
        Inl _ \<Rightarrow> []
      | Inr lba \<Rightarrow> concat (map (\<lambda>i. chunks_exact 32 (sector_at fs d (lba + of_nat i))) [0..<sectors_of fs]))"

definition live_raw :: "bytes \<Rightarrow> bool" where
  "live_raw raw \<longleftrightarrow> raw ! 0 \<noteq> 0x00"

definition records_of :: "bytes list \<Rightarrow> DirectoryRecord list" where
  "records_of raws = List.map_filter DirectoryRecord_parse (takeWhile live_raw raws)"

definition directory_records :: "'d Fat32Fs \<Rightarrow> 'd \<Rightarrow> u32 list \<Rightarrow> DirectoryRecord list" where
  "directory_records fs d cs = records_of (concat (map (cluster_raws fs d) cs))"

text \<open>A directory that can be scanned: a readable chain that ends, by its last link or by the end marker.\<close>

definition directory_chain :: "'d Fat32Fs \<Rightarrow> 'd \<Rightarrow> u32 list \<Rightarrow> bool" where
  "directory_chain fs d cs \<longleftrightarrow> cs \<noteq> [] \<and> length cs \<le> unat (ge_cluster_count (ff_geometry fs)) \<and>
     list_all (cluster_readable fs d) cs \<and> linked fs d cs \<and>
     (Fat32Fs_next_cluster fs d (last cs) = Ok None \<or> \<not> list_all live_raw (cluster_raws fs d (last cs)))"

fun visit :: "('v \<Rightarrow> DirectoryRecord \<Rightarrow> bool \<times> 'v) \<Rightarrow> DirectoryRecord list \<Rightarrow> 'v \<Rightarrow> bool \<times> 'v" where
  "visit f [] v = (True, v)"
| "visit f (r # rs) v = (case f v r of (False, v) \<Rightarrow> (False, v) | (True, v) \<Rightarrow> visit f rs v)"

lemma visit_append: "visit f (rs @ rs') v = (case visit f rs v of (False, v) \<Rightarrow> (False, v) | (True, v) \<Rightarrow> visit f rs' v)"
  by (induction rs arbitrary: v) (auto split: prod.splits bool.splits)

lemma map_filter_append: "List.map_filter f (xs @ ys) = List.map_filter f xs @ List.map_filter f ys"
  by (simp add: List.map_filter_def)

lemma records_of_append:
  "records_of (xs @ ys) = records_of xs @ (if list_all live_raw xs then records_of ys else [])"
proof (cases "list_all live_raw xs")
  case True
  then have "takeWhile live_raw (xs @ ys) = xs @ takeWhile live_raw ys" "takeWhile live_raw xs = xs"
    by (simp_all add: list_all_iff takeWhile_eq_all_conv)
  then show ?thesis using True by (simp only: records_of_def map_filter_append if_True)
next
  case False
  then have "takeWhile live_raw (xs @ ys) = takeWhile live_raw xs"
    by (auto simp: list_all_iff takeWhile_append1)
  then show ?thesis using False by (simp add: records_of_def)
qed

section \<open>The loops\<close>

text \<open>How a scan of some raw entries ends, from the fold over their records.\<close>

definition flow_of :: "bytes list \<Rightarrow> bool \<times> 'v \<Rightarrow> scan_flow \<times> 'v" where
  "flow_of raws r = ((if fst r \<and> list_all live_raw raws then Scan_Continue else Scan_Return), snd r)"

lemma scan_records_visit: "scan_records f raws v = flow_of raws (visit f (records_of raws) v)"
  by (induction raws arbitrary: v)
    (auto simp: records_of_def flow_of_def live_raw_def List.map_filter_simps split: option.splits prod.splits bool.splits)

lemma scan_sectors_visit:
  assumes "\<And>i. i \<in> set is \<Longrightarrow> \<exists>s. Fat32Fs_read_sector fs d (lba + of_nat i) = Ok s"
  shows "scan_sectors fs d f lba is v =
    (let raws = concat (map (\<lambda>i. chunks_exact 32 (sector_at fs d (lba + of_nat i))) is)
     in flow_of raws (visit f (records_of raws) v))"
  using assms
proof (induction "is" arbitrary: v)
  case (Cons i "is")
  obtain s where s: "Fat32Fs_read_sector fs d (lba + of_nat i) = Ok s" using Cons.prems by auto
  have "sector_at fs d (lba + of_nat i) = s" using s by (simp add: sector_at_def)
  then show ?case using Cons.IH s Cons.prems
    by (auto simp: scan_records_visit flow_of_def Let_def records_of_append visit_append split: prod.splits bool.splits)
qed (simp add: flow_of_def records_of_def List.map_filter_simps)

lemma scan_cluster_visit:
  assumes "cluster_readable fs d c"
  obtains lba where "Fat32Geometry_cluster_lba (ff_geometry fs) c = Ok lba"
    "scan_sectors fs d f lba [0..<unat (ge_sectors_per_cluster (ff_geometry fs))] v =
       flow_of (cluster_raws fs d c) (visit f (records_of (cluster_raws fs d c)) v)"
proof -
  obtain lba where lba: "Fat32Geometry_cluster_lba (ff_geometry fs) c = Ok lba"
    and rd: "\<And>i. i < sectors_of fs \<Longrightarrow> \<exists>s. Fat32Fs_read_sector fs d (lba + of_nat i) = Ok s"
    using cluster_readableD [OF assms] by metis
  show ?thesis
    by (rule that [OF lba])
      (use scan_sectors_visit [of "[0..<sectors_of fs]" fs d lba f v] rd lba in
        \<open>simp add: cluster_raws_def Let_def sectors_of_def\<close>)
qed

lemma scan_clusters_step:
  assumes "cluster_readable fs d c"
  shows "scan_clusters fs d f c traversed v =
    (case visit f (records_of (cluster_raws fs d c)) v of (go, v) \<Rightarrow>
       if \<not> (go \<and> list_all live_raw (cluster_raws fs d c)) then (Ok (), v)
       else if traversed + 1 > unat (ge_cluster_count (ff_geometry fs)) then (Err Fat_CorruptFilesystem, v)
       else case Fat32Fs_next_cluster fs d c of
              Inl e \<Rightarrow> (Err e, v)
            | Inr None \<Rightarrow> (Ok (), v)
            | Inr (Some next) \<Rightarrow> scan_clusters fs d f next (traversed + 1) v)"
proof -
  obtain lba where "Fat32Geometry_cluster_lba (ff_geometry fs) c = Ok lba"
    "scan_sectors fs d f lba [0..<unat (ge_sectors_per_cluster (ff_geometry fs))] v =
       flow_of (cluster_raws fs d c) (visit f (records_of (cluster_raws fs d c)) v)"
    by (rule scan_cluster_visit [OF assms])
  then show ?thesis
    by (subst scan_clusters.simps, cases "visit f (records_of (cluster_raws fs d c)) v") (simp add: flow_of_def)
qed

lemma scan_clusters_visit:
  assumes "cs \<noteq> []" "list_all (cluster_readable fs d) cs" "linked fs d cs"
    "traversed + length cs \<le> unat (ge_cluster_count (ff_geometry fs))"
    "Fat32Fs_next_cluster fs d (last cs) = Ok None \<or> \<not> list_all live_raw (cluster_raws fs d (last cs))"
  shows "scan_clusters fs d f (hd cs) traversed v = (Ok (), snd (visit f (directory_records fs d cs) v))"
  using assms
proof (induction cs arbitrary: traversed v rule: list_nonempty_induct)
  case (single c)
  then show ?case
    by (auto simp: scan_clusters_step directory_records_def split: prod.splits)
next
  case (cons c cs)
  then obtain c' cs' where cs: "cs = c' # cs'" by (cases cs) auto
  have nx: "Fat32Fs_next_cluster fs d c = Ok (Some (hd cs))" "linked fs d cs"
    using cons.prems(2) by (simp_all add: cs linked_Cons)
  have IH: "scan_clusters fs d f (hd cs) (traversed + 1) v = (Ok (), snd (visit f (directory_records fs d cs) v))" for v
    using cons.IH [of "traversed + 1" v] cons.prems cons.hyps nx(2) by simp
  have rd: "cluster_readable fs d c" using cons.prems(1) by simp
  show ?case using nx(1) IH cons.prems(3) cons.hyps
    by (auto simp: scan_clusters_step [OF rd] directory_records_def records_of_append visit_append
        split: prod.splits bool.splits)
qed

lemma scan_directory_visit:
  assumes "directory_chain fs d cs"
  shows "Fat32Fs_scan_directory fs d (hd cs) f v = (Ok (), snd (visit f (directory_records fs d cs) v))"
  using scan_clusters_visit [of cs fs d 0 f v] assms by (simp add: directory_chain_def Fat32Fs_scan_directory_def)

section \<open>Lookups and listings\<close>

lemma visit_find: "snd (visit (find_visitor name) rs v) =
  (case find (\<lambda>r. names_equal (DirectoryRecord_name r) name) rs of None \<Rightarrow> v | Some r \<Rightarrow> Some r)"
  by (induction rs) (auto simp: find_visitor_def)

lemma find_entry_first:
  assumes "directory_chain fs d cs"
  shows "Fat32Fs_find_entry fs d (hd cs) name =
    Ok (find (\<lambda>r. names_equal (DirectoryRecord_name r) name) (directory_records fs d cs))"
  using assms by (auto simp: Fat32Fs_find_entry_def scan_directory_visit visit_find split: option.splits)

definition dir_entry_of :: "DirectoryRecord \<Rightarrow> DirEntry" where
  "dir_entry_of r = \<lparr>de_name = dr_name r, de_name_len = dr_name_len r, de_node_type = dr_node_type r\<rparr>"

lemma visit_list:
  assumes "n \<le> length es"
  shows "snd (visit list_visitor rs (es, n)) =
    (take n es @ map dir_entry_of (take (length es - n) rs) @ drop (n + length rs) es, min (length es) (n + length rs))"
  using assms
proof (induction rs arbitrary: es n)
  case (Cons r rs)
  show ?case
  proof (cases "n = length es")
    case False
    then have n: "n < length es" using Cons.prems by simp
    let ?es = "es[n := dir_entry_of r]"
    have "snd (visit list_visitor (r # rs) (es, n)) = snd (visit list_visitor rs (?es, n + 1))"
      using False by (simp add: list_visitor_def dir_entry_of_def)
    moreover have "take (n + 1) ?es = take n es @ [dir_entry_of r]" using n by (simp add: take_Suc_conv_app_nth)
    moreover have "length es - n = Suc (length es - (n + 1))" using n by simp
    ultimately show ?thesis using Cons.IH [of "n + 1" ?es] n by simp
  qed (simp add: list_visitor_def)
qed simp

text \<open>The first cluster of the directory a path denotes.\<close>

definition directory_of :: "'d Fat32Fs \<Rightarrow> 'd \<Rightarrow> bytes \<Rightarrow> u32 option" where
  "directory_of fs d path =
     (case Fat32Fs_resolve_path fs d path of
        Inl _ \<Rightarrow> None
      | Inr None \<Rightarrow> Some (ge_root_cluster (ff_geometry fs))
      | Inr (Some r) \<Rightarrow> if dr_node_type r = Node_Directory then Some (dr_first_cluster r) else None)"

lemma readdir_scan:
  "directory_of fs d path = Some c \<Longrightarrow>
   Fat32Fs_readdir fs d path es =
     (case Fat32Fs_scan_directory fs d c list_visitor (es, 0) of
        (Inl _, (es, _)) \<Rightarrow> (Err Vfs_IoError, es)
      | (Inr _, (es, n)) \<Rightarrow> (Ok n, es))"
  by (auto simp: directory_of_def Fat32Fs_readdir_def split: sum.splits option.splits if_splits)

lemma readdir_list:
  assumes "directory_chain fs d cs" "directory_of fs d path = Some (hd cs)"
  shows "Fat32Fs_readdir fs d path es =
    (Ok (min (length es) (length (directory_records fs d cs))),
     map dir_entry_of (take (length es) (directory_records fs d cs)) @ drop (length (directory_records fs d cs)) es)"
  using scan_directory_visit [OF assms(1), of list_visitor "(es, 0)"] visit_list [of 0 es]
  by (simp add: readdir_scan [OF assms(2)])

section \<open>Chains that are too long\<close>

text \<open>
  A chain of full clusters that is one cluster longer than the volume, as every chain that does not end
  has one, and in which the visitor never stops.
\<close>

definition full_cluster :: "'d Fat32Fs \<Rightarrow> 'd \<Rightarrow> u32 \<Rightarrow> bool" where
  "full_cluster fs d c \<longleftrightarrow> cluster_readable fs d c \<and> list_all live_raw (cluster_raws fs d c)"

lemma scan_clusters_too_long:
  assumes "cs \<noteq> []" "linked fs d cs" "list_all (full_cluster fs d) cs"
    "traversed + length cs = unat (ge_cluster_count (ff_geometry fs)) + 1"
    "\<forall>c \<in> set cs. \<forall>v. fst (visit f (records_of (cluster_raws fs d c)) v)"
  shows "fst (scan_clusters fs d f (hd cs) traversed v) = Err Fat_CorruptFilesystem"
  using assms
proof (induction cs arbitrary: traversed v rule: list_nonempty_induct)
  case (single c)
  then show ?case
    by (cases "visit f (records_of (cluster_raws fs d c)) v") (auto simp: full_cluster_def scan_clusters_step dest: spec [of _ v])
next
  case (cons c cs)
  obtain c' cs' where cs: "cs = c' # cs'" using cons.hyps by (cases cs) auto
  have nx: "Fat32Fs_next_cluster fs d c = Ok (Some (hd cs))" "linked fs d cs"
    using cons.prems(1) by (simp_all add: cs linked_Cons)
  have c: "cluster_readable fs d c" "list_all live_raw (cluster_raws fs d c)" "fst (visit f (records_of (cluster_raws fs d c)) v)"
    using cons.prems(2,4) by (simp_all add: full_cluster_def)
  have IH: "fst (scan_clusters fs d f (hd cs) (traversed + 1) v) = Err Fat_CorruptFilesystem" for v
    using cons.IH [OF nx(2), of "traversed + 1"] cons.prems(2-4) by simp
  show ?case using c nx(1) IH
    by (cases "visit f (records_of (cluster_raws fs d c)) v") (simp add: scan_clusters_step)
qed

lemma visit_find_none:
  "\<forall>r \<in> set rs. \<not> names_equal (DirectoryRecord_name r) name \<Longrightarrow> fst (visit (find_visitor name) rs v)"
  by (induction rs) (auto simp: find_visitor_def)

end
