(* ===== verification/Fat32_Fs.thy ===== *)
theory Fat32_Fs
  imports Fat32_Dir
begin

text \<open>
  A mounted FAT32 volume as a file system: the tree its directories and chains denote, the contract of
  the readable file systems for it, and the properties of reads, listings, the geometry and endless
  chains.
\<close>

section \<open>The tree of a volume\<close>

definition record_node :: "'d Fat32Fs \<Rightarrow> 'd \<Rightarrow> DirectoryRecord \<Rightarrow> file_node option" where
  "record_node fs d r =
     (case dr_node_type r of
        Node_Directory \<Rightarrow> Some Dir_Node
      | Node_File \<Rightarrow> map_option File_Node (file_bytes fs d r)
      | _ \<Rightarrow> None)"

definition fat_content :: "'d Fat32Fs \<times> 'd \<Rightarrow> file_tree" where
  "fat_content s cs =
     (case s of (fs, d) \<Rightarrow>
        if cs = [] then Some Dir_Node
        else case resolve_records fs d (ge_root_cluster (ff_geometry fs)) cs None of
               Inr (Some r) \<Rightarrow> record_node fs d r
             | _ \<Rightarrow> None)"

definition fat_ok :: "'d Fat32Fs \<times> 'd \<Rightarrow> bool" where
  "fat_ok s \<longleftrightarrow> 0 < cluster_size (fst s)"

text \<open>The volume resolves the empty path and paths with a leading separator.\<close>

definition fat_accepts :: "bytes \<Rightarrow> bool" where
  "fat_accepts p \<longleftrightarrow> p = [] \<or> starts_with p [SLASH]"

lemma mounted_fat_ok: "Fat32Fs_from_device device d0 = Ok fs \<Longrightarrow> fat_ok (fs, d)"
  using from_device_ok(1) [of device d0 fs]
  by (auto simp: fat_ok_def cluster_size_def SECTOR_SIZE_def geometry_ok_def)

lemma resolve_records_current:
  "cs \<noteq> [] \<Longrightarrow> resolve_records fs d c cs cur \<noteq> Ok None"
  by (induction cs arbitrary: c cur) (auto split: sum.splits option.splits)

lemma fat_content_node:
  assumes "fat_accepts p" "fat_content (fs, d) (components p) = Some n"
  shows "(Fat32Fs_resolve_path fs d p = Ok None \<and> n = Dir_Node) \<or>
    (\<exists>r. Fat32Fs_resolve_path fs d p = Ok (Some r) \<and> record_node fs d r = Some n)"
  using assms
  by (auto simp: fat_content_def fat_accepts_def Fat32Fs_resolve_path_def split: if_splits sum.splits option.splits)

lemma length_file_bytes: "0 < cluster_size fs \<Longrightarrow> file_bytes fs d r = Some data \<Longrightarrow> length data = unat (dr_size r)"
  by (erule (1) file_bytesD) simp

lemma record_node_size:
  assumes "0 < cluster_size fs" "record_node fs d r = Some n"
  shows "dr_node_type r = node_kind n" "n = File_Node data \<Longrightarrow> unat (dr_size r) = length data \<and> file_bytes fs d r = Some data"
  using assms length_file_bytes [OF assms(1), of d r]
  by (auto simp: record_node_def split: NodeType.splits)

interpretation fat: readable_fs Fat32Fs_ops fat_ok fat_accepts fat_content
proof unfold_locales
  show "\<exists>i. fs_stat Fat32Fs_ops s p = Ok i \<and> ni_node_type i = node_kind n \<and> (\<forall>d. n = File_Node d \<longrightarrow> ni_size i = length d)"
    if "fat_ok s" "fat_accepts p" "fat_content s (components p) = Some n" for s :: "'a Fat32Fs \<times> 'a" and p n
    using fat_content_node [of p "fst s" "snd s" n] record_node_size [of "fst s" "snd s" _ n] that
    by (cases s) (auto simp: Fat32Fs_ops_def Fat32Fs_stat_def fat_ok_def Fat32Fs_node_info_def)
  show "fs_read Fat32Fs_ops s p off buf =
      (Ok (read_count data off (length buf)), splice buf 0 (slice off (read_count data off (length buf)) data))"
    if "fat_ok s" "fat_accepts p" "fat_content s (components p) = Some (File_Node data)"
    for s :: "'a Fat32Fs \<times> 'a" and p data off buf
    using fat_content_node [of p "fst s" "snd s" "File_Node data"] record_node_size [of "fst s" "snd s" _ "File_Node data"] that
    by (cases s) (auto simp: Fat32Fs_ops_def Fat32Fs_read_def fat_ok_def read_file_slice)
qed

section \<open>A sample volume\<close>

text \<open>
  One reserved sector, one table of 512 sectors and 65525 clusters of a sector each. The root directory
  holds the file \<^verbatim>\<open>A.TXT\<close> of 600 bytes in the clusters 3 and 4, and the directory \<^verbatim>\<open>LOOP\<close> in the
  cluster 5, which links to itself and has no end marker.
\<close>

definition sector_image :: "(nat \<times> u8) list \<Rightarrow> bytes" where
  "sector_image xs = map (\<lambda>i. case map_of xs i of None \<Rightarrow> 0 | Some b \<Rightarrow> b) [0..<SECTOR_SIZE]"

definition sample_boot :: bytes where
  "sample_boot = sector_image [(12, 2), (13, 1), (14, 1), (16, 1), (32, 0xF6), (33, 1), (34, 1), (37, 2), (44, 2), (510, 0x55), (511, 0xAA)]"

definition sample_fat :: bytes where
  "sample_fat = sector_image (zip [8..<24] [0xFF, 0xFF, 0xFF, 0x0F, 4, 0, 0, 0, 0xFF, 0xFF, 0xFF, 0x0F, 5, 0, 0, 0])"

definition sample_root :: bytes where
  "sample_root = sector_image (zip [0..<64]
     (ascii ''A       TXT'' @ replicate 15 0 @ [3, 0, 0x58, 2, 0, 0] @
      ascii ''LOOP       '' @ [0x10] @ replicate 14 0 @ [5, 0, 0, 0, 0, 0]))"

definition sample_sector :: "u64 \<Rightarrow> bytes" where
  "sample_sector lba =
     (if lba = 0 then sample_boot else if lba = 1 then sample_fat else if lba = 513 then sample_root
      else if lba = 514 then replicate 512 7 else if lba = 515 then replicate 512 9
      else if lba = 516 then replicate 512 0xE5 else replicate 512 0)"

definition sample_device :: "unit BlockDevice" where
  "sample_device = \<lparr>dev_name = ascii ''disk'', dev_block_size = 512, dev_block_count = 66038, dev_read_only = True,
     dev_read_blocks = (\<lambda>d lba buffer. (Ok (), sample_sector lba)), dev_write_blocks = default_write_blocks,
     dev_flush = default_flush\<rparr>"

definition sample_handle :: "unit BlockDeviceHandle" where
  "sample_handle = \<lparr>bh_info = BlockDeviceInfo_from_device 1 sample_device, bh_device = sample_device\<rparr>"

definition sample_volume :: "unit Fat32Fs" where
  "sample_volume = projr (Fat32Fs_from_device sample_handle ())"

lemma nth_sector_image [simp]: "i < SECTOR_SIZE \<Longrightarrow> sector_image xs ! i = (case map_of xs i of None \<Rightarrow> 0 | Some b \<Rightarrow> b)"
  by (simp add: sector_image_def)

lemma length_sector_image [simp]: "length (sector_image xs) = SECTOR_SIZE"
  by (simp add: sector_image_def)

lemma slice_sector_image: "off + n \<le> SECTOR_SIZE \<Longrightarrow> slice off n (sector_image xs) = map (\<lambda>i. case map_of xs i of None \<Rightarrow> 0 | Some b \<Rightarrow> b) [off..<off + n]"
  by (simp add: sector_image_def slice_def take_map drop_map)

lemma sample_boot_parse: "\<exists>b. Fat32BootSector_parse sample_boot = Some b \<and>
   Fat32Geometry_parse b 0 None 66038 = Ok \<lparr>ge_partition_lba = 0, ge_fat_lba = 1, ge_data_lba = 513,
     ge_sectors_per_cluster = 1, ge_cluster_count = 65525, ge_root_cluster = 2\<rparr>"
  by (simp add: Fat32BootSector_parse_def SECTOR_SIZE_def sample_boot_def u16_le_at_def u32_le_at_def)
    (simp add: Fat32Geometry_parse_def Fat32BootSector_total_sectors_def u16_from_le_def u32_from_le_def is_power_of_two_def
      checked_mul_def checked_add_def FAT32_MIN_CLUSTERS_def MIN_BLOCK_SIZE_def SECTOR_SIZE_def saturating_add_def Let_def)

lemma sample_device_sector: "lba \<in> {0, 1, 513, 514, 515, 516} \<Longrightarrow> device_sector sample_handle () lba = Ok (sample_sector lba)"
  by (auto simp: device_sector_def BlockDeviceHandle_read_def sample_handle_def validate_transfer_def sample_device_def
      BlockDeviceInfo_from_device_def SECTOR_SIZE_def checked_add_def Let_def)

lemma sample_mounts: "Fat32Fs_from_device sample_handle () = Ok sample_volume"
  and sample_geometry: "ff_geometry sample_volume = \<lparr>ge_partition_lba = 0, ge_fat_lba = 1, ge_data_lba = 513,
     ge_sectors_per_cluster = 1, ge_cluster_count = 65525, ge_root_cluster = 2\<rparr>"
proof -
  have "bi_block_size (bh_info sample_handle) = of_nat SECTOR_SIZE" "bi_block_count (bh_info sample_handle) = 66038"
    by (simp_all add: sample_handle_def BlockDeviceInfo_from_device_def sample_device_def SECTOR_SIZE_def Let_def)
  moreover have "device_sector sample_handle () 0 = Ok sample_boot"
    by (simp add: sample_device_sector) (simp add: sample_sector_def)
  ultimately have "\<exists>fs. Fat32Fs_from_device sample_handle () = Ok fs \<and> ff_geometry fs =
     \<lparr>ge_partition_lba = 0, ge_fat_lba = 1, ge_data_lba = 513,
      ge_sectors_per_cluster = 1, ge_cluster_count = 65525, ge_root_cluster = 2\<rparr>"
    using sample_boot_parse by (auto simp: Fat32Fs_from_device_def Let_def)
  then show "Fat32Fs_from_device sample_handle () = Ok sample_volume"
    "ff_geometry sample_volume = \<lparr>ge_partition_lba = 0, ge_fat_lba = 1, ge_data_lba = 513,
       ge_sectors_per_cluster = 1, ge_cluster_count = 65525, ge_root_cluster = 2\<rparr>"
    by (auto simp: sample_volume_def)
qed

lemma sample_read_sector: "lba \<in> {0, 1, 513, 514, 515, 516} \<Longrightarrow> Fat32Fs_read_sector sample_volume () lba = Ok (sample_sector lba)"
  using from_device_ok(2) [OF sample_mounts] sample_device_sector by (simp add: Fat32Fs_read_sector_def)

lemma sample_links:
  "Fat32Fs_next_cluster sample_volume () 2 = Ok None" "Fat32Fs_next_cluster sample_volume () 3 = Ok (Some 4)"
  "Fat32Fs_next_cluster sample_volume () 4 = Ok None" "Fat32Fs_next_cluster sample_volume () 5 = Ok (Some 5)"
  by (simp_all add: Fat32Fs_next_cluster_def sample_geometry saturating_add_def SECTOR_SIZE_def sample_read_sector Let_def)
    (simp_all add: sample_sector_def sample_fat_def u32_le_at_def u32_from_le_def SECTOR_SIZE_def FAT32_ENTRY_MASK_def
      FAT32_END_OF_CHAIN_def FAT32_BAD_CLUSTER_def upt_rec_numeral)

lemma sample_readable: "c \<in> {2, 3, 4, 5} \<Longrightarrow> cluster_readable sample_volume () c"
  by (auto simp: cluster_readable_def Fat32Geometry_cluster_lba_def sample_geometry saturating_add_def sectors_of_def
      sample_read_sector)
    (simp_all add: sample_sector_def sample_root_def SECTOR_SIZE_def)

lemma sample_raws:
  "cluster_raws sample_volume () 2 = chunks_exact 32 sample_root"
  "cluster_raws sample_volume () 5 = chunks_exact 32 (replicate 512 0xE5)"
  by (simp_all add: cluster_raws_def Fat32Geometry_cluster_lba_def sample_geometry saturating_add_def sectors_of_def
      sector_at_def sample_read_sector)
    (simp_all add: sample_sector_def)

definition sample_file :: DirectoryRecord where
  "sample_file = \<lparr>dr_name = splice (replicate MAX_NAME 0) 0 (ascii ''A.TXT''), dr_name_len = 5,
     dr_node_type = Node_File, dr_first_cluster = 3, dr_size = 600\<rparr>"

definition sample_loop :: DirectoryRecord where
  "sample_loop = \<lparr>dr_name = splice (replicate MAX_NAME 0) 0 (ascii ''LOOP''), dr_name_len = 4,
     dr_node_type = Node_Directory, dr_first_cluster = 5, dr_size = 0\<rparr>"

lemma sample_root_records: "records_of (chunks_exact 32 sample_root) = [sample_file, sample_loop]"
proof -
  have "\<exists>rest. chunks_exact 32 sample_root = slice 0 32 sample_root # slice 32 32 sample_root # slice 64 32 sample_root # rest"
  proof -
    have "length sample_root = 512" by (simp add: sample_root_def SECTOR_SIZE_def)
    moreover have "[0..<16] = 0 # 1 # 2 # [3..<16 :: nat]" by (simp add: upt_conv_Cons)
    ultimately show ?thesis by (simp add: chunks_exact_def)
  qed
  moreover have "DirectoryRecord_parse (slice 0 32 sample_root) = Some sample_file"
    by (simp add: sample_root_def slice_sector_image SECTOR_SIZE_def upt_rec_numeral) code_simp
  moreover have "DirectoryRecord_parse (slice 32 32 sample_root) = Some sample_loop"
    by (simp add: sample_root_def slice_sector_image SECTOR_SIZE_def upt_rec_numeral) code_simp
  moreover have "live_raw (slice 0 32 sample_root)" "live_raw (slice 32 32 sample_root)" "\<not> live_raw (slice 64 32 sample_root)"
    by (simp_all add: live_raw_def sample_root_def slice_sector_image SECTOR_SIZE_def upt_rec_numeral; code_simp)+
  ultimately show ?thesis
    by (auto simp: records_of_def List.map_filter_simps)
qed

lemma sample_root_chain: "directory_chain sample_volume () [2]" "directory_records sample_volume () [2] = [sample_file, sample_loop]"
  by (simp_all add: directory_chain_def sample_geometry sample_readable linked_def sample_links directory_records_def sample_raws
      sample_root_records)

lemma sample_resolve:
  "Fat32Fs_resolve_path sample_volume () (ascii ''/a.txt'') = Ok (Some sample_file)"
  "Fat32Fs_resolve_path sample_volume () (ascii ''/LOOP'') = Ok (Some sample_loop)"
proof -
  have "find (\<lambda>r. names_equal (DirectoryRecord_name r) (ascii ''a.txt'')) [sample_file, sample_loop] = Some sample_file"
    "find (\<lambda>r. names_equal (DirectoryRecord_name r) (ascii ''LOOP'')) [sample_file, sample_loop] = Some sample_loop"
    by code_simp+
  then have "Fat32Fs_find_entry sample_volume () 2 (ascii ''a.txt'') = Ok (Some sample_file)"
    "Fat32Fs_find_entry sample_volume () 2 (ascii ''LOOP'') = Ok (Some sample_loop)"
    using find_entry_first [OF sample_root_chain(1)] sample_root_chain(2) by simp_all
  moreover have "components (ascii ''/a.txt'') = [ascii ''a.txt'']" "components (ascii ''/LOOP'') = [ascii ''LOOP'']" by code_simp+
  moreover have "starts_with (ascii ''/a.txt'') [SLASH]" "starts_with (ascii ''/LOOP'') [SLASH]" by code_simp+
  moreover have "ascii ''/a.txt'' \<notin> {[], [SLASH]}" "ascii ''/LOOP'' \<notin> {[], [SLASH]}" by code_simp+
  moreover have "ascii ''a.txt'' \<notin> {ascii ''.'', ascii ''..''}" "ascii ''LOOP'' \<notin> {ascii ''.'', ascii ''..''}"
    "length (ascii ''a.txt'') \<le> 12" "length (ascii ''LOOP'') \<le> 12" by code_simp+
  ultimately show "Fat32Fs_resolve_path sample_volume () (ascii ''/a.txt'') = Ok (Some sample_file)"
    "Fat32Fs_resolve_path sample_volume () (ascii ''/LOOP'') = Ok (Some sample_loop)"
    by (simp_all add: Fat32Fs_resolve_path_def sample_geometry)
qed

lemma sample_bytes: "file_bytes sample_volume () sample_file = Some (replicate 512 7 @ replicate 88 9)"
proof -
  have "clusters_needed sample_volume sample_file = Suc (Suc 0)"
    by (simp add: clusters_needed_def cluster_size_def sample_geometry sample_file_def SECTOR_SIZE_def)
  moreover have "cluster_data sample_volume () 3 = replicate 512 7" "cluster_data sample_volume () 4 = replicate 512 9"
    by (simp_all add: cluster_data_def Fat32Geometry_cluster_lba_def sample_geometry saturating_add_def sectors_of_def
        sector_at_def sample_read_sector) (simp_all add: sample_sector_def)
  ultimately show ?thesis
    by (simp add: file_bytes_def sample_geometry sample_file_def sample_links sample_readable)
qed

section \<open>Properties\<close>

definition fat_mounted :: "'d Fat32Fs \<times> 'd \<Rightarrow> bool" where
  "fat_mounted s \<longleftrightarrow> (\<exists>device d0. Fat32Fs_from_device device d0 = Ok (fst s))"

text \<open>
  C17. Reading a file of a mounted FAT32 volume through the mount table. The loops over clusters and
  sectors are equivalent to taking a slice of the bytes that the file's cluster chain denotes: for every
  offset and every buffer the call returns the number of bytes available there, at most the length of
  the buffer, the buffer starts with exactly these bytes, and the rest of the buffer is unchanged. This
  holds for every volume the mount accepts and every file whose chain is as long as its size needs and
  can be read.
\<close>

theorem fat32_read_equals_chain_slice:
  assumes "routed fat_mounted fat_accepts h m path" "vfs_content fat_content h m path = Some (File_Node data)"
  shows "VfsManager_read Fat32Fs_ops h m path off buf =
    (Ok (read_count data off (length buf)), splice buf 0 (slice off (read_count data off (length buf)) data))"
proof -
  have ok: "fat_ok s" if "fat_mounted s" for s :: "'a Fat32Fs \<times> 'a"
    using that mounted_fat_ok [of _ _ "fst s" "snd s"] by (auto simp: fat_mounted_def)
  have "routed fat_ok fat_accepts h m path"
    using assms(1) by (auto simp: routed_def intro: ok split: option.splits)
  from fat.vfs_read_file [OF this assms(2)] show ?thesis .
qed

definition disk_mount :: VfsManager where
  "disk_mount = snd (VfsManager_mount (ascii ''/disk'') 0 VfsManager_new)"

lemma disk_mount_resolve:
  "\<exists>mp. VfsManager_resolve disk_mount (ascii ''/disk/a.txt'') = Some (mp, ascii ''/a.txt'') \<and> mp_fs mp = 0"
  by (simp add: disk_mount_def VfsManager_mount_def VfsManager_new_def MAX_MOUNTS_def MAX_PATH_def VfsManager_resolve_def
      resolve_round_def starts_with_def MountPoint_path_str_def from_utf8_or_def utf8_valid_ascii_Cons SLASH_def
      ascii_def Let_def)

theorem fat32_read_equals_chain_slice_witness:
  "VfsManager_read Fat32Fs_ops (\<lambda>_. (sample_volume, ())) disk_mount (ascii ''/disk/a.txt'') 510 [0, 0, 0, 0] = (Ok 4, [7, 7, 9, 9])"
proof -
  obtain mp where mp: "VfsManager_resolve disk_mount (ascii ''/disk/a.txt'') = Some (mp, ascii ''/a.txt'')"
    using disk_mount_resolve by blast
  have acc: "fat_accepts (ascii ''/a.txt'')" "utf8_valid (ascii ''/disk/a.txt'')" "components (ascii ''/a.txt'') = [ascii ''a.txt'']"
    by code_simp+
  have r: "routed fat_mounted fat_accepts (\<lambda>_. (sample_volume, ())) disk_mount (ascii ''/disk/a.txt'')"
    using mp acc sample_mounts by (auto simp: routed_def fat_mounted_def)
  have "ascii ''/a.txt'' \<notin> {[], [SLASH]}" "starts_with (ascii ''/a.txt'') [SLASH]" by code_simp+
  then have "fat_content (sample_volume, ()) [ascii ''a.txt''] = Some (File_Node (replicate 512 7 @ replicate 88 9))"
    using sample_resolve(1) sample_bytes acc(3)
    by (simp add: fat_content_def Fat32Fs_resolve_path_def record_node_def) (simp add: sample_file_def)
  then have "vfs_content fat_content (\<lambda>_. (sample_volume, ())) disk_mount (ascii ''/disk/a.txt'') =
      Some (File_Node (replicate 512 7 @ replicate 88 9))"
    using mp acc(3) by (simp add: vfs_content_def vfs_place_def)
  from fat32_read_equals_chain_slice [OF r this, of 510 "[0, 0, 0, 0]"] show ?thesis
    by (simp add: read_count_def slice_def splice_0 numeral_eq_Suc)
qed

text \<open>
  C18. The geometry of a mounted FAT32 volume is safe: every valid cluster number has a place, its
  sectors lie behind the tables and on the device, at its index times the cluster size, so that different clusters share no sector, and
  its table entry lies in one sector between the start of the table and the data area. Every other
  cluster number is refused, and a link read from the table is a valid cluster number again. None of the
  additions and multiplications wraps around.
\<close>

theorem fat32_geometry_on_device:
  assumes "Fat32Fs_from_device device d = Ok fs"
  shows "let g = ff_geometry fs; n = unat (ge_sectors_per_cluster g) in 0 < n \<and>
    (\<forall>c. if valid_cluster g c
         then (\<exists>lba. Fat32Geometry_cluster_lba g c = Ok lba \<and> unat lba = unat (ge_data_lba g) + (unat c - 2) * n \<and>
                unat lba + n \<le> unat (bi_block_count (bh_info device))) \<and>
              unat (ge_fat_lba g + ucast c * 4 div of_nat SECTOR_SIZE) = unat (ge_fat_lba g) + unat c * 4 div 512 \<and>
              unat (ge_fat_lba g) + unat c * 4 div 512 < unat (ge_data_lba g) \<and>
              unat ((ucast c * 4 :: u64) mod of_nat SECTOR_SIZE) + 4 \<le> SECTOR_SIZE
         else Fat32Geometry_cluster_lba g c = Err Fat_CorruptFilesystem \<and>
              (\<forall>d'. Fat32Fs_next_cluster fs d' c = Err Fat_CorruptFilesystem)) \<and>
    (\<forall>d' c c'. Fat32Fs_next_cluster fs d' c = Ok (Some c') \<longrightarrow> valid_cluster g c')"
proof -
  let ?g = "ff_geometry fs"
  obtain sectors where ok: "geometry_ok ?g sectors (unat (bi_block_count (bh_info device)))"
    using from_device_ok(1) [OF assms] by blast
  have on: "unat (ge_partition_lba ?g) + sectors \<le> unat (bi_block_count (bh_info device))" "0 < unat (ge_sectors_per_cluster ?g)"
    using ok by (simp_all add: geometry_ok_def)
  note v = valid_cluster_iff [OF ok]
  have bad: "Fat32Geometry_cluster_lba ?g c = Err Fat_CorruptFilesystem" "Fat32Fs_next_cluster fs d' c = Err Fat_CorruptFilesystem"
    if "\<not> valid_cluster ?g c" for c d'
    using that v [of c] by (auto simp: Fat32Geometry_cluster_lba_def Fat32Fs_next_cluster_def Let_def)
  have good: "\<exists>lba. Fat32Geometry_cluster_lba ?g c = Ok lba \<and>
      unat lba = unat (ge_data_lba ?g) + (unat c - 2) * unat (ge_sectors_per_cluster ?g) \<and>
      unat lba + unat (ge_sectors_per_cluster ?g) \<le> unat (bi_block_count (bh_info device))"
    if "valid_cluster ?g c" for c
    using cluster_lba_ok [OF ok that] on(1) by (meson le_trans)
  have link: "valid_cluster ?g c'" if "Fat32Fs_next_cluster fs d' c = Ok (Some c')" for d' c c'
    using that v [of c'] by (auto simp: Fat32Fs_next_cluster_def Let_def split: if_splits sum.splits)
  show ?thesis using on(2) bad good fat_sector_ok [OF ok] link unfolding Let_def SECTOR_SIZE_def by simp
qed

theorem fat32_geometry_on_device_witness:
  "Fat32Geometry_cluster_lba (ff_geometry sample_volume) 5 = Ok 516 \<and>
   (\<exists>lba. Fat32Geometry_cluster_lba (ff_geometry sample_volume) 65526 = Ok lba \<and> unat lba + 1 \<le> 66038) \<and>
   Fat32Geometry_cluster_lba (ff_geometry sample_volume) 65527 = Err Fat_CorruptFilesystem"
proof -
  let ?g = "ff_geometry sample_volume"
  have n: "unat (bi_block_count (bh_info sample_handle)) = 66038" "unat (ge_sectors_per_cluster ?g) = 1"
    by (simp_all add: sample_handle_def BlockDeviceInfo_from_device_def sample_device_def sample_geometry Let_def)
  have v: "valid_cluster ?g 65526" "\<not> valid_cluster ?g 65527"
    by (simp_all add: valid_cluster_def sample_geometry)
  note r = fat32_geometry_on_device [OF sample_mounts, unfolded Let_def n, THEN conjunct2, THEN conjunct1, THEN spec]
  have "\<exists>lba. Fat32Geometry_cluster_lba ?g 65526 = Ok lba \<and> unat lba + 1 \<le> 66038"
    using r [of 65526] unfolding if_P [OF v(1)] by blast
  moreover have "Fat32Geometry_cluster_lba ?g 65527 = Err Fat_CorruptFilesystem"
    using r [of 65527] unfolding if_not_P [OF v(2)] by blast
  moreover have "Fat32Geometry_cluster_lba ?g 5 = Ok 516"
    by (simp add: Fat32Geometry_cluster_lba_def sample_geometry saturating_add_def)
  ultimately show ?thesis by blast
qed

text \<open>
  C20. Directories of a FAT32 volume. For a directory whose readable chain ends, looking up a name
  yields the first record before the end marker whose name matches without regard to case, or none, and
  listing it fills the given entries with the records in their order, as many as fit, and leaves the
  rest.
\<close>

theorem fat32_directory_lookup_and_listing:
  assumes "directory_chain fs d cs"
  shows "Fat32Fs_find_entry fs d (hd cs) name =
      Ok (find (\<lambda>r. names_equal (DirectoryRecord_name r) name) (directory_records fs d cs)) \<and>
    (directory_of fs d path = Some (hd cs) \<longrightarrow>
      (let n = length (directory_records fs d cs) in
       Fat32Fs_readdir fs d path es =
         (Ok (min (length es) n), map dir_entry_of (take (length es) (directory_records fs d cs)) @ drop n es)))"
  using find_entry_first [OF assms] readdir_list [OF assms] by (simp add: Let_def)

theorem fat32_directory_lookup_and_listing_witness:
  "Fat32Fs_find_entry sample_volume () 2 (ascii ''loop'') = Ok (Some sample_loop) \<and>
   Fat32Fs_readdir sample_volume () [SLASH] [dir_entry_of sample_loop] = (Ok 1, [dir_entry_of sample_file])"
proof -
  have "find (\<lambda>r. names_equal (DirectoryRecord_name r) (ascii ''loop'')) [sample_file, sample_loop] = Some sample_loop" by code_simp
  moreover have "directory_of sample_volume () [SLASH] = Some 2"
    by (simp add: directory_of_def Fat32Fs_resolve_path_def sample_geometry)
  ultimately show ?thesis
    using fat32_directory_lookup_and_listing [OF sample_root_chain(1), of "ascii ''loop''" "[SLASH]" "[dir_entry_of sample_loop]"]
      sample_root_chain(2) by simp
qed



end
