(* ===== verification/Brane_Session.thy ===== *)
theory Brane_Session
  imports Byte_Strings
begin

text \<open>
  The session protocol between two branes (\<^verbatim>\<open>brane_session.rs\<close>) with its cryptographic wrapper
  (\<^verbatim>\<open>crypto.rs\<close>): the wire formats of packets and capability offers, the handshake, and the encrypted
  tunnel with its nonce counters. X25519 and ChaCha20-Poly1305 come from external crates and are a
  parameter of the model; keys are seen in their byte form.
\<close>

section \<open>External cryptography\<close>

text \<open>
  \<^verbatim>\<open>pr_seed_length\<close>, \<^verbatim>\<open>pr_from_seed\<close>, \<^verbatim>\<open>pr_public\<close> and \<^verbatim>\<open>pr_agree\<close> stand for the key agreement of the crate \<^verbatim>\<open>salty\<close>,
  \<^verbatim>\<open>pr_encrypt\<close> and \<^verbatim>\<open>pr_decrypt\<close> for the authenticated cipher keyed with its first argument and given a
  nonce and a text.
\<close>

record 'sk primitives =
  pr_seed_length :: nat
  pr_from_seed :: "bytes \<Rightarrow> 'sk"
  pr_public :: "'sk \<Rightarrow> bytes"
  pr_agree :: "'sk \<Rightarrow> bytes \<Rightarrow> bytes"
  pr_encrypt :: "bytes \<Rightarrow> bytes \<Rightarrow> bytes \<Rightarrow> bytes option"
  pr_decrypt :: "bytes \<Rightarrow> bytes \<Rightarrow> bytes \<Rightarrow> bytes option"

text \<open>
  What the crates document: both sides of a key agreement compute the same secret, a public key has 32
  bytes, a text of less than 4 GiB (below the limit of the cipher) encrypts under every nonce, and decryption under the same key and nonce inverts
  encryption.
\<close>

definition agreement_commutes :: "'sk primitives \<Rightarrow> bool" where
  "agreement_commutes P \<longleftrightarrow> (\<forall>a b. pr_agree P a (pr_public P b) = pr_agree P b (pr_public P a))"

definition public_is_32_bytes :: "'sk primitives \<Rightarrow> bool" where
  "public_is_32_bytes P \<longleftrightarrow> (\<forall>a. length (pr_public P a) = 32)"

definition cipher_inverts :: "'sk primitives \<Rightarrow> bool" where
  "cipher_inverts P \<longleftrightarrow> (\<forall>k n p. length p < 2 ^ 32 \<longrightarrow> (\<exists>c. pr_encrypt P k n p = Some c \<and> pr_decrypt P k n c = Some p))"

text \<open>
  \<^verbatim>\<open>HardwareRng\<close>: the instruction \<^verbatim>\<open>rdrand\<close> succeeds or not at each attempt, and the loop repeats it
  until it does. The hardware is a sequence of attempts.
\<close>

partial_function (option) HardwareRng_next_u64 :: "(nat \<Rightarrow> u64 option) \<Rightarrow> nat \<Rightarrow> (u64 \<times> nat) option" where
  "HardwareRng_next_u64 rdrand i =
     (case rdrand i of Some val \<Rightarrow> Some (val, i + 1) | None \<Rightarrow> HardwareRng_next_u64 rdrand (i + 1))"

text \<open>The rest of \<^verbatim>\<open>dest\<close> has the given length; the bytes are those to be copied there.\<close>

function HardwareRng_fill_bytes :: "(nat \<Rightarrow> u64 option) \<Rightarrow> nat \<Rightarrow> nat \<Rightarrow> (bytes \<times> nat) option" where
  "HardwareRng_fill_bytes rdrand len i =
     (if len = 0 then Some ([], i)
      else case HardwareRng_next_u64 rdrand i of
        None \<Rightarrow> None
      | Some (rnd, i) \<Rightarrow>
          (let chunk = min 8 len
           in case HardwareRng_fill_bytes rdrand (len - chunk) i of
                None \<Rightarrow> None
              | Some (rest, i) \<Rightarrow> Some (take chunk (to_le_bytes 8 rnd) @ rest, i)))"
  by pat_completeness auto

termination
  by (relation "measure (\<lambda>(rdrand, len, i). len)") auto

declare HardwareRng_fill_bytes.simps [simp del]

text \<open>The loops return when the hardware keeps producing numbers.\<close>

lemma next_u64_returns:
  assumes "rdrand (i + k) \<noteq> None"
  shows "\<exists>v j. HardwareRng_next_u64 rdrand i = Some (v, j)"
  using assms
proof (induction k arbitrary: i)
  case 0
  then show ?case by (subst HardwareRng_next_u64.simps) auto
next
  case (Suc k)
  then show ?case by (subst HardwareRng_next_u64.simps) (auto split: option.splits)
qed

lemma fill_bytes_returns:
  assumes "\<And>i. \<exists>k. rdrand (i + k) \<noteq> None"
  shows "\<exists>bs j. HardwareRng_fill_bytes rdrand len i = Some (bs, j) \<and> length bs = len"
proof (induction len arbitrary: i rule: less_induct)
  case (less len)
  obtain v j where v: "HardwareRng_next_u64 rdrand i = Some (v, j)" using next_u64_returns assms by metis
  show ?case
  proof (cases "len = 0")
    case False
    then have "len - min 8 len < len" by simp
    from less.IH [OF this, of j] obtain bs j' where
      "HardwareRng_fill_bytes rdrand (len - min 8 len) j = Some (bs, j')" "length bs = len - min 8 len" by blast
    then show ?thesis using False v by (subst HardwareRng_fill_bytes.simps) (auto simp: Let_def)
  qed (simp add: HardwareRng_fill_bytes.simps)
qed

record 'sk EphemeralKey =
  ek_secret :: 'sk
  ek_public :: bytes

definition EphemeralKey_generate :: "'sk primitives \<Rightarrow> (nat \<Rightarrow> u64 option) \<Rightarrow> nat \<Rightarrow> ('sk EphemeralKey \<times> nat) option" where
  "EphemeralKey_generate P rdrand i =
     (case HardwareRng_fill_bytes rdrand (pr_seed_length P) i of
        None \<Rightarrow> None
      | Some (seed, i) \<Rightarrow>
          (let secret = pr_from_seed P seed
           in Some (\<lparr>ek_secret = secret, ek_public = pr_public P secret\<rparr>, i)))"

definition EphemeralKey_diffie_hellman :: "'sk primitives \<Rightarrow> 'sk EphemeralKey \<Rightarrow> bytes \<Rightarrow> bytes" where
  "EphemeralKey_diffie_hellman P key peer_pub = pr_agree P (ek_secret key) peer_pub"

text \<open>A keyed cipher is its key.\<close>

record SessionCrypto =
  sc_key :: bytes

definition SessionCrypto_new :: "bytes \<Rightarrow> SessionCrypto" where
  "SessionCrypto_new shared_secret = \<lparr>sc_key = shared_secret\<rparr>"

definition SessionCrypto_encrypt :: "'sk primitives \<Rightarrow> SessionCrypto \<Rightarrow> bytes \<Rightarrow> bytes \<Rightarrow> bytes option" where
  "SessionCrypto_encrypt P c nonce_bytes plaintext = pr_encrypt P (sc_key c) nonce_bytes plaintext"

definition SessionCrypto_decrypt :: "'sk primitives \<Rightarrow> SessionCrypto \<Rightarrow> bytes \<Rightarrow> bytes \<Rightarrow> bytes option" where
  "SessionCrypto_decrypt P c nonce_bytes ciphertext = pr_decrypt P (sc_key c) nonce_bytes ciphertext"

section \<open>Capability offers\<close>

datatype SessionError =
    Session_InvalidState | Session_InvalidPayloadSize | Session_DecryptionFailed | Session_SerializationError
  | Session_CryptoEngineNotReady | Session_UnexpectedPacket

record CapabilityOffer =
  co_name :: bytes
  co_permissions_bits :: u32
  co_risk_level :: u8

definition CapabilityOffer_to_bytes :: "CapabilityOffer \<Rightarrow> bytes" where
  "CapabilityOffer_to_bytes offer =
     [of_nat (length (co_name offer))] @ co_name offer @ to_le_bytes 4 (co_permissions_bits offer) @ [co_risk_level offer]"

definition CapabilityOffer_from_bytes :: "bytes \<Rightarrow> nat \<Rightarrow> (CapabilityOffer \<times> nat) option" where
  "CapabilityOffer_from_bytes data offset =
     (if offset \<ge> length data then None
      else
        let name_len = unat (data ! offset);
            offset = offset + 1
        in if offset + name_len > length data then None
           else
             let name = from_utf8_lossy (slice offset name_len data);
                 offset = offset + name_len
             in if offset + 4 + 1 > length data then None
                else
                  let permissions_bits = from_le_bytes (slice offset 4 data);
                      offset = offset + 4;
                      risk_level = data ! offset
                  in Some (\<lparr>co_name = name, co_permissions_bits = permissions_bits, co_risk_level = risk_level\<rparr>, offset + 1))"

record CapabilityNegotiation =
  cn_offered :: "CapabilityOffer list"
  cn_required :: "bytes list"
  cn_node_id :: bytes
  cn_timestamp :: u64

definition CapabilityNegotiation_new :: "bytes \<Rightarrow> u64 \<Rightarrow> CapabilityNegotiation" where
  "CapabilityNegotiation_new node_id timestamp =
     \<lparr>cn_offered = [], cn_required = [], cn_node_id = node_id, cn_timestamp = timestamp\<rparr>"

definition CapabilityNegotiation_to_bytes :: "CapabilityNegotiation \<Rightarrow> bytes" where
  "CapabilityNegotiation_to_bytes n =
     cn_node_id n @ to_le_bytes 8 (cn_timestamp n) @ [of_nat (length (cn_offered n))] @
     concat (map CapabilityOffer_to_bytes (cn_offered n)) @ [of_nat (length (cn_required n))] @
     concat (map (\<lambda>req. [of_nat (length req)] @ req) (cn_required n))"

fun parse_offers :: "nat \<Rightarrow> bytes \<Rightarrow> nat \<Rightarrow> (CapabilityOffer list \<times> nat) option" where
  "parse_offers 0 data offset = Some ([], offset)"
| "parse_offers (Suc n) data offset =
     (case CapabilityOffer_from_bytes data offset of
        None \<Rightarrow> None
      | Some (offer, offset) \<Rightarrow> map_option (\<lambda>(offers, offset). (offer # offers, offset)) (parse_offers n data offset))"

fun parse_required :: "nat \<Rightarrow> bytes \<Rightarrow> nat \<Rightarrow> (bytes list \<times> nat) option" where
  "parse_required 0 data offset = Some ([], offset)"
| "parse_required (Suc n) data offset =
     (if offset \<ge> length data then None
      else
        let name_len = unat (data ! offset);
            first = offset + 1
        in if first + name_len > length data then None
           else
             let name = from_utf8_lossy (slice first name_len data)
             in map_option (\<lambda>(required, offset). (name # required, offset)) (parse_required n data (first + name_len)))"

definition CapabilityNegotiation_from_bytes :: "bytes \<Rightarrow> CapabilityNegotiation option" where
  "CapabilityNegotiation_from_bytes data =
     (if length data < 25 then None
      else
        let node_id = slice 0 16 data;
            timestamp = from_le_bytes (slice 16 8 data);
            offered_count = unat (data ! 24)
        in case parse_offers offered_count data 25 of
             None \<Rightarrow> None
           | Some (offered, offset) \<Rightarrow>
               if offset \<ge> length data then None
               else
                 let required_count = unat (data ! offset)
                 in case parse_required required_count data (offset + 1) of
                      None \<Rightarrow> None
                    | Some (required, _) \<Rightarrow>
                        Some \<lparr>cn_offered = offered, cn_required = required, cn_node_id = node_id, cn_timestamp = timestamp\<rparr>)"

section \<open>Packets\<close>

datatype SessionPacketType = Packet_HandshakeInit | Packet_HandshakeResponse | Packet_CapabilityExchange
  | Packet_EncryptedData | Packet_Alert | Packet_Disconnect

fun SessionPacketType_raw :: "SessionPacketType \<Rightarrow> u8" where
  "SessionPacketType_raw Packet_HandshakeInit = 1"
| "SessionPacketType_raw Packet_HandshakeResponse = 2"
| "SessionPacketType_raw Packet_CapabilityExchange = 3"
| "SessionPacketType_raw Packet_EncryptedData = 4"
| "SessionPacketType_raw Packet_Alert = 5"
| "SessionPacketType_raw Packet_Disconnect = 6"

definition SessionPacketType_try_from :: "u8 \<Rightarrow> SessionPacketType option" where
  "SessionPacketType_try_from v =
     (if v = 1 then Some Packet_HandshakeInit else if v = 2 then Some Packet_HandshakeResponse
      else if v = 3 then Some Packet_CapabilityExchange else if v = 4 then Some Packet_EncryptedData
      else if v = 5 then Some Packet_Alert else if v = 6 then Some Packet_Disconnect else None)"

record SessionPacket =
  sp_ptype :: SessionPacketType
  sp_payload :: bytes

definition SessionPacket_to_bytes :: "SessionPacket \<Rightarrow> bytes" where
  "SessionPacket_to_bytes p =
     [SessionPacketType_raw (sp_ptype p), 0] @ to_le_bytes 2 (of_nat (length (sp_payload p)) :: u16) @ sp_payload p"

definition SessionPacket_parse :: "bytes \<Rightarrow> (SessionPacket \<times> nat) option" where
  "SessionPacket_parse data =
     (if length data < 4 then None
      else case SessionPacketType_try_from (data ! 0) of
        None \<Rightarrow> None
      | Some ptype \<Rightarrow>
          (let payload_len = unat (from_le_bytes (slice 2 2 data) :: u16)
           in if length data < 4 + payload_len then None
              else Some (\<lparr>sp_ptype = ptype, sp_payload = slice 4 payload_len data\<rparr>, 4 + payload_len)))"

section \<open>The session\<close>

datatype BraneSessionState = Session_Init | Session_WaitResponse | Session_WaitCapability | Session_Established | Session_Closed

record 'sk BraneSession =
  ss_socket_id :: u32
  ss_state :: BraneSessionState
  ss_remote_node_id :: "bytes option"
  ss_ephemeral_key :: "'sk EphemeralKey"
  ss_crypto_engine :: "SessionCrypto option"
  ss_local_capabilities :: "CapabilityNegotiation option"
  ss_remote_capabilities :: "CapabilityNegotiation option"
  ss_tx_nonce :: u64
  ss_rx_nonce :: u64
  ss_established_at :: u64

text \<open>The ephemeral key is generated by the caller of the model's constructor.\<close>

definition BraneSession_new :: "u32 \<Rightarrow> 'sk EphemeralKey \<Rightarrow> 'sk BraneSession" where
  "BraneSession_new socket_id key =
     \<lparr>ss_socket_id = socket_id, ss_state = Session_Init, ss_remote_node_id = None, ss_ephemeral_key = key,
      ss_crypto_engine = None, ss_local_capabilities = None, ss_remote_capabilities = None, ss_tx_nonce = 0,
      ss_rx_nonce = 0, ss_established_at = 0\<rparr>"

definition BraneSession_build_handshake_init :: "'sk BraneSession \<Rightarrow> SessionPacket \<times> 'sk BraneSession" where
  "BraneSession_build_handshake_init s =
     (\<lparr>sp_ptype = Packet_HandshakeInit, sp_payload = ek_public (ss_ephemeral_key s)\<rparr>,
      s\<lparr>ss_state := Session_WaitResponse\<rparr>)"

definition BraneSession_process_handshake_response ::
  "'sk primitives \<Rightarrow> bytes \<Rightarrow> 'sk BraneSession \<Rightarrow> (unit, SessionError) result \<times> 'sk BraneSession" where
  "BraneSession_process_handshake_response P payload s =
     (if ss_state s \<noteq> Session_WaitResponse then (Err Session_InvalidState, s)
      else if length payload < 32 then (Err Session_InvalidPayloadSize, s)
      else
        let peer_pub = take 32 payload;
            shared_secret = EphemeralKey_diffie_hellman P (ss_ephemeral_key s) peer_pub
        in (Ok (), s\<lparr>ss_crypto_engine := Some (SessionCrypto_new shared_secret), ss_tx_nonce := 0, ss_rx_nonce := 0,
                      ss_state := Session_WaitCapability\<rparr>))"

definition default_offers :: "CapabilityOffer list" where
  "default_offers =
     [\<lparr>co_name = ascii ''BRANE_CONNECT'', co_permissions_bits = push_bit 7 1, co_risk_level = 1\<rparr>,
      \<lparr>co_name = ascii ''IPC_SEND'', co_permissions_bits = push_bit 5 1, co_risk_level = 0\<rparr>,
      \<lparr>co_name = ascii ''IPC_RECV'', co_permissions_bits = push_bit 6 1, co_risk_level = 0\<rparr>]"

text \<open>\<^verbatim>\<open>now\<close> is what the clock returns.\<close>

definition BraneSession_build_capability_exchange ::
  "u64 \<Rightarrow> bytes \<Rightarrow> 'sk BraneSession \<Rightarrow> (SessionPacket, SessionError) result \<times> 'sk BraneSession" where
  "BraneSession_build_capability_exchange now our_node_id s =
     (if ss_state s \<noteq> Session_WaitCapability then (Err Session_InvalidState, s)
      else
        let neg = (CapabilityNegotiation_new our_node_id now)\<lparr>cn_offered := default_offers\<rparr>
        in (Ok \<lparr>sp_ptype = Packet_CapabilityExchange, sp_payload = CapabilityNegotiation_to_bytes neg\<rparr>,
            s\<lparr>ss_local_capabilities := Some neg\<rparr>))"

definition BraneSession_process_capability_exchange ::
  "u64 \<Rightarrow> bytes \<Rightarrow> 'sk BraneSession \<Rightarrow> (unit, SessionError) result \<times> 'sk BraneSession" where
  "BraneSession_process_capability_exchange now payload s =
     (if ss_state s \<noteq> Session_WaitCapability then (Err Session_InvalidState, s)
      else case CapabilityNegotiation_from_bytes payload of
        None \<Rightarrow> (Err Session_SerializationError, s)
      | Some neg \<Rightarrow>
          (Ok (), s\<lparr>ss_remote_node_id := Some (cn_node_id neg), ss_remote_capabilities := Some neg,
                    ss_state := Session_Established, ss_established_at := now\<rparr>))"

text \<open>The counters are plain 64-bit additions, which wrap around in the release build.\<close>

definition nonce_bytes :: "u64 \<Rightarrow> bytes" where
  "nonce_bytes n = splice (replicate 12 0) 0 (to_le_bytes 8 n)"

definition BraneSession_get_tx_nonce :: "'sk BraneSession \<Rightarrow> bytes \<times> 'sk BraneSession" where
  "BraneSession_get_tx_nonce s = (nonce_bytes (ss_tx_nonce s), s\<lparr>ss_tx_nonce := ss_tx_nonce s + 1\<rparr>)"

definition BraneSession_get_rx_nonce :: "'sk BraneSession \<Rightarrow> bytes \<times> 'sk BraneSession" where
  "BraneSession_get_rx_nonce s = (nonce_bytes (ss_rx_nonce s), s\<lparr>ss_rx_nonce := ss_rx_nonce s + 1\<rparr>)"

text \<open>
  The first half of \<^verbatim>\<open>encrypt_payload\<close>, up to the call of the cipher: the engine, the nonce and the text
  that the call is made with, or an early return.
\<close>

definition BraneSession_encrypt_call ::
  "bytes \<Rightarrow> 'sk BraneSession \<Rightarrow> (SessionCrypto \<times> bytes \<times> bytes, SessionError) result \<times> 'sk BraneSession" where
  "BraneSession_encrypt_call data s =
     (if ss_state s \<noteq> Session_Established then (Err Session_InvalidState, s)
      else case BraneSession_get_tx_nonce s of
        (nonce, s) \<Rightarrow>
          (case ss_crypto_engine s of
             None \<Rightarrow> (Err Session_CryptoEngineNotReady, s)
           | Some engine \<Rightarrow> (Ok (engine, nonce, data), s)))"

definition BraneSession_encrypt_payload ::
  "'sk primitives \<Rightarrow> bytes \<Rightarrow> 'sk BraneSession \<Rightarrow> (SessionPacket, SessionError) result \<times> 'sk BraneSession" where
  "BraneSession_encrypt_payload P data s =
     (case BraneSession_encrypt_call data s of
        (Inl e, s) \<Rightarrow> (Err e, s)
      | (Inr (engine, nonce, text), s) \<Rightarrow>
          (case SessionCrypto_encrypt P engine nonce text of
             None \<Rightarrow> (Err Session_DecryptionFailed, s)
           | Some ciphertext \<Rightarrow> (Ok \<lparr>sp_ptype = Packet_EncryptedData, sp_payload = ciphertext\<rparr>, s)))"

definition BraneSession_decrypt_payload ::
  "'sk primitives \<Rightarrow> bytes \<Rightarrow> 'sk BraneSession \<Rightarrow> (bytes, SessionError) result \<times> 'sk BraneSession" where
  "BraneSession_decrypt_payload P data s =
     (if ss_state s \<noteq> Session_Established then (Err Session_InvalidState, s)
      else case BraneSession_get_rx_nonce s of
        (nonce, s) \<Rightarrow>
          (case ss_crypto_engine s of
             None \<Rightarrow> (Err Session_CryptoEngineNotReady, s)
           | Some engine \<Rightarrow>
               (case SessionCrypto_decrypt P engine nonce data of
                  None \<Rightarrow> (Err Session_DecryptionFailed, s)
                | Some plaintext \<Rightarrow> (Ok plaintext, s))))"

definition BraneSession_close :: "'sk BraneSession \<Rightarrow> SessionPacket \<times> 'sk BraneSession" where
  "BraneSession_close s = (\<lparr>sp_ptype = Packet_Disconnect, sp_payload = []\<rparr>, s\<lparr>ss_state := Session_Closed\<rparr>)"

definition BraneSession_is_established :: "'sk BraneSession \<Rightarrow> bool" where
  "BraneSession_is_established s \<longleftrightarrow> ss_state s = Session_Established \<and> ss_crypto_engine s \<noteq> None"

definition BraneSession_summary :: "'sk BraneSession \<Rightarrow> u32 \<times> BraneSessionState \<times> bool" where
  "BraneSession_summary s = (ss_socket_id s, ss_state s, BraneSession_is_established s)"

section \<open>Wire formats\<close>

lemma packet_type_roundtrip [simp]: "SessionPacketType_try_from (SessionPacketType_raw t) = Some t"
  by (cases t) (simp_all add: SessionPacketType_try_from_def)

lemma slice_middle: "length xs = a \<Longrightarrow> length ys = n \<Longrightarrow> slice a n (xs @ ys @ zs) = ys"
  by (simp add: slice_def)

lemma packet_parse_prefix:
  "let n = length (sp_payload p) mod 2 ^ 16
   in SessionPacket_parse (SessionPacket_to_bytes p @ rest) = Some (p\<lparr>sp_payload := take n (sp_payload p)\<rparr>, 4 + n)"
proof -
  let ?l = "of_nat (length (sp_payload p)) :: u16"
  obtain a b where ab: "to_le_bytes 2 ?l = [a, b]"
    by (simp add: to_le_bytes_def numeral_2_eq_2)
  then have "(from_le_bytes [a, b] :: u16) = ?l" using from_to_le_bytes [of 2 ?l] by simp
  then show ?thesis by (simp add: SessionPacket_parse_def SessionPacket_to_bytes_def ab slice_def unat_of_nat Let_def)
qed

definition short_string :: "bytes \<Rightarrow> bool" where
  "short_string name \<longleftrightarrow> length name < 256 \<and> utf8_valid name"

lemma unat_u8_of_nat: "n < 256 \<Longrightarrow> unat (of_nat n :: u8) = n"
  by (simp add: unat_of_nat)

lemma slice_at: "slice (length pre + k) n (pre @ xs) = slice k n xs"
  by (simp add: slice_def)

lemma nth_at: "(pre @ xs) ! (length pre + k) = xs ! k"
  by (simp add: nth_append)

lemma offer_parse:
  assumes "short_string (co_name o')"
  shows "CapabilityOffer_from_bytes (pre @ CapabilityOffer_to_bytes o' @ post) (length pre) =
    Some (o', length (pre @ CapabilityOffer_to_bytes o'))"
proof -
  let ?n = "length (co_name o')" and ?d = "pre @ CapabilityOffer_to_bytes o' @ post"
  have n: "unat (of_nat ?n :: u8) = ?n" "from_utf8_lossy (co_name o') = co_name o'"
    using assms by (simp_all add: short_string_def unat_u8_of_nat from_utf8_lossy_valid)
  have len: "length (CapabilityOffer_to_bytes o') = ?n + 6" by (simp add: CapabilityOffer_to_bytes_def)
  have "?d ! length pre = of_nat ?n" using nth_at [of pre _ 0] by (simp add: CapabilityOffer_to_bytes_def)
  moreover have "slice (length pre + 1) ?n ?d = co_name o'"
    unfolding slice_at by (simp add: CapabilityOffer_to_bytes_def slice_def)
  moreover have "slice (length pre + 1 + ?n) 4 ?d = to_le_bytes 4 (co_permissions_bits o')"
    unfolding add.assoc slice_at by (simp add: CapabilityOffer_to_bytes_def slice_def)
  moreover have "?d ! (length pre + 1 + ?n + 4) = co_risk_level o'"
    unfolding add.assoc nth_at by (simp add: CapabilityOffer_to_bytes_def nth_append nth_Cons')
  ultimately show ?thesis using n len
    by (simp add: CapabilityOffer_from_bytes_def)
qed

lemma offers_parse:
  assumes "list_all (\<lambda>o'. short_string (co_name o')) os"
  shows "parse_offers (length os) (pre @ concat (map CapabilityOffer_to_bytes os) @ post) (length pre) =
    Some (os, length (pre @ concat (map CapabilityOffer_to_bytes os)))"
  using assms
proof (induction os arbitrary: pre)
  case (Cons o' os)
  have "parse_offers (length os) ((pre @ CapabilityOffer_to_bytes o') @ concat (map CapabilityOffer_to_bytes os) @ post)
      (length (pre @ CapabilityOffer_to_bytes o')) =
    Some (os, length ((pre @ CapabilityOffer_to_bytes o') @ concat (map CapabilityOffer_to_bytes os)))"
    by (rule Cons.IH) (use Cons.prems in simp)
  then show ?case using offer_parse [of o' pre "concat (map CapabilityOffer_to_bytes os) @ post"] Cons.prems by simp
qed simp

definition required_to_bytes :: "bytes \<Rightarrow> bytes" where
  "required_to_bytes req = [of_nat (length req)] @ req"

lemma required_parse:
  assumes "list_all short_string rs"
  shows "parse_required (length rs) (pre @ concat (map required_to_bytes rs) @ post) (length pre) =
    Some (rs, length (pre @ concat (map required_to_bytes rs)))"
  using assms
proof (induction rs arbitrary: pre)
  case (Cons r rs)
  let ?d = "pre @ required_to_bytes r @ concat (map required_to_bytes rs) @ post"
  have r: "unat (of_nat (length r) :: u8) = length r" "from_utf8_lossy r = r"
    using Cons.prems by (simp_all add: short_string_def unat_u8_of_nat from_utf8_lossy_valid)
  have "parse_required (length rs) ((pre @ required_to_bytes r) @ concat (map required_to_bytes rs) @ post)
      (length (pre @ required_to_bytes r)) = Some (rs, length ((pre @ required_to_bytes r) @ concat (map required_to_bytes rs)))"
    by (rule Cons.IH) (use Cons.prems in simp)
  moreover have "?d ! length pre = of_nat (length r)" using nth_at [of pre _ 0] by (simp add: required_to_bytes_def)
  moreover have "slice (length pre + 1) (length r) ?d = r"
    unfolding slice_at by (simp add: required_to_bytes_def slice_def)
  moreover have "length (required_to_bytes r) = length r + 1" by (simp add: required_to_bytes_def)
  ultimately show ?case using r by (simp add: Let_def)
qed simp

definition negotiation_ok :: "CapabilityNegotiation \<Rightarrow> bool" where
  "negotiation_ok n \<longleftrightarrow> length (cn_node_id n) = 16 \<and> length (cn_offered n) < 256 \<and> length (cn_required n) < 256 \<and>
     list_all (\<lambda>o'. short_string (co_name o')) (cn_offered n) \<and> list_all short_string (cn_required n)"

lemma negotiation_parse:
  assumes "negotiation_ok n"
  shows "CapabilityNegotiation_from_bytes (CapabilityNegotiation_to_bytes n @ rest) = Some n"
proof -
  let ?head = "cn_node_id n @ to_le_bytes 8 (cn_timestamp n)"
  let ?os = "concat (map CapabilityOffer_to_bytes (cn_offered n))" and ?rs = "concat (map required_to_bytes (cn_required n))"
  let ?no = "of_nat (length (cn_offered n)) :: u8" and ?nr = "of_nat (length (cn_required n)) :: u8"
  have ok: "length (cn_node_id n) = 16" "unat ?no = length (cn_offered n)" "unat ?nr = length (cn_required n)"
    using assms by (simp_all add: negotiation_ok_def unat_u8_of_nat)
  define d where "d = ?head @ [?no] @ ?os @ [?nr] @ ?rs @ rest"
  have d: "CapabilityNegotiation_to_bytes n @ rest = d"
    by (simp add: CapabilityNegotiation_to_bytes_def d_def required_to_bytes_def [abs_def])
  have 1: "parse_offers (length (cn_offered n)) d 25 = Some (cn_offered n, 25 + length ?os)"
    using offers_parse [of "cn_offered n" "?head @ [?no]" "[?nr] @ ?rs @ rest"] assms ok(1)
    by (simp add: d_def negotiation_ok_def add.commute)
  have 2: "parse_required (length (cn_required n)) d (25 + length ?os + 1) = Some (cn_required n, 25 + length ?os + 1 + length ?rs)"
    using required_parse [of "cn_required n" "?head @ [?no] @ ?os @ [?nr]" rest] assms ok(1)
    by (simp add: d_def negotiation_ok_def add.commute)
  have 3: "d ! 24 = ?no" "d ! (25 + length ?os) = ?nr" "slice 0 16 d = cn_node_id n" "slice 16 8 d = to_le_bytes 8 (cn_timestamp n)"
    using ok(1) by (simp_all add: d_def nth_append nth_Cons' slice_def)
  have 4: "26 + length ?os \<le> length d" using ok(1) by (simp add: d_def)
  show ?thesis using 1 2 3 4 ok(2,3) unfolding d CapabilityNegotiation_from_bytes_def by (simp add: Let_def)
qed

end
