(* ===== verification/Brane_Tunnel.thy ===== *)
theory Brane_Tunnel
  imports Brane_Session
begin

text \<open>
  Properties of the session protocol: its wire formats are inverted by their parsers, two sessions that
  complete the handshake with each other have a tunnel that delivers every message in order, the key and
  nonce pairs a session encrypts under are distinct as long as it makes one handshake, and the cases in
  which a pair is used twice.
\<close>

section \<open>Runs of one session\<close>

datatype session_op =
    Op_Init | Op_Response bytes | Op_Build_Caps u64 bytes | Op_Process_Caps u64 bytes
  | Op_Encrypt bytes | Op_Decrypt bytes | Op_Close

text \<open>
  A step yields the key and nonce pairs that it hands to the cipher; only an encryption calls the cipher
  for a message of this side.
\<close>

fun session_step :: "'sk primitives \<Rightarrow> session_op \<Rightarrow> 'sk BraneSession \<Rightarrow> (bytes \<times> bytes) list \<times> 'sk BraneSession" where
  "session_step P Op_Init s = ([], snd (BraneSession_build_handshake_init s))"
| "session_step P (Op_Response payload) s = ([], snd (BraneSession_process_handshake_response P payload s))"
| "session_step P (Op_Build_Caps now node) s = ([], snd (BraneSession_build_capability_exchange now node s))"
| "session_step P (Op_Process_Caps now payload) s = ([], snd (BraneSession_process_capability_exchange now payload s))"
| "session_step P (Op_Encrypt data) s =
     ((case fst (BraneSession_encrypt_call data s) of Inr (engine, nonce, _) \<Rightarrow> [(sc_key engine, nonce)] | Inl _ \<Rightarrow> []),
      snd (BraneSession_encrypt_payload P data s))"
| "session_step P (Op_Decrypt data) s = ([], snd (BraneSession_decrypt_payload P data s))"
| "session_step P Op_Close s = ([], snd (BraneSession_close s))"

fun session_run :: "'sk primitives \<Rightarrow> session_op list \<Rightarrow> 'sk BraneSession \<Rightarrow> (bytes \<times> bytes) list \<times> 'sk BraneSession" where
  "session_run P [] s = ([], s)"
| "session_run P (op # ops) s =
     (case session_step P op s of
        (used, s) \<Rightarrow> (case session_run P ops s of (later, s) \<Rightarrow> (used @ later, s)))"

lemma nonce_bytes_inj: "nonce_bytes a = nonce_bytes b \<longleftrightarrow> a = b"
proof
  assume "nonce_bytes a = nonce_bytes b"
  then have "to_le_bytes 8 a = to_le_bytes 8 b" by (simp add: nonce_bytes_def splice_def)
  then have "(from_le_bytes (to_le_bytes 8 a) :: u64) = from_le_bytes (to_le_bytes 8 b)" by simp
  then show "a = b" by simp
qed simp

text \<open>
  A session with a cipher has left the state in which a handshake response is accepted, so the key stays
  and the counter only counts the calls of the cipher, modulo 2 to the 64. The last argument bounds the
  handshakes still to be started.
\<close>

definition fresh_inv :: "'sk BraneSession \<Rightarrow> (bytes \<times> bytes) list \<Rightarrow> nat \<Rightarrow> bool" where
  "fresh_inv s used inits \<longleftrightarrow>
     (case ss_crypto_engine s of
        None \<Rightarrow> used = [] \<and> ss_state s \<noteq> Session_WaitCapability \<and> ss_state s \<noteq> Session_Established \<and>
          (ss_state s = Session_WaitResponse \<longrightarrow> inits = 0)
      | Some e \<Rightarrow> ss_state s \<noteq> Session_WaitResponse \<and> inits = 0 \<and> ss_tx_nonce s = of_nat (length used) \<and>
          used = map (\<lambda>i. (sc_key e, nonce_bytes (of_nat i))) [0..<length used])"

lemma encrypt_state:
  "snd (BraneSession_encrypt_payload P data s) =
     (if ss_state s = Session_Established then s\<lparr>ss_tx_nonce := ss_tx_nonce s + 1\<rparr> else s)"
  by (simp add: BraneSession_encrypt_payload_def BraneSession_encrypt_call_def BraneSession_get_tx_nonce_def split: option.split)

lemma decrypt_state:
  "snd (BraneSession_decrypt_payload P data s) =
     (if ss_state s = Session_Established then s\<lparr>ss_rx_nonce := ss_rx_nonce s + 1\<rparr> else s)"
  by (simp add: BraneSession_decrypt_payload_def BraneSession_get_rx_nonce_def split: option.split)

lemma fresh_encrypt:
  assumes "fresh_inv s used i" "session_step P (Op_Encrypt data) s = (u, s')"
  shows "fresh_inv s' (used @ u) i"
proof (cases "ss_state s = Session_Established")
  case True
  then obtain e where e: "ss_crypto_engine s = Some e" using assms(1) by (auto simp: fresh_inv_def split: option.splits)
  have s': "s' = s\<lparr>ss_tx_nonce := ss_tx_nonce s + 1\<rparr>" using assms(2) True by (simp add: encrypt_state split: if_splits)
  have u: "u = [(sc_key e, nonce_bytes (ss_tx_nonce s))]"
    using assms(2) True e by (simp add: BraneSession_encrypt_call_def BraneSession_get_tx_nonce_def)
  have i: "used = map (\<lambda>i. (sc_key e, nonce_bytes (of_nat i))) [0..<length used]" "ss_tx_nonce s = of_nat (length used)" "i = 0"
    using assms(1) e by (simp_all add: fresh_inv_def)
  have "used @ u = map (\<lambda>i. (sc_key e, nonce_bytes (of_nat i))) [0..<length used] @ u" using i(1) by simp
  also have "\<dots> = map (\<lambda>i. (sc_key e, nonce_bytes (of_nat i))) [0..<length (used @ u)]" by (simp add: u i(2))
  finally show ?thesis using True e i by (simp add: fresh_inv_def s' u)
next
  case False
  then have "u = []" "s' = s" using assms(2) by (simp_all add: encrypt_state BraneSession_encrypt_call_def)
  then show ?thesis using assms(1) by simp
qed

lemma fresh_step:
  assumes "fresh_inv s used i" "session_step P op s = (u, s')" "op = Op_Init \<Longrightarrow> i = 1"
  shows "fresh_inv s' (used @ u) (if op = Op_Init then 0 else i)"
  using assms
proof (cases op)
  case (Op_Encrypt data)
  then show ?thesis using assms fresh_encrypt [OF assms(1), of P data] by simp
next
  case (Op_Decrypt data)
  then have "s' = (if ss_state s = Session_Established then s\<lparr>ss_rx_nonce := ss_rx_nonce s + 1\<rparr> else s)" "u = []"
    using assms(2) decrypt_state [of P data s] by auto
  then show ?thesis using assms(1) Op_Decrypt by (auto simp: fresh_inv_def split: option.splits)
qed (auto simp: fresh_inv_def BraneSession_build_handshake_init_def BraneSession_process_handshake_response_def
    BraneSession_build_capability_exchange_def BraneSession_process_capability_exchange_def BraneSession_close_def Let_def
    split: option.splits if_splits)

lemma fresh_run:
  assumes "fresh_inv s used i" "session_run P ops s = (u, s')" "length (filter (\<lambda>op. op = Op_Init) ops) \<le> i" "i \<le> 1"
  shows "\<exists>i'. fresh_inv s' (used @ u) i'"
  using assms
proof (induction ops arbitrary: s used u i)
  case (Cons op ops)
  then obtain u1 s1 u2 where s1: "session_step P op s = (u1, s1)" "session_run P ops s1 = (u2, s')" "u = u1 @ u2"
    by (auto split: prod.splits)
  have "fresh_inv s1 (used @ u1) (if op = Op_Init then 0 else i)"
    by (rule fresh_step [OF Cons.prems(1) s1(1)]) (use Cons.prems(3,4) in auto)
  moreover define n where "n = length (filter (\<lambda>op. op = Op_Init) ops)"
  have "(if op = Op_Init then Suc n else n) \<le> i" using Cons.prems(3) by (simp add: n_def split: if_splits)
  then have "length (filter (\<lambda>op. op = Op_Init) ops) \<le> (if op = Op_Init then 0 else i)" "(if op = Op_Init then 0 else i) \<le> 1"
    using Cons.prems(4) unfolding n_def [symmetric] by (auto split: if_splits)
  ultimately have "\<exists>i'. fresh_inv s' ((used @ u1) @ u2) i'" by (rule Cons.IH [OF _ s1(2)])
  then show ?case by (simp add: s1(3))
qed auto

lemma fresh_distinct:
  assumes "fresh_inv s used i" "length used \<le> 2 ^ 64"
  shows "distinct used"
proof (cases "ss_crypto_engine s")
  case (Some e)
  have "distinct (map (\<lambda>i. (sc_key e, nonce_bytes (of_nat i))) [0..<length used])"
    unfolding distinct_map
  proof (intro conjI inj_onI)
    fix x y
    assume xy: "x \<in> set [0..<length used]" "y \<in> set [0..<length used]"
      "(sc_key e, nonce_bytes (of_nat x)) = (sc_key e, nonce_bytes (of_nat y))"
    then have "(of_nat x :: u64) = of_nat y" by (simp add: nonce_bytes_inj)
    then have "unat (of_nat x :: u64) = unat (of_nat y :: u64)" by simp
    then show "x = y" using xy(1,2) assms(2) by (simp add: unat_of_nat)
  qed simp
  then show ?thesis using assms(1) Some by (simp add: fresh_inv_def)
qed (use assms(1) in \<open>simp add: fresh_inv_def\<close>)

section \<open>Two sessions\<close>

text \<open>Both sides send their public key, take the other's as the response, and exchange their offers.\<close>

definition paired :: "'sk primitives \<Rightarrow> u64 \<Rightarrow> bytes \<Rightarrow> bytes \<Rightarrow> 'sk BraneSession \<times> 'sk BraneSession \<Rightarrow> 'sk BraneSession \<times> 'sk BraneSession" where
  "paired P now node_a node_b =
     (\<lambda>(a, b).
        let (init_a, a) = BraneSession_build_handshake_init a;
            (init_b, b) = BraneSession_build_handshake_init b;
            (_, a) = BraneSession_process_handshake_response P (sp_payload init_b) a;
            (_, b) = BraneSession_process_handshake_response P (sp_payload init_a) b;
            (caps_a, a) = BraneSession_build_capability_exchange now node_a a;
            (caps_b, b) = BraneSession_build_capability_exchange now node_b b;
            (_, a) = BraneSession_process_capability_exchange now (sp_payload (projr caps_b)) a;
            (_, b) = BraneSession_process_capability_exchange now (sp_payload (projr caps_a)) b
        in (a, b))"

fun encrypt_all :: "'sk primitives \<Rightarrow> bytes list \<Rightarrow> 'sk BraneSession \<Rightarrow> (SessionPacket list \<times> 'sk BraneSession) option" where
  "encrypt_all P [] s = Some ([], s)"
| "encrypt_all P (m # ms) s =
     (case BraneSession_encrypt_payload P m s of
        (Inr p, s) \<Rightarrow> map_option (\<lambda>(ps, s). (p # ps, s)) (encrypt_all P ms s)
      | _ \<Rightarrow> None)"

fun decrypt_all :: "'sk primitives \<Rightarrow> bytes list \<Rightarrow> 'sk BraneSession \<Rightarrow> (bytes list \<times> 'sk BraneSession) option" where
  "decrypt_all P [] s = Some ([], s)"
| "decrypt_all P (c # cs) s =
     (case BraneSession_decrypt_payload P c s of
        (Inr m, s) \<Rightarrow> map_option (\<lambda>(ms, s). (m # ms, s)) (decrypt_all P cs s)
      | _ \<Rightarrow> None)"

definition tunnel :: "'sk BraneSession \<Rightarrow> 'sk BraneSession \<Rightarrow> bool" where
  "tunnel a b \<longleftrightarrow> ss_state a = Session_Established \<and> ss_state b = Session_Established \<and>
     ss_crypto_engine a \<noteq> None \<and> ss_crypto_engine a = ss_crypto_engine b \<and> ss_tx_nonce a = ss_rx_nonce b"

lemma tunnel_step:
  assumes "cipher_inverts P" "tunnel a b" "length m < 2 ^ 32"
  shows "\<exists>p a' b'. BraneSession_encrypt_payload P m a = (Ok p, a') \<and>
    BraneSession_decrypt_payload P (sp_payload p) b = (Ok m, b') \<and> tunnel a' b'"
proof -
  obtain e where e: "ss_crypto_engine a = Some e" "ss_crypto_engine b = Some e" using assms(2) by (auto simp: tunnel_def)
  obtain c where c: "pr_encrypt P (sc_key e) (nonce_bytes (ss_tx_nonce a)) m = Some c"
    "pr_decrypt P (sc_key e) (nonce_bytes (ss_tx_nonce a)) c = Some m" using assms(1,3) unfolding cipher_inverts_def by blast
  show ?thesis using assms(2) e c
    by (simp add: BraneSession_encrypt_payload_def BraneSession_encrypt_call_def BraneSession_decrypt_payload_def
        BraneSession_get_tx_nonce_def BraneSession_get_rx_nonce_def SessionCrypto_encrypt_def SessionCrypto_decrypt_def tunnel_def)
qed

lemma tunnel_all:
  assumes "cipher_inverts P" "tunnel a b" "list_all (\<lambda>m. length m < 2 ^ 32) ms"
  shows "\<exists>ps a' b'. encrypt_all P ms a = Some (ps, a') \<and> decrypt_all P (map sp_payload ps) b = Some (ms, b')"
  using assms(2,3)
proof (induction ms arbitrary: a b)
  case (Cons m ms)
  obtain p a' b' where 1: "BraneSession_encrypt_payload P m a = (Ok p, a')"
    "BraneSession_decrypt_payload P (sp_payload p) b = (Ok m, b')" "tunnel a' b'"
    using tunnel_step [OF assms(1) Cons.prems(1), of m] Cons.prems(2) by auto
  obtain ps a'' b'' where "encrypt_all P ms a' = Some (ps, a'')" "decrypt_all P (map sp_payload ps) b' = Some (ms, b'')"
    using Cons.IH [OF 1(3)] Cons.prems(2) by auto
  then show ?case using 1(1,2) by simp
qed auto

lemma default_offers_ok: "length node = 16 \<Longrightarrow> negotiation_ok ((CapabilityNegotiation_new node now)\<lparr>cn_offered := default_offers\<rparr>)"
  by (simp add: negotiation_ok_def CapabilityNegotiation_new_def default_offers_def short_string_def ascii_def
      ascii_utf8_valid)

lemma paired_tunnel:
  assumes "agreement_commutes P" "public_is_32_bytes P" "length node_a = 16" "length node_b = 16"
    "ek_public ka = pr_public P (ek_secret ka)" "ek_public kb = pr_public P (ek_secret kb)"
    "paired P now node_a node_b (BraneSession_new ia ka, BraneSession_new ib kb) = (a, b)"
  shows "tunnel a b" "tunnel b a" "ss_tx_nonce a = 0" "ss_tx_nonce b = 0"
    "ss_remote_node_id a = Some node_b" "ss_remote_node_id b = Some node_a"
proof -
  have k: "pr_agree P (ek_secret ka) (ek_public kb) = pr_agree P (ek_secret kb) (ek_public ka)"
    "length (ek_public ka) = 32" "length (ek_public kb) = 32"
    using assms(1,2,5,6) by (simp_all add: agreement_commutes_def public_is_32_bytes_def)
  have caps: "CapabilityNegotiation_from_bytes (CapabilityNegotiation_to_bytes ((CapabilityNegotiation_new node now)\<lparr>cn_offered := default_offers\<rparr>)) =
      Some ((CapabilityNegotiation_new node now)\<lparr>cn_offered := default_offers\<rparr>)" if "length node = 16" for node
    using negotiation_parse [OF default_offers_ok [OF that], of now "[]"] by simp
  note defs = paired_def BraneSession_new_def BraneSession_build_handshake_init_def BraneSession_process_handshake_response_def
    BraneSession_build_capability_exchange_def BraneSession_process_capability_exchange_def EphemeralKey_diffie_hellman_def
    SessionCrypto_new_def Let_def
  show "tunnel a b" "tunnel b a" "ss_tx_nonce a = 0" "ss_tx_nonce b = 0"
    "ss_remote_node_id a = Some node_b" "ss_remote_node_id b = Some node_a"
    using assms(7) k caps [OF assms(3)] caps [OF assms(4)]
    by (auto simp: defs tunnel_def CapabilityNegotiation_new_def)
qed

section \<open>Properties\<close>

text \<open>
  C23. The wire formats of the session protocol. A serialised packet followed by anything is parsed back
  to the packet and its length, as long as its payload has less than 65536 bytes; a longer payload is cut
  to its length modulo 65536, because the length field has 16 bits. A serialised capability negotiation
  with a 16-byte node identifier, at most 255 offers and requirements and valid names of at most 255
  bytes is parsed back to itself.
\<close>

theorem session_wire_roundtrip:
  "(let n = length (sp_payload p) mod 2 ^ 16
    in SessionPacket_parse (SessionPacket_to_bytes p @ rest) = Some (p\<lparr>sp_payload := take n (sp_payload p)\<rparr>, 4 + n)) \<and>
   (negotiation_ok neg \<longrightarrow> CapabilityNegotiation_from_bytes (CapabilityNegotiation_to_bytes neg @ rest) = Some neg)"
  using packet_parse_prefix negotiation_parse by blast

theorem session_wire_roundtrip_witness:
  "let p = \<lparr>sp_ptype = Packet_EncryptedData, sp_payload = [1, 2, 3]\<rparr>;
       neg = (CapabilityNegotiation_new (replicate 16 7) 5)\<lparr>cn_offered := default_offers\<rparr>
   in SessionPacket_parse (SessionPacket_to_bytes p) = Some (p, 7) \<and>
      CapabilityNegotiation_from_bytes (CapabilityNegotiation_to_bytes neg) = Some neg"
  using session_wire_roundtrip [of "\<lparr>sp_ptype = Packet_EncryptedData, sp_payload = [1, 2, 3]\<rparr>" "[]"
      "(CapabilityNegotiation_new (replicate 16 7) 5)\<lparr>cn_offered := default_offers\<rparr>"] default_offers_ok [of "replicate 16 7" 5]
  by (simp add: Let_def)

text \<open>
  C21. The encrypted tunnel delivers. When two fresh sessions take each other's handshake packet as the
  response and exchange their capability offers, both are established and know the other's node
  identifier; every sequence of messages of less than 4 GiB each that one side encrypts is decrypted by the other
  side, in order, to exactly these messages; the counters of the two sides wrap around together. This rests on the documented behaviour of the key
  agreement and of the cipher.
\<close>

theorem session_tunnel_delivers:
  assumes "agreement_commutes P" "public_is_32_bytes P" "cipher_inverts P" "length node_a = 16" "length node_b = 16"
    "ek_public ka = pr_public P (ek_secret ka)" "ek_public kb = pr_public P (ek_secret kb)" "list_all (\<lambda>m. length m < 2 ^ 32) ms"
  shows "case paired P now node_a node_b (BraneSession_new ia ka, BraneSession_new ib kb) of (a, b) \<Rightarrow>
    BraneSession_is_established a \<and> BraneSession_is_established b \<and>
    ss_remote_node_id a = Some node_b \<and> ss_remote_node_id b = Some node_a \<and>
    (\<exists>ps a' b'. encrypt_all P ms a = Some (ps, a') \<and> decrypt_all P (map sp_payload ps) b = Some (ms, b'))"
proof -
  obtain a b where ab: "paired P now node_a node_b (BraneSession_new ia ka, BraneSession_new ib kb) = (a, b)" by fastforce
  note t = paired_tunnel [OF assms(1,2,4-7) ab]
  show ?thesis unfolding ab using t(1,5,6) tunnel_all [OF assms(3) t(1), of ms] assms(8)
    by (auto simp: tunnel_def BraneSession_is_established_def)
qed

text \<open>A toy instance: keys are numbers, the agreement multiplies, the cipher prepends the key and nonce.\<close>

definition toy_primitives :: "nat primitives" where
  "toy_primitives = \<lparr>pr_seed_length = 32, pr_from_seed = length, pr_public = (\<lambda>a. replicate 32 (of_nat a)),
     pr_agree = (\<lambda>a p. [of_nat a * hd p]), pr_encrypt = (\<lambda>k n p. Some (k @ n @ p)),
     pr_decrypt = (\<lambda>k n c. if take (length (k @ n)) c = k @ n then Some (drop (length (k @ n)) c) else None)\<rparr>"

definition toy_key :: "nat \<Rightarrow> nat EphemeralKey" where
  "toy_key a = \<lparr>ek_secret = a, ek_public = pr_public toy_primitives a\<rparr>"

lemma toy_laws: "agreement_commutes toy_primitives" "public_is_32_bytes toy_primitives" "cipher_inverts toy_primitives"
  by (simp_all add: agreement_commutes_def public_is_32_bytes_def cipher_inverts_def toy_primitives_def mult.commute)

lemma toy_key_ok: "ek_public (toy_key a) = pr_public toy_primitives (ek_secret (toy_key a))"
  by (simp add: toy_key_def)

theorem session_tunnel_delivers_witness:
  "case paired toy_primitives 0 (replicate 16 1) (replicate 16 2) (BraneSession_new 1 (toy_key 3), BraneSession_new 2 (toy_key 5)) of
     (a, b) \<Rightarrow> \<exists>ps a' b'. encrypt_all toy_primitives [[1], [2, 3]] a = Some (ps, a') \<and>
       decrypt_all toy_primitives (map sp_payload ps) b = Some ([[1], [2, 3]], b')"
  using session_tunnel_delivers [OF toy_laws, of "replicate 16 1" "replicate 16 2" "toy_key 3" "toy_key 5" "[[1], [2, 3]]" 0 1 2]
  by (simp add: toy_key_ok split: prod.splits)

text \<open>
  C22. A session encrypts under fresh nonces: in every sequence of operations on a new session that
  starts at most one handshake, the pairs of key and nonce that the session hands to the cipher for its
  messages are pairwise distinct, whatever the peer sends, as long as there are at most 2 to the 64 of
  them, after which the counter has wrapped around.
\<close>

theorem session_nonces_fresh:
  assumes "session_run P ops (BraneSession_new socket key) = (used, s)"
    "length (filter (\<lambda>op. op = Op_Init) ops) \<le> 1" "length used \<le> 2 ^ 64"
  shows "distinct used"
proof -
  have "fresh_inv (BraneSession_new socket key) [] 1" by (simp add: fresh_inv_def BraneSession_new_def)
  from fresh_run [OF this assms(1,2)] show ?thesis using fresh_distinct assms(3) by auto
qed

definition hello :: bytes where
  "hello = CapabilityNegotiation_to_bytes ((CapabilityNegotiation_new (replicate 16 9) 0)\<lparr>cn_offered := default_offers\<rparr>)"

lemma hello_parse: "\<exists>neg. CapabilityNegotiation_from_bytes hello = Some neg"
  using negotiation_parse [OF default_offers_ok, of "replicate 16 9" 0 "[]"] by (simp add: hello_def)

lemma handshake_run:
  assumes "length r \<ge> 32" "CapabilityNegotiation_from_bytes caps = Some neg"
  shows "\<exists>s'. session_run P [Op_Init, Op_Response r, Op_Process_Caps now caps, Op_Encrypt m] s =
      ([(pr_agree P (ek_secret (ss_ephemeral_key s)) (take 32 r), nonce_bytes 0)], s') \<and>
      ss_ephemeral_key s' = ss_ephemeral_key s"
  using assms
  by (simp add: BraneSession_build_handshake_init_def BraneSession_process_handshake_response_def Let_def
      BraneSession_process_capability_exchange_def encrypt_state BraneSession_encrypt_call_def BraneSession_get_tx_nonce_def
      EphemeralKey_diffie_hellman_def SessionCrypto_new_def)

lemma session_run_append:
  "session_run P (xs @ ys) s =
    (case session_run P xs s of (u, s) \<Rightarrow> (case session_run P ys s of (u', s) \<Rightarrow> (u @ u', s)))"
  by (induction xs arbitrary: s) (simp_all add: case_prod_unfold)

theorem session_nonces_fresh_witness:
  "\<exists>used s. session_run toy_primitives [Op_Init, Op_Response (replicate 32 4), Op_Process_Caps 0 hello, Op_Encrypt [1]]
     (BraneSession_new 1 (toy_key 3)) = (used, s) \<and> length used = 1 \<and> distinct used"
proof -
  obtain neg where "CapabilityNegotiation_from_bytes hello = Some neg" using hello_parse by blast
  from handshake_run [OF _ this, of "replicate 32 4" toy_primitives 0 "[1]" "BraneSession_new 1 (toy_key 3)"]
  obtain used s where r: "session_run toy_primitives [Op_Init, Op_Response (replicate 32 4), Op_Process_Caps 0 hello, Op_Encrypt [1]]
     (BraneSession_new 1 (toy_key 3)) = (used, s)" "length used = 1" by auto
  from session_nonces_fresh [OF this(1)] r show ?thesis by auto
qed

text \<open>
  C38. Two ways in which the protocol encrypts two messages under the same key and nonce. First, a
  session that starts a second handshake keeps its ephemeral key, so that with the same peer key the same
  cipher key is derived and the counter starts at 0 again. Second, both directions of a tunnel use the
  same key and both counters start at 0, so that the first messages of the two sides share key and nonce.
  The pairs are those of the calls of the cipher.
\<close>

theorem session_nonce_reuse:
  assumes "agreement_commutes P" "public_is_32_bytes P"
    "ek_public ka = pr_public P (ek_secret ka)" "ek_public kb = pr_public P (ek_secret kb)"
    "CapabilityNegotiation_from_bytes caps = Some neg"
  shows "let steps = (\<lambda>peer m. [Op_Init, Op_Response (ek_public peer), Op_Process_Caps now caps, Op_Encrypt m]);
             pair = (pr_agree P (ek_secret ka) (ek_public kb), nonce_bytes 0)
    in (\<exists>s. session_run P (steps kb m1 @ steps kb m2) (BraneSession_new socket ka) = ([pair, pair], s)) \<and>
       (\<exists>s. session_run P (steps kb m1) (BraneSession_new socket ka) = ([pair], s)) \<and>
       (\<exists>s. session_run P (steps ka m2) (BraneSession_new socket' kb) = ([pair], s))"
proof -
  have k: "length (ek_public ka) = 32" "length (ek_public kb) = 32"
    "pr_agree P (ek_secret kb) (ek_public ka) = pr_agree P (ek_secret ka) (ek_public kb)"
    using assms(1-4) by (simp_all add: agreement_commutes_def public_is_32_bytes_def)
  note h = handshake_run [OF _ assms(5)]
  have key: "ss_ephemeral_key (BraneSession_new i k) = k" for i and k :: "'a EphemeralKey" by (simp add: BraneSession_new_def)
  obtain s where s: "session_run P [Op_Init, Op_Response (ek_public kb), Op_Process_Caps now caps, Op_Encrypt m1] (BraneSession_new socket ka) =
      ([(pr_agree P (ek_secret ka) (ek_public kb), nonce_bytes 0)], s)" "ss_ephemeral_key s = ka"
    using h [of "ek_public kb" P now m1 "BraneSession_new socket ka"] k key by auto
  moreover obtain s2 where "session_run P [Op_Init, Op_Response (ek_public kb), Op_Process_Caps now caps, Op_Encrypt m2] s =
      ([(pr_agree P (ek_secret ka) (ek_public kb), nonce_bytes 0)], s2)"
    using h [of "ek_public kb" P now m2 s] k s(2) by auto
  moreover obtain s3 where "session_run P [Op_Init, Op_Response (ek_public ka), Op_Process_Caps now caps, Op_Encrypt m2] (BraneSession_new socket' kb) =
      ([(pr_agree P (ek_secret ka) (ek_public kb), nonce_bytes 0)], s3)"
    using h [of "ek_public ka" P now m2 "BraneSession_new socket' kb"] k key by auto
  ultimately show ?thesis unfolding Let_def session_run_append by (simp only: prod.case append_Cons append_Nil) blast
qed

theorem session_nonce_reuse_witness:
  "\<exists>s pair. session_run toy_primitives
     ([Op_Init, Op_Response (ek_public (toy_key 5)), Op_Process_Caps 0 hello, Op_Encrypt [1]] @
      [Op_Init, Op_Response (ek_public (toy_key 5)), Op_Process_Caps 0 hello, Op_Encrypt [2]])
     (BraneSession_new 1 (toy_key 3)) = ([pair, pair], s)"
proof -
  obtain neg where "CapabilityNegotiation_from_bytes hello = Some neg" using hello_parse by blast
  from session_nonce_reuse [OF toy_laws(1,2) toy_key_ok [of 3] toy_key_ok [of 5] this, of 0 "[1]" "[2]" 1 2]
  show ?thesis unfolding Let_def by blast
qed

end
