(* ===== verification/Sockets.thy ===== *)
theory Sockets
  imports Slot_Table
begin

text \<open>
  The socket table (\<^verbatim>\<open>socket.rs\<close>). A closed socket is a free slot, so the table is an identifier table
  whose slots are the active sockets. Sending and receiving are stubs in the code: they check the state
  and count bytes.
\<close>

section \<open>Sockets\<close>

datatype Protocol = Proto_Tcp | Proto_Udp

datatype SocketState = Sock_Closed | Sock_Created | Sock_Bound | Sock_Listening | Sock_Connected | Sock_Established

datatype SocketError =
    Socket_NotFound | Socket_TableFull | Socket_InvalidState | Socket_InvalidProtocol | Socket_ConnectionRefused
  | Socket_Timeout | Socket_IoError

record Endpoint =
  ep_addr :: bytes
  ep_port :: u16

definition Endpoint_zero :: Endpoint where
  "Endpoint_zero = \<lparr>ep_addr = replicate 4 0, ep_port = 0\<rparr>"

record Socket =
  sk_id :: u32
  sk_protocol :: Protocol
  sk_state :: SocketState
  sk_local :: Endpoint
  sk_remote :: Endpoint
  sk_owner_pid :: u64
  sk_rx_bytes :: u64
  sk_tx_bytes :: u64

definition Socket_empty :: Socket where
  "Socket_empty = \<lparr>sk_id = 0, sk_protocol = Proto_Tcp, sk_state = Sock_Closed, sk_local = Endpoint_zero,
     sk_remote = Endpoint_zero, sk_owner_pid = 0, sk_rx_bytes = 0, sk_tx_bytes = 0\<rparr>"

definition Socket_is_active :: "Socket \<Rightarrow> bool" where
  "Socket_is_active s \<longleftrightarrow> sk_state s \<noteq> Sock_Closed"

definition MAX_SOCKETS :: nat where "MAX_SOCKETS = 32"

record SocketTable =
  st_sockets :: "Socket list"
  st_next_id :: u32

definition SocketTable_new :: SocketTable where
  "SocketTable_new = \<lparr>st_sockets = replicate MAX_SOCKETS Socket_empty, st_next_id = 1\<rparr>"

section \<open>Operations\<close>

definition SocketTable_create :: "Protocol \<Rightarrow> u64 \<Rightarrow> SocketTable \<Rightarrow> (u32, SocketError) result \<times> SocketTable" where
  "SocketTable_create protocol owner_pid t =
     (case position (\<lambda>s. \<not> Socket_is_active s) (st_sockets t) of
        None \<Rightarrow> (Err Socket_TableFull, t)
      | Some k \<Rightarrow>
          (let ident = st_next_id t
           in (Ok ident, t\<lparr>st_next_id := st_next_id t + 1,
                 st_sockets := (st_sockets t)[k :=
                   \<lparr>sk_id = ident, sk_protocol = protocol, sk_state = Sock_Created, sk_local = Endpoint_zero,
                    sk_remote = Endpoint_zero, sk_owner_pid = owner_pid, sk_rx_bytes = 0, sk_tx_bytes = 0\<rparr>]\<rparr>)))"

definition SocketTable_get :: "SocketTable \<Rightarrow> u32 \<Rightarrow> Socket option" where
  "SocketTable_get t ident = List.find (\<lambda>s. sk_id s = ident \<and> Socket_is_active s) (st_sockets t)"

text \<open>A mutable reference to a socket is its index.\<close>

definition SocketTable_get_mut :: "SocketTable \<Rightarrow> u32 \<Rightarrow> (nat, SocketError) result" where
  "SocketTable_get_mut t ident =
     (case position (\<lambda>s. sk_id s = ident \<and> Socket_is_active s) (st_sockets t) of
        None \<Rightarrow> Err Socket_NotFound
      | Some k \<Rightarrow> Ok k)"

text \<open>
  The operations on one socket: look it up, then update it or report an error. The argument yields the
  updated socket.
\<close>

definition with_socket ::
  "u32 \<Rightarrow> (Socket \<Rightarrow> (Socket, SocketError) result) \<Rightarrow> SocketTable \<Rightarrow> (unit, SocketError) result \<times> SocketTable" where
  "with_socket ident f t =
     (case SocketTable_get_mut t ident of
        Inl e \<Rightarrow> (Err e, t)
      | Inr k \<Rightarrow>
          (case f (st_sockets t ! k) of
             Inl e \<Rightarrow> (Err e, t)
           | Inr s \<Rightarrow> (Ok (), t\<lparr>st_sockets := (st_sockets t)[k := s]\<rparr>)))"

definition SocketTable_bind :: "u32 \<Rightarrow> bytes \<Rightarrow> u16 \<Rightarrow> SocketTable \<Rightarrow> (unit, SocketError) result \<times> SocketTable" where
  "SocketTable_bind ident addr port =
     with_socket ident (\<lambda>s.
       if sk_state s \<noteq> Sock_Created then Err Socket_InvalidState
       else Ok (s\<lparr>sk_local := \<lparr>ep_addr = addr, ep_port = port\<rparr>, sk_state := Sock_Bound\<rparr>))"

definition SocketTable_listen :: "u32 \<Rightarrow> SocketTable \<Rightarrow> (unit, SocketError) result \<times> SocketTable" where
  "SocketTable_listen ident =
     with_socket ident (\<lambda>s.
       if sk_protocol s \<noteq> Proto_Tcp then Err Socket_InvalidProtocol
       else if sk_state s \<noteq> Sock_Bound then Err Socket_InvalidState
       else Ok (s\<lparr>sk_state := Sock_Listening\<rparr>))"

definition SocketTable_connect :: "u32 \<Rightarrow> bytes \<Rightarrow> u16 \<Rightarrow> SocketTable \<Rightarrow> (unit, SocketError) result \<times> SocketTable" where
  "SocketTable_connect ident addr port =
     with_socket ident (\<lambda>s. Ok (s\<lparr>sk_remote := \<lparr>ep_addr = addr, ep_port = port\<rparr>, sk_state := Sock_Connected\<rparr>))"

definition SocketTable_close :: "u32 \<Rightarrow> SocketTable \<Rightarrow> (unit, SocketError) result \<times> SocketTable" where
  "SocketTable_close ident = with_socket ident (\<lambda>s. Ok (s\<lparr>sk_state := Sock_Closed\<rparr>))"

definition SocketTable_send :: "u32 \<Rightarrow> bytes \<Rightarrow> SocketTable \<Rightarrow> (unit, SocketError) result \<times> SocketTable" where
  "SocketTable_send ident buf =
     with_socket ident (\<lambda>s.
       if sk_state s \<noteq> Sock_Connected \<and> sk_state s \<noteq> Sock_Established then Err Socket_InvalidState
       else Ok (s\<lparr>sk_tx_bytes := sk_tx_bytes s + of_nat (length buf)\<rparr>))"

definition SocketTable_send_to ::
  "u32 \<Rightarrow> bytes \<Rightarrow> bytes \<Rightarrow> u16 \<Rightarrow> SocketTable \<Rightarrow> (unit, SocketError) result \<times> SocketTable" where
  "SocketTable_send_to ident buf addr port =
     with_socket ident (\<lambda>s.
       if sk_state s \<noteq> Sock_Bound \<and> sk_state s \<noteq> Sock_Connected then Err Socket_InvalidState
       else Ok (s\<lparr>sk_tx_bytes := sk_tx_bytes s + of_nat (length buf)\<rparr>))"

text \<open>The buffer is never written.\<close>

definition SocketTable_recv_from :: "u32 \<Rightarrow> SocketTable \<Rightarrow> (nat \<times> Endpoint, SocketError) result" where
  "SocketTable_recv_from ident t =
     (case SocketTable_get_mut t ident of
        Inl e \<Rightarrow> Err e
      | Inr k \<Rightarrow>
          (let s = st_sockets t ! k
           in if sk_state s \<noteq> Sock_Bound \<and> sk_state s \<noteq> Sock_Connected then Err Socket_InvalidState
              else Err Socket_Timeout))"

definition SocketTable_active_sockets :: "SocketTable \<Rightarrow> Socket list" where
  "SocketTable_active_sockets t = filter Socket_is_active (st_sockets t)"

definition SocketTable_active_count :: "SocketTable \<Rightarrow> nat" where
  "SocketTable_active_count t = length (filter Socket_is_active (st_sockets t))"

section \<open>The table as an identifier table\<close>

definition active_slot :: "Socket \<Rightarrow> Socket option" where
  "active_slot s = (if Socket_is_active s then Some s else None)"

definition socket_slots :: "SocketTable \<Rightarrow> Socket option list" where
  "socket_slots t = map active_slot (st_sockets t)"

definition sock_mk :: "Protocol \<times> u64 \<Rightarrow> u32 \<Rightarrow> Socket" where
  "sock_mk x i = (case x of (protocol, pid) \<Rightarrow>
     \<lparr>sk_id = i, sk_protocol = protocol, sk_state = Sock_Created, sk_local = Endpoint_zero,
      sk_remote = Endpoint_zero, sk_owner_pid = pid, sk_rx_bytes = 0, sk_tx_bytes = 0\<rparr>)"

definition sock_add :: "Protocol \<times> u64 \<Rightarrow> SocketTable \<Rightarrow> (u32 \<times> SocketTable) option" where
  "sock_add x t = (case x of (protocol, pid) \<Rightarrow>
     (case SocketTable_create protocol pid t of (Inr i, t') \<Rightarrow> Some (i, t') | _ \<Rightarrow> None))"

definition sock_del :: "u32 \<Rightarrow> SocketTable \<Rightarrow> SocketTable option" where
  "sock_del i t = (case SocketTable_close i t of (Inr _, t') \<Rightarrow> Some t' | _ \<Rightarrow> None)"

lemma position_map: "position P (map f xs) = position (P \<circ> f) xs"
  by (induction xs) auto

lemma first_free_sockets: "first_free (socket_slots t) = position (\<lambda>s. \<not> Socket_is_active s) (st_sockets t)"
  by (auto simp: first_free_def socket_slots_def position_map comp_def active_slot_def intro!: position_cong)

lemma find_slot_sockets:
  "find_slot P (socket_slots t) = position (\<lambda>s. P s \<and> Socket_is_active s) (st_sockets t)"
  by (auto simp: find_slot_def socket_slots_def position_map comp_def active_slot_def intro!: position_cong)

interpretation socks: id_table_del socket_slots st_next_id sk_id sock_add sock_mk sock_del
proof unfold_locales
  show "sk_id (sock_mk x i) = i" for x i by (simp add: sock_mk_def split: prod.splits)
  show "i = st_next_id t \<and> st_next_id t' = st_next_id t + 1 \<and>
      (\<exists>k. first_free (socket_slots t) = Some k \<and> socket_slots t' = (socket_slots t)[k := Some (sock_mk x i)])"
    if "sock_add x t = Some (i, t')" for x t i t'
    using that unfolding first_free_sockets
    by (auto simp: sock_add_def SocketTable_create_def sock_mk_def socket_slots_def map_update active_slot_def
        Socket_is_active_def Let_def split: prod.splits option.splits)
  show "first_free (socket_slots t) = None" if "sock_add x t = None" for x t
    using that by (auto simp: sock_add_def SocketTable_create_def first_free_sockets Let_def split: prod.splits option.splits)
  show "st_next_id t' = st_next_id t \<and>
      (\<exists>k. find_slot (\<lambda>e. sk_id e = i) (socket_slots t) = Some k \<and> socket_slots t' = (socket_slots t)[k := None])"
    if "sock_del i t = Some t'" for i t t'
    using that unfolding find_slot_sockets
    by (auto simp: sock_del_def SocketTable_close_def with_socket_def SocketTable_get_mut_def socket_slots_def map_update
        active_slot_def Socket_is_active_def split: prod.splits option.splits sum.splits)
qed

lemma flatten_socket_slots: "flatten (socket_slots t) = filter Socket_is_active (st_sockets t)"
proof -
  have "flatten (map active_slot xs) = filter Socket_is_active xs" for xs
    by (induction xs) (auto simp: active_slot_def)
  then show ?thesis by (simp add: socket_slots_def)
qed

lemma get_lookup: "SocketTable_get t i = lookup_id sk_id i (socket_slots t)"
proof -
  have "List.find (\<lambda>s. sk_id s = i \<and> Socket_is_active s) xs = List.find (\<lambda>s. sk_id s = i) (filter Socket_is_active xs)" for xs
    by (induction xs) auto
  then show ?thesis by (simp add: SocketTable_get_def lookup_id_def flatten_socket_slots)
qed

text \<open>What an operation on one socket does to the table, when it keeps the identifier.\<close>

lemma with_socket_lookup:
  assumes "\<And>s s'. f s = Ok s' \<Longrightarrow> sk_id s' = sk_id s" "table_ok sk_id (st_next_id t) (socket_slots t)" "with_socket i f t = (r, t')"
  shows "table_ok sk_id (st_next_id t) (socket_slots t') \<and> st_next_id t' = st_next_id t \<and>
    (\<forall>j. SocketTable_get t' j =
       (if j = i \<and> r = Ok () then case f (the (SocketTable_get t i)) of Inr s \<Rightarrow> active_slot s | _ \<Rightarrow> None
        else SocketTable_get t j)) \<and>
    (r = Ok () \<longrightarrow> (\<exists>s s'. SocketTable_get t i = Some s \<and> f s = Ok s')) \<and> (r \<noteq> Ok () \<longrightarrow> t' = t)"
proof (cases r)
  case (Inl e)
  then have "t' = t" using assms(3) by (auto simp: with_socket_def split: sum.splits)
  then show ?thesis using assms(2) Inl by simp
next
  case (Inr u)
  then obtain k s' where k: "position (\<lambda>s. sk_id s = i \<and> Socket_is_active s) (st_sockets t) = Some k"
    and f: "f (st_sockets t ! k) = Ok s'" and t': "t' = t\<lparr>st_sockets := (st_sockets t)[k := s']\<rparr>"
    using assms(3) by (auto simp: with_socket_def SocketTable_get_mut_def split: sum.splits option.splits)
  let ?s = "st_sockets t ! k"
  have fs: "find_slot (\<lambda>s. sk_id s = i) (socket_slots t) = Some k" by (simp add: find_slot_sockets k)
  have kk: "k < length (st_sockets t)" "sk_id ?s = i" "Socket_is_active ?s" using k by (simp_all add: position_Some_iff)
  have slot: "socket_slots t ! k = Some ?s" "k < length (socket_slots t)" "socket_slots t' = (socket_slots t)[k := active_slot s']"
    using kk by (simp_all add: socket_slots_def active_slot_def t' map_update)
  have get: "SocketTable_get t i = Some ?s" using find_slot_hit [OF fs] slot(1) by (auto simp: get_lookup)
  have id': "sk_id s' = i" using assms(1) [OF f] kk(2) by simp
  show ?thesis
  proof (cases "Socket_is_active s'")
    case True
    then have a: "active_slot s' = Some s'" by (simp add: active_slot_def)
    show ?thesis using Inr table_ok_replace [OF assms(2) slot(2,1), of s'] lookup_id_replace [OF fs id'] get f kk id' slot(3)
      by (simp add: a get_lookup t')
  next
    case False
    then have a: "active_slot s' = None" by (simp add: active_slot_def)
    define t1 where "t1 = t\<lparr>st_sockets := (st_sockets t)[k := ?s\<lparr>sk_state := Sock_Closed\<rparr>]\<rparr>"
    have del: "sock_del i t = Some t1"
      by (simp add: sock_del_def SocketTable_close_def with_socket_def SocketTable_get_mut_def k t1_def)
    have "socket_slots t1 = (socket_slots t)[k := None]"
      by (simp add: t1_def socket_slots_def map_update active_slot_def Socket_is_active_def)
    then have eq: "socket_slots t' = socket_slots t1" using slot(3) a by simp
    have ok: "table_ok sk_id (st_next_id t) (socket_slots t')" using assms(2) slot(3) a by (auto intro: table_ok_clear)
    have "lookup_id sk_id j (socket_slots t1) = (if j = i then None else lookup_id sk_id j (socket_slots t))" for j
      by (rule socks.del_lookup [OF assms(2) del])
    then have "SocketTable_get t' j = (if j = i then None else SocketTable_get t j)" for j by (simp add: get_lookup eq)
    moreover have "st_next_id t' = st_next_id t" by (simp add: t')
    ultimately show ?thesis using Inr ok get f a by simp
  qed
qed

section \<open>Reachable tables\<close>

inductive socket_step :: "SocketTable \<Rightarrow> SocketTable \<Rightarrow> bool" where
  sock_create: "st_next_id t \<noteq> - 1 \<Longrightarrow> SocketTable_create p pid t = (rc, t') \<Longrightarrow> socket_step t t'"
| sock_bind: "SocketTable_bind i a p t = (r, t') \<Longrightarrow> socket_step t t'"
| sock_listen: "SocketTable_listen i t = (r, t') \<Longrightarrow> socket_step t t'"
| sock_connect: "SocketTable_connect i a p t = (r, t') \<Longrightarrow> socket_step t t'"
| sock_close: "SocketTable_close i t = (r, t') \<Longrightarrow> socket_step t t'"
| sock_send: "SocketTable_send i b t = (r, t') \<Longrightarrow> socket_step t t'"
| sock_send_to: "SocketTable_send_to i b a p t = (r, t') \<Longrightarrow> socket_step t t'"

abbreviation sockets_ok :: "SocketTable \<Rightarrow> bool" where
  "sockets_ok t \<equiv> table_ok sk_id (st_next_id t) (socket_slots t)"

lemma with_socket_ok:
  assumes "\<And>s s'. f s = Ok s' \<Longrightarrow> sk_id s' = sk_id s" "sockets_ok t" "with_socket i f t = (r, t')"
  shows "sockets_ok t'"
  using with_socket_lookup [OF assms] by simp

lemma socket_create_cases:
  assumes "SocketTable_create p pid t = (r, t')"
  shows "(\<exists>i. r = Ok i \<and> sock_add (p, pid) t = Some (i, t')) \<or> (r = Err Socket_TableFull \<and> t' = t \<and> sock_add (p, pid) t = None)"
  using assms by (auto simp: sock_add_def SocketTable_create_def Let_def split: option.splits)

lemma socket_step_ok: "socket_step t t' \<Longrightarrow> sockets_ok t \<Longrightarrow> sockets_ok t'"
proof (induction rule: socket_step.induct)
  case (sock_create t p pid r t')
  then show ?case using socket_create_cases [OF sock_create(2)] socks.add_ok by blast
next
  case (sock_bind i a p t r t')
  show ?case by (rule with_socket_ok [OF _ sock_bind(2) sock_bind(1) [unfolded SocketTable_bind_def]]) (auto split: if_splits)
next
  case (sock_listen i t r t')
  show ?case by (rule with_socket_ok [OF _ sock_listen(2) sock_listen(1) [unfolded SocketTable_listen_def]]) (auto split: if_splits)
next
  case (sock_connect i a p t r t')
  show ?case by (rule with_socket_ok [OF _ sock_connect(2) sock_connect(1) [unfolded SocketTable_connect_def]]) auto
next
  case (sock_close i t r t')
  show ?case by (rule with_socket_ok [OF _ sock_close(2) sock_close(1) [unfolded SocketTable_close_def]]) auto
next
  case (sock_send i b t r t')
  show ?case by (rule with_socket_ok [OF _ sock_send(2) sock_send(1) [unfolded SocketTable_send_def]]) (auto split: if_splits)
next
  case (sock_send_to i b a p t r t')
  show ?case by (rule with_socket_ok [OF _ sock_send_to(2) sock_send_to(1) [unfolded SocketTable_send_to_def]]) (auto split: if_splits)
qed

lemma sockets_ok_new: "sockets_ok SocketTable_new"
proof -
  have "socket_slots SocketTable_new = replicate MAX_SOCKETS None"
    by (simp add: socket_slots_def SocketTable_new_def active_slot_def Socket_is_active_def Socket_empty_def)
  then show ?thesis by simp
qed

end
