(* ===== verification/Brane_Manager.thy ===== *)
theory Brane_Manager
  imports Audit_Log Byte_Strings Slot_Table
begin

text \<open>
  The brane manager (\<^verbatim>\<open>brane.rs\<close>): the table of discovered branes, the table of sessions with them, and
  the audit events of connecting and disconnecting. The types \<^verbatim>\<open>BraneSession\<close> and \<^verbatim>\<open>SessionState\<close> of that
  file are called \<^verbatim>\<open>ManagedSession\<close> and \<^verbatim>\<open>ManagedState\<close> here, since \<^verbatim>\<open>brane_session.rs\<close> has types of the same
  names.
\<close>

section \<open>Types\<close>

type_synonym BraneId = u64
type_synonym SessionId = u64

datatype BraneType = Brane_Companion | Brane_Peer | Brane_IoT | Brane_Unknown

datatype Transport = Transport_TcpIp | Transport_Bluetooth | Transport_Ble | Transport_UsbDirect | Transport_Local

datatype AuthStatus = Auth_Pending | Auth_ChallengeSent | Auth_Authenticated | Auth_Failed

datatype ManagedState = Managed_Discovering | Managed_Pairing | Managed_Active | Managed_Suspended
  | Managed_Disconnecting | Managed_Disconnected

record BraneInfo =
  bn_id :: BraneId
  bn_brane_type :: BraneType
  bn_name :: bytes
  bn_name_len :: nat
  bn_transport :: Transport
  bn_advertised_caps :: u32
  bn_signal_quality :: u8

record ManagedSession =
  ms_session_id :: SessionId
  ms_remote_brane :: BraneId
  ms_brane_type :: BraneType
  ms_transport :: Transport
  ms_auth_status :: AuthStatus
  ms_state :: ManagedState
  ms_owner_task :: TaskId
  ms_capability_granted :: "CapabilityId option"
  ms_msgs_sent :: u64
  ms_msgs_received :: u64
  ms_established_at :: u64

definition BRANE_MAX_PAYLOAD :: nat where "BRANE_MAX_PAYLOAD = 2048"

datatype BraneMessageType = Msg_Discover | Msg_Announce | Msg_PairRequest | Msg_PairAccept | Msg_PairReject | Msg_Data
  | Msg_Telemetry | Msg_Notification | Msg_Command | Msg_CommandResponse | Msg_Disconnect

datatype BraneError = Brane_NotFound | Brane_AlreadyConnected | Brane_AuthenticationFailed | Brane_NotAuthenticated
  | Brane_SessionFull | Brane_PayloadTooLarge | Brane_NotConnected | Brane_PermissionDenied | Brane_TransportUnavailable
  | Brane_Timeout

record BraneMessage =
  bm_msg_type :: BraneMessageType
  bm_source_brane :: BraneId
  bm_dest_brane :: BraneId
  bm_session_id :: SessionId
  bm_payload_len :: nat
  bm_payload :: bytes

definition BraneMessage_new ::
  "BraneMessageType \<Rightarrow> BraneId \<Rightarrow> BraneId \<Rightarrow> SessionId \<Rightarrow> bytes \<Rightarrow> (BraneMessage, BraneError) result" where
  "BraneMessage_new msg_type source dest session data =
     (if length data > BRANE_MAX_PAYLOAD then Err Brane_PayloadTooLarge
      else Ok \<lparr>bm_msg_type = msg_type, bm_source_brane = source, bm_dest_brane = dest, bm_session_id = session,
               bm_payload_len = length data, bm_payload = splice (replicate BRANE_MAX_PAYLOAD 0) 0 data\<rparr>)"

definition BraneMessage_data :: "BraneMessage \<Rightarrow> bytes" where
  "BraneMessage_data m = take (bm_payload_len m) (bm_payload m)"

definition MAX_DISCOVERED :: nat where "MAX_DISCOVERED = 16"
definition MAX_BRANE_SESSIONS :: nat where "MAX_BRANE_SESSIONS = 8"

record BraneManager =
  bg_local_id :: BraneId
  bg_discovered :: "BraneInfo option list"
  bg_sessions :: "ManagedSession option list"
  bg_next_session_id :: SessionId
  bg_total_discovered :: u64
  bg_total_connections :: u64
  bg_total_disconnections :: u64

definition BraneManager_new :: BraneManager where
  "BraneManager_new = \<lparr>bg_local_id = 0, bg_discovered = replicate MAX_DISCOVERED None,
     bg_sessions = replicate MAX_BRANE_SESSIONS None, bg_next_session_id = 1, bg_total_discovered = 0,
     bg_total_connections = 0, bg_total_disconnections = 0\<rparr>"

section \<open>Operations\<close>

definition BraneManager_set_local_id :: "BraneId \<Rightarrow> BraneManager \<Rightarrow> BraneManager" where
  "BraneManager_set_local_id i m = m\<lparr>bg_local_id := i\<rparr>"

definition BraneManager_register_discovered ::
  "bytes \<Rightarrow> BraneType \<Rightarrow> Transport \<Rightarrow> u32 \<Rightarrow> u8 \<Rightarrow> BraneManager \<Rightarrow> (BraneId, BraneError) result \<times> BraneManager" where
  "BraneManager_register_discovered name brane_type transport caps signal m =
     (case first_free (bg_discovered m) of
        None \<Rightarrow> (Err Brane_SessionFull, m)
      | Some k \<Rightarrow>
          (let total = bg_total_discovered m + 1;
               ident = total;
               len = min (length name) 32
           in (Ok ident, m\<lparr>bg_total_discovered := total,
                 bg_discovered := (bg_discovered m)[k := Some
                   \<lparr>bn_id = ident, bn_brane_type = brane_type, bn_name = splice (replicate 32 0) 0 (take len name),
                    bn_name_len = len, bn_transport = transport, bn_advertised_caps = caps, bn_signal_quality = signal\<rparr>]\<rparr>)))"

text \<open>The loop that fills a free session slot.\<close>

definition new_session :: "BraneInfo \<times> TaskId \<times> u64 \<Rightarrow> SessionId \<Rightarrow> ManagedSession" where
  "new_session x session_id = (case x of (info, owner_task, tick) \<Rightarrow>
     \<lparr>ms_session_id = session_id, ms_remote_brane = bn_id info, ms_brane_type = bn_brane_type info,
      ms_transport = bn_transport info, ms_auth_status = Auth_Authenticated, ms_state = Managed_Active,
      ms_owner_task = owner_task, ms_capability_granted = None, ms_msgs_sent = 0, ms_msgs_received = 0,
      ms_established_at = tick\<rparr>)"

definition add_session :: "BraneInfo \<times> TaskId \<times> u64 \<Rightarrow> BraneManager \<Rightarrow> (SessionId \<times> BraneManager) option" where
  "add_session x m =
     (case first_free (bg_sessions m) of
        None \<Rightarrow> None
      | Some k \<Rightarrow>
          (let session_id = bg_next_session_id m
           in Some (session_id, m\<lparr>bg_next_session_id := session_id + 1,
                bg_sessions := (bg_sessions m)[k := Some (new_session x session_id)],
                bg_total_connections := bg_total_connections m + 1\<rparr>)))"

text \<open>The clock and the CPU the audit log reads are \<^verbatim>\<open>snap\<close>, the scheduler's tick counter \<^verbatim>\<open>tick\<close>.\<close>

definition BraneManager_connect ::
  "tick_cpu \<Rightarrow> u64 \<Rightarrow> BraneId \<Rightarrow> TaskId \<Rightarrow> BraneManager \<times> AuditLog \<Rightarrow>
     (SessionId, BraneError) result \<times> BraneManager \<times> AuditLog" where
  "BraneManager_connect snap tick brane_id owner_task = (\<lambda>(m, log).
     case List.find (\<lambda>b. bn_id b = brane_id) (flatten (bg_discovered m)) of
       None \<Rightarrow> (Err Brane_NotFound, m, log)
     | Some brane_info \<Rightarrow>
         if list_ex (\<lambda>s. ms_remote_brane s = brane_id \<and> ms_state s = Managed_Active) (flatten (bg_sessions m))
         then (Err Brane_AlreadyConnected, m, log)
         else case add_session (brane_info, owner_task, tick) m of
           None \<Rightarrow> (Err Brane_SessionFull, m, log)
         | Some (session_id, m) \<Rightarrow> (Ok session_id, m, log_brane_connect snap owner_task brane_id Audit_Success log))"

definition BraneManager_send :: "SessionId \<Rightarrow> BraneMessage \<Rightarrow> BraneManager \<Rightarrow> (unit, BraneError) result \<times> BraneManager" where
  "BraneManager_send session_id msg m =
     (case lookup_id ms_session_id session_id (bg_sessions m) of
        None \<Rightarrow> (Err Brane_NotFound, m)
      | Some session \<Rightarrow>
          if ms_state session \<noteq> Managed_Active then (Err Brane_NotConnected, m)
          else if ms_auth_status session \<noteq> Auth_Authenticated then (Err Brane_NotAuthenticated, m)
          else (Ok (), m\<lparr>bg_sessions :=
                  modify_id ms_session_id session_id (\<lambda>s. s\<lparr>ms_msgs_sent := ms_msgs_sent s + 1\<rparr>) (bg_sessions m)\<rparr>))"

definition BraneManager_disconnect ::
  "tick_cpu \<Rightarrow> SessionId \<Rightarrow> BraneManager \<times> AuditLog \<Rightarrow> (unit, BraneError) result \<times> BraneManager \<times> AuditLog" where
  "BraneManager_disconnect snap session_id = (\<lambda>(m, log).
     case find_slot (\<lambda>s. ms_session_id s = session_id) (bg_sessions m) of
       None \<Rightarrow> (Err Brane_NotFound, m, log)
     | Some k \<Rightarrow>
         (case bg_sessions m ! k of
            None \<Rightarrow> (Err Brane_NotFound, m, log)
          | Some session \<Rightarrow>
              (Ok (), m\<lparr>bg_total_disconnections := bg_total_disconnections m + 1, bg_sessions := (bg_sessions m)[k := None]\<rparr>,
               log_brane_connect snap (ms_owner_task session) (ms_remote_brane session) Audit_Success log)))"

definition BraneManager_active_sessions :: "BraneManager \<Rightarrow> ManagedSession list" where
  "BraneManager_active_sessions m = filter (\<lambda>s. ms_state s = Managed_Active) (flatten (bg_sessions m))"

definition BraneManager_active_session_count :: "BraneManager \<Rightarrow> nat" where
  "BraneManager_active_session_count m = length (filter (\<lambda>s. ms_state s = Managed_Active) (flatten (bg_sessions m)))"

definition BraneManager_discovered_count :: "BraneManager \<Rightarrow> nat" where
  "BraneManager_discovered_count m = length (filter (\<lambda>s. s \<noteq> None) (bg_discovered m))"

definition BraneManager_stats :: "BraneManager \<Rightarrow> u64 \<times> u64 \<times> u64" where
  "BraneManager_stats m = (bg_total_discovered m, bg_total_connections m, bg_total_disconnections m)"

section \<open>The tables as identifier tables\<close>

definition peer_add :: "bytes \<times> BraneType \<times> Transport \<times> u32 \<times> u8 \<Rightarrow> BraneManager \<Rightarrow> (BraneId \<times> BraneManager) option" where
  "peer_add x m = (case x of (name, ty, tr, caps, sig) \<Rightarrow>
     (case BraneManager_register_discovered name ty tr caps sig m of (Inr i, m') \<Rightarrow> Some (i, m') | _ \<Rightarrow> None))"

definition peer_mk :: "bytes \<times> BraneType \<times> Transport \<times> u32 \<times> u8 \<Rightarrow> BraneId \<Rightarrow> BraneInfo" where
  "peer_mk x i = (case x of (name, ty, tr, caps, sig) \<Rightarrow>
     \<lparr>bn_id = i, bn_brane_type = ty, bn_name = splice (replicate 32 0) 0 (take (min (length name) 32) name),
      bn_name_len = min (length name) 32, bn_transport = tr, bn_advertised_caps = caps, bn_signal_quality = sig\<rparr>)"

definition session_del :: "SessionId \<Rightarrow> BraneManager \<Rightarrow> BraneManager option" where
  "session_del i m = (case BraneManager_disconnect (0, 0) i (m, AuditLog_new) of (Inr _, m', _) \<Rightarrow> Some m' | _ \<Rightarrow> None)"

interpretation peers: id_table bg_discovered "\<lambda>m. bg_total_discovered m + 1" bn_id peer_add peer_mk
  by unfold_locales
    (auto simp: peer_mk_def peer_add_def BraneManager_register_discovered_def Let_def split: prod.splits option.splits)

interpretation links: id_table_del bg_sessions bg_next_session_id ms_session_id add_session new_session session_del
  by unfold_locales
    (auto simp: new_session_def add_session_def session_del_def BraneManager_disconnect_def Let_def
      split: prod.splits option.splits sum.splits dest: find_slot_SomeD)

section \<open>Reachable managers\<close>

inductive brane_reach :: "BraneManager \<times> AuditLog \<Rightarrow> bool" where
  brane_start: "brane_reach (BraneManager_new, AuditLog_new)"
| brane_local: "brane_reach (m, log) \<Longrightarrow> brane_reach (BraneManager_set_local_id i m, log)"
| brane_found: "brane_reach (m, log) \<Longrightarrow> bg_total_discovered m + 1 \<noteq> - 1 \<Longrightarrow>
    BraneManager_register_discovered name ty tr caps sig m = (r, m') \<Longrightarrow> brane_reach (m', log)"
| brane_connect: "brane_reach (m, log) \<Longrightarrow> bg_next_session_id m \<noteq> - 1 \<Longrightarrow>
    BraneManager_connect snap tick brane task (m, log) = (r, m', log') \<Longrightarrow> brane_reach (m', log')"
| brane_send: "brane_reach (m, log) \<Longrightarrow> BraneManager_send i msg m = (r, m') \<Longrightarrow> brane_reach (m', log)"
| brane_disconnect: "brane_reach (m, log) \<Longrightarrow>
    BraneManager_disconnect snap i (m, log) = (r, m', log') \<Longrightarrow> brane_reach (m', log')"

definition brane_tables_ok :: "BraneManager \<Rightarrow> bool" where
  "brane_tables_ok m \<longleftrightarrow> table_ok ms_session_id (bg_next_session_id m) (bg_sessions m) \<and>
     table_ok bn_id (bg_total_discovered m + 1) (bg_discovered m)"

definition brane_links_ok :: "BraneManager \<Rightarrow> bool" where
  "brane_links_ok m \<longleftrightarrow> distinct (map ms_remote_brane (flatten (bg_sessions m))) \<and>
     (\<forall>s \<in> set (flatten (bg_sessions m)). ms_state s = Managed_Active \<and> ms_auth_status s = Auth_Authenticated \<and>
        ms_remote_brane s \<in> bn_id ` set (flatten (bg_discovered m)))"

definition brane_counts_ok :: "BraneManager \<Rightarrow> AuditLog \<Rightarrow> bool" where
  "brane_counts_ok m log \<longleftrightarrow> of_nat (length (flatten (bg_sessions m))) = bg_total_connections m - bg_total_disconnections m \<and>
     AuditLog_total_events log = bg_total_connections m + bg_total_disconnections m"

abbreviation brane_ok :: "BraneManager \<times> AuditLog \<Rightarrow> bool" where
  "brane_ok \<equiv> \<lambda>(m, log). brane_tables_ok m \<and> brane_links_ok m \<and> brane_counts_ok m log"

lemma total_log_brane_connect: "AuditLog_total_events (log_brane_connect snap task b r log) = AuditLog_total_events log + 1"
  by (simp add: log_brane_connect_def audit_record_def AuditLog_record_at_def AuditLog_total_events_def Let_def
      split: prod.splits)

lemma register_ok:
  assumes "brane_ok (m, log)" "bg_total_discovered m + 1 \<noteq> - 1"
    "BraneManager_register_discovered name ty tr caps sig m = (r, m')"
  shows "brane_ok (m', log)"
proof (cases r)
  case (Inl e)
  then have "m' = m" using assms(3) by (auto simp: BraneManager_register_discovered_def Let_def split: option.splits)
  then show ?thesis using assms(1) by simp
next
  case (Inr i)
  then have add: "peer_add (name, ty, tr, caps, sig) m = Some (i, m')" using assms(3) by (simp add: peer_add_def)
  have same: "bg_sessions m' = bg_sessions m" "bg_next_session_id m' = bg_next_session_id m"
    "bg_total_connections m' = bg_total_connections m" "bg_total_disconnections m' = bg_total_disconnections m"
    using assms(3) Inr by (auto simp: BraneManager_register_discovered_def Let_def split: option.splits)
  have "table_ok bn_id (bg_total_discovered m' + 1) (bg_discovered m')"
    using peers.add_ok [OF _ assms(2) add] assms(1) by (simp add: brane_tables_ok_def)
  moreover have "bn_id ` set (flatten (bg_discovered m)) \<subseteq> bn_id ` set (flatten (bg_discovered m'))"
    using peers.add_entries [OF add] by auto
  ultimately show ?thesis using assms(1) same by (auto simp: brane_tables_ok_def brane_links_ok_def brane_counts_ok_def)
qed

lemma connect_cases:
  assumes "BraneManager_connect snap tick brane task (m, log) = (r, m', log')"
  shows "(\<exists>e. r = Err e \<and> m' = m \<and> log' = log) \<or>
    (\<exists>info i. r = Ok i \<and> info \<in> set (flatten (bg_discovered m)) \<and> bn_id info = brane \<and>
       (\<forall>s \<in> set (flatten (bg_sessions m)). \<not> (ms_remote_brane s = brane \<and> ms_state s = Managed_Active)) \<and>
       add_session (info, task, tick) m = Some (i, m') \<and> log' = log_brane_connect snap task brane Audit_Success log)"
  using assms
  by (auto simp: BraneManager_connect_def list_ex_iff dest!: find_SomeD split: option.splits if_splits prod.splits)

lemma connect_ok:
  assumes "brane_ok (m, log)" "bg_next_session_id m \<noteq> - 1" "BraneManager_connect snap tick brane task (m, log) = (r, m', log')"
  shows "brane_ok (m', log')"
proof (cases r)
  case (Inl e)
  then show ?thesis using connect_cases [OF assms(3)] assms(1) by auto
next
  case (Inr i)
  then obtain info where info: "info \<in> set (flatten (bg_discovered m))" "bn_id info = brane"
    and fresh: "\<forall>s \<in> set (flatten (bg_sessions m)). \<not> (ms_remote_brane s = brane \<and> ms_state s = Managed_Active)"
    and add: "add_session (info, task, tick) m = Some (i, m')" and log': "log' = log_brane_connect snap task brane Audit_Success log"
    using connect_cases [OF assms(3)] by auto
  have same: "bg_discovered m' = bg_discovered m" "bg_total_discovered m' = bg_total_discovered m"
    "bg_total_connections m' = bg_total_connections m + 1" "bg_total_disconnections m' = bg_total_disconnections m"
    using add by (auto simp: add_session_def Let_def split: option.splits)
  let ?s = "new_session (info, task, tick) i"
  obtain k where k: "first_free (bg_sessions m) = Some k" "bg_sessions m' = (bg_sessions m)[k := Some ?s]"
    using links.add_SomeD [OF add] by auto
  note kk = first_free_SomeD [OF k(1)]
  have tab: "table_ok ms_session_id (bg_next_session_id m') (bg_sessions m')"
    using links.add_ok [OF _ assms(2) add] assms(1) by (simp add: brane_tables_ok_def)
  have act: "\<forall>s \<in> set (flatten (bg_sessions m)). ms_state s = Managed_Active" using assms(1) by (simp add: brane_links_ok_def)
  have new: "ms_remote_brane ?s = brane" "ms_state ?s = Managed_Active" "ms_auth_status ?s = Auth_Authenticated"
    using info(2) by (simp_all add: new_session_def)
  have "ms_remote_brane ?s \<notin> ms_remote_brane ` set (flatten (bg_sessions m))" using fresh act new(1) by auto
  then have dist: "distinct (map ms_remote_brane (flatten (bg_sessions m')))"
    unfolding k(2) using kk assms(1) by (subst distinct_fill) (simp_all add: brane_links_ok_def)
  have "brane_links_ok m'"
    using dist links.add_entries [OF add] assms(1) info new same by (auto simp: brane_links_ok_def)
  moreover have "brane_counts_ok m' log'"
    using links.add_count(1) [OF add] assms(1) same by (simp add: brane_counts_ok_def log' total_log_brane_connect)
  ultimately show ?thesis using tab assms(1) same by (simp add: brane_tables_ok_def)
qed

lemma send_ok:
  assumes "brane_ok (m, log)" "BraneManager_send i msg m = (r, m')"
  shows "brane_ok (m', log)"
proof (cases r)
  case (Inl e)
  then have "m' = m" using assms(2) by (auto simp: BraneManager_send_def split: option.splits if_splits)
  then show ?thesis using assms(1) by simp
next
  case (Inr u)
  let ?f = "\<lambda>s. s\<lparr>ms_msgs_sent := ms_msgs_sent s + 1\<rparr>"
  have m': "m' = m\<lparr>bg_sessions := modify_id ms_session_id i ?f (bg_sessions m)\<rparr>"
    using assms(2) Inr by (auto simp: BraneManager_send_def split: option.splits if_splits)
  have facts: "map h (flatten (bg_sessions m')) = map h (flatten (bg_sessions m))"
    if "\<And>s. h (?f s) = h s" for h :: "ManagedSession \<Rightarrow> BraneId \<times> ManagedState \<times> AuthStatus"
    using map_flatten_modify_id [of h ?f, OF that] by (simp add: m')
  let ?h = "\<lambda>s. (ms_remote_brane s, ms_state s, ms_auth_status s)"
  have h: "map ?h (flatten (bg_sessions m')) = map ?h (flatten (bg_sessions m))" by (rule facts) simp
  have img: "?h ` set (flatten (bg_sessions m')) = ?h ` set (flatten (bg_sessions m))" using arg_cong [OF h, of set] unfolding set_map .
  have rem: "map ms_remote_brane (flatten (bg_sessions m')) = map ms_remote_brane (flatten (bg_sessions m))"
    using arg_cong [OF h, of "map fst"] by (simp add: comp_def)
  have act: "?h s \<in> ?h ` set (flatten (bg_sessions m))" if "s \<in> set (flatten (bg_sessions m'))" for s
    using imageI [OF that, of ?h] unfolding img .
  have "ms_state s = Managed_Active \<and> ms_auth_status s = Auth_Authenticated \<and>
      ms_remote_brane s \<in> bn_id ` set (flatten (bg_discovered m))" if "s \<in> set (flatten (bg_sessions m'))" for s
    using act [OF that] assms(1) by (auto simp: brane_links_ok_def)
  moreover have "bg_discovered m' = bg_discovered m" by (simp add: m')
  ultimately have "brane_links_ok m'" using assms(1) rem unfolding brane_links_ok_def by simp
  moreover have "length (flatten (bg_sessions m')) = length (flatten (bg_sessions m))" using rem by (metis length_map)
  moreover have "table_ok ms_session_id (bg_next_session_id m') (bg_sessions m')"
    using assms(1) by (simp add: m' brane_tables_ok_def table_ok_modify_id)
  ultimately show ?thesis using assms(1) by (simp add: m' brane_counts_ok_def brane_tables_ok_def)
qed

lemma disconnect_ok:
  assumes "brane_ok (m, log)" "BraneManager_disconnect snap i (m, log) = (r, m', log')"
  shows "brane_ok (m', log')"
proof (cases r)
  case (Inl e)
  then have "m' = m" "log' = log" using assms(2) by (auto simp: BraneManager_disconnect_def split: option.splits)
  then show ?thesis using assms(1) by simp
next
  case (Inr u)
  then obtain k s where k: "find_slot (\<lambda>s. ms_session_id s = i) (bg_sessions m) = Some k" "bg_sessions m ! k = Some s"
    and m': "m' = m\<lparr>bg_total_disconnections := bg_total_disconnections m + 1, bg_sessions := (bg_sessions m)[k := None]\<rparr>"
    and log': "log' = log_brane_connect snap (ms_owner_task s) (ms_remote_brane s) Audit_Success log"
    using assms(2) by (auto simp: BraneManager_disconnect_def split: option.splits)
  have "Suc (length (flatten ((bg_sessions m)[k := None]))) = length (flatten (bg_sessions m))"
    using length_flatten_clear [OF _ k(2)] find_slot_SomeD [OF k(1)] by simp
  then have "(of_nat (length (flatten (bg_sessions m))) :: u64) = of_nat (length (flatten ((bg_sessions m)[k := None]))) + 1"
    by (metis of_nat_Suc add.commute)
  then have "brane_counts_ok m' log'" using assms(1)
    by (simp add: brane_counts_ok_def m' log' total_log_brane_connect algebra_simps)
  moreover have "brane_links_ok m'"
    using assms(1) set_flatten_clear [of "bg_sessions m" k] distinct_clear [of ms_remote_brane "bg_sessions m" k]
    by (auto simp: brane_links_ok_def m')
  moreover have "brane_tables_ok m'" using assms(1) table_ok_clear by (auto simp: brane_tables_ok_def m')
  ultimately show ?thesis by simp
qed

lemma brane_reach_ok: "brane_reach s \<Longrightarrow> brane_ok s"
proof (induction rule: brane_reach.induct)
  case brane_start
  show ?case
    by (simp add: brane_tables_ok_def brane_links_ok_def brane_counts_ok_def BraneManager_new_def AuditLog_total_events_def
        AuditLog_new_def)
next
  case (brane_local m log i)
  then show ?case
    by (simp add: BraneManager_set_local_id_def brane_tables_ok_def brane_links_ok_def brane_counts_ok_def)
qed (rule register_ok connect_ok send_ok disconnect_ok; assumption)+

section \<open>Properties\<close>

text \<open>
  C24. The accounts of the brane manager. In every reachable state there is at most one session per
  remote brane, session identifiers are unique, every session is active, counts as authenticated and
  belongs to a discovered brane; the number of sessions is the number of connections minus the number of
  disconnections, and the audit log holds exactly one event for each of them. Connecting to an unknown or
  to a connected brane is refused and changes nothing.
\<close>

theorem brane_sessions_accounted:
  assumes "brane_reach (m, log)"
  shows "distinct (map ms_remote_brane (flatten (bg_sessions m))) \<and> distinct (map ms_session_id (flatten (bg_sessions m))) \<and>
    (\<forall>s \<in> set (flatten (bg_sessions m)). ms_state s = Managed_Active \<and> ms_auth_status s = Auth_Authenticated \<and>
       ms_remote_brane s \<in> bn_id ` set (flatten (bg_discovered m))) \<and>
    of_nat (BraneManager_active_session_count m) = bg_total_connections m - bg_total_disconnections m \<and>
    AuditLog_total_events log = bg_total_connections m + bg_total_disconnections m \<and>
    (brane \<notin> bn_id ` set (flatten (bg_discovered m)) \<longrightarrow>
       BraneManager_connect snap tick brane task (m, log) = (Err Brane_NotFound, m, log)) \<and>
    (brane \<in> ms_remote_brane ` set (flatten (bg_sessions m)) \<longrightarrow>
       BraneManager_connect snap tick brane task (m, log) = (Err Brane_AlreadyConnected, m, log))"
proof -
  have ok: "brane_tables_ok m" "brane_links_ok m" "brane_counts_ok m log" using brane_reach_ok [OF assms] by simp_all
  have all: "\<forall>s \<in> set (flatten (bg_sessions m)). ms_state s = Managed_Active" using ok(2) by (simp add: brane_links_ok_def)
  then have count: "BraneManager_active_session_count m = length (flatten (bg_sessions m))"
    by (simp add: BraneManager_active_session_count_def filter_id_conv)
  have unknown: "BraneManager_connect snap tick brane task (m, log) = (Err Brane_NotFound, m, log)"
    if "brane \<notin> bn_id ` set (flatten (bg_discovered m))"
  proof -
    have "List.find (\<lambda>b. bn_id b = brane) (flatten (bg_discovered m)) = None" using that by (auto simp: find_None_iff)
    then show ?thesis by (simp add: BraneManager_connect_def)
  qed
  have connected: "BraneManager_connect snap tick brane task (m, log) = (Err Brane_AlreadyConnected, m, log)"
    if r: "brane \<in> ms_remote_brane ` set (flatten (bg_sessions m))"
  proof -
    have "brane \<in> bn_id ` set (flatten (bg_discovered m))" using r ok(2) by (auto simp: brane_links_ok_def)
    then have "List.find (\<lambda>b. bn_id b = brane) (flatten (bg_discovered m)) \<noteq> None" by (auto simp: find_None_iff)
    then obtain info where "List.find (\<lambda>b. bn_id b = brane) (flatten (bg_discovered m)) = Some info" by blast
    moreover have "list_ex (\<lambda>s. ms_remote_brane s = brane \<and> ms_state s = Managed_Active) (flatten (bg_sessions m))"
      using r all by (auto simp: list_ex_iff)
    ultimately show ?thesis by (simp add: BraneManager_connect_def)
  qed
  show ?thesis using ok count unknown connected
    by (simp add: brane_tables_ok_def table_ok_def brane_links_ok_def brane_counts_ok_def)
qed

theorem brane_sessions_accounted_witness:
  "let m = snd (BraneManager_register_discovered (ascii ''pc'') Brane_Peer Transport_TcpIp 0 100 BraneManager_new)
   in case BraneManager_connect (0, 0) 0 1 7 (m, AuditLog_new) of (r, m', log) \<Rightarrow>
     r = Ok 1 \<and> AuditLog_total_events log = bg_total_connections m' + bg_total_disconnections m' \<and>
     BraneManager_connect (0, 0) 0 9 7 (m', log) = (Err Brane_NotFound, m', log)"
proof -
  define m where "m = snd (BraneManager_register_discovered (ascii ''pc'') Brane_Peer Transport_TcpIp 0 100 BraneManager_new)"
  obtain r m' log where c: "BraneManager_connect (0, 0) 0 1 7 (m, AuditLog_new) = (r, m', log)" by (metis prod_cases3)
  have d: "bn_id ` set (flatten (bg_discovered m)) = {1}" "bg_sessions m = replicate 8 None" "bg_next_session_id m = 1"
    by (simp_all add: m_def BraneManager_register_discovered_def BraneManager_new_def MAX_DISCOVERED_def MAX_BRANE_SESSIONS_def
        Let_def)
  have "brane_reach (m, AuditLog_new)"
    by (rule brane_found [OF brane_start, where r = "fst (BraneManager_register_discovered (ascii ''pc'') Brane_Peer Transport_TcpIp 0 100 BraneManager_new)"])
      (simp_all add: m_def BraneManager_new_def)
  then have reach: "brane_reach (m', log)" by (rule brane_connect [OF _ _ c]) (simp add: d(3))
  have f: "List.find (\<lambda>b. bn_id b = 1) (flatten (bg_discovered m)) \<noteq> None"
    using d(1) imageE [of 1 bn_id "set (flatten (bg_discovered m))"] by (fastforce simp: find_None_iff)
  then have r: "r = Ok 1" "bg_discovered m' = bg_discovered m"
    using c d(2,3) by (auto simp: BraneManager_connect_def add_session_def first_free_replicate Let_def list_ex_iff split: option.splits)
  have "9 \<notin> bn_id ` set (flatten (bg_discovered m'))" using r(2) d(1) by simp
  then show ?thesis using brane_sessions_accounted [OF reach, of 9 "(0, 0)" 0 7] r(1)
    unfolding m_def [symmetric] Let_def c by simp
qed

end
