(* ===== verification/Discovery.thy ===== *)
theory Discovery
  imports Brane_Session Sockets Brane_Manager
begin

text \<open>
  Peer discovery (\<^verbatim>\<open>brane_discovery.rs\<close>): the text packets announced over UDP and the subsystem that ties
  the socket table, the sessions and the brane manager together. A call of the subsystem is one step;
  the locks the code takes inside a call are not split.
\<close>

section \<open>Packets\<close>

definition DISCOVERY_PORT :: u16 where "DISCOVERY_PORT = 9000"

datatype PacketType = Bdp_Announce | Bdp_Discover

fun PacketType_as_str :: "PacketType \<Rightarrow> bytes" where
  "PacketType_as_str Bdp_Announce = ascii ''ANNOUNCE''"
| "PacketType_as_str Bdp_Discover = ascii ''DISCOVER''"

record DiscoveryPacket =
  dp_ptype :: PacketType
  dp_node_id :: bytes
  dp_name :: bytes
  dp_capabilities :: bytes

definition BLANK :: u8 where "BLANK = 0x20"

definition DiscoveryPacket_to_bytes :: "DiscoveryPacket \<Rightarrow> bytes" where
  "DiscoveryPacket_to_bytes p =
     PacketType_as_str (dp_ptype p) @ [BLANK] @ dp_node_id p @ [BLANK] @ dp_name p @ [BLANK] @ dp_capabilities p"

text \<open>\<^verbatim>\<open>str::splitn\<close> at an ASCII character: at most \<^verbatim>\<open>n\<close> parts, the last of which is the rest.\<close>

fun splitn :: "nat \<Rightarrow> u8 \<Rightarrow> bytes \<Rightarrow> bytes list" where
  "splitn 0 c s = []"
| "splitn (Suc 0) c s = [s]"
| "splitn (Suc (Suc n)) c s =
     (if c \<in> set s then takeWhile (\<lambda>b. b \<noteq> c) s # splitn (Suc n) c (tl (dropWhile (\<lambda>b. b \<noteq> c) s)) else [s])"

definition DiscoveryPacket_parse :: "bytes \<Rightarrow> DiscoveryPacket option" where
  "DiscoveryPacket_parse data =
     (if \<not> utf8_valid data then None
      else
        let packet = (\<lambda>p_type rest. case rest of
              node_id # name # others \<Rightarrow>
                Some \<lparr>dp_ptype = p_type, dp_node_id = node_id, dp_name = name,
                      dp_capabilities = (case others of [] \<Rightarrow> [] | capabilities # _ \<Rightarrow> capabilities)\<rparr>
            | _ \<Rightarrow> None)
        in case splitn 4 BLANK data of
             [] \<Rightarrow> None
           | first # rest \<Rightarrow>
               if first = ascii ''ANNOUNCE'' then packet Bdp_Announce rest
               else if first = ascii ''DISCOVER'' then packet Bdp_Discover rest
               else None)"

section \<open>The subsystem\<close>

text \<open>\<^verbatim>\<open>BTreeMap\<close>: pairs in the order of their keys.\<close>

fun btree_insert :: "'k::linorder \<Rightarrow> 'v \<Rightarrow> ('k \<times> 'v) list \<Rightarrow> ('k \<times> 'v) list" where
  "btree_insert k v [] = [(k, v)]"
| "btree_insert k v ((k', v') # xs) =
     (if k < k' then (k, v) # (k', v') # xs else if k = k' then (k, v) # xs else (k', v') # btree_insert k v xs)"

record 'sk DiscoverySubsystem =
  ds_udp_socket_id :: "u32 option"
  ds_node_id_hex :: bytes
  ds_node_name :: bytes
  ds_sessions :: "(u32 \<times> 'sk BraneSession) list"
  ds_node_id_bytes :: bytes

definition DiscoverySubsystem_new :: "'sk DiscoverySubsystem" where
  "DiscoverySubsystem_new = \<lparr>ds_udp_socket_id = None, ds_node_id_hex = [], ds_node_name = [], ds_sessions = [],
     ds_node_id_bytes = replicate 16 0\<rparr>"

text \<open>
  \<^verbatim>\<open>parse_node_id_hex\<close> enumerates characters and slices bytes; a slice that splits a character stops the
  kernel (\<^term>\<open>None\<close>).
\<close>

definition is_char_boundary :: "bytes \<Rightarrow> nat \<Rightarrow> bool" where
  "is_char_boundary s i \<longleftrightarrow> i = 0 \<or> i = length s \<or> i < length s \<and> \<not> utf8_cont (s ! i)"

definition hex_digit :: "u8 \<Rightarrow> u8 option" where
  "hex_digit b =
     (if 0x30 \<le> b \<and> b \<le> 0x39 then Some (b - 0x30)
      else if 0x41 \<le> b \<and> b \<le> 0x46 then Some (b - 0x37)
      else if 0x61 \<le> b \<and> b \<le> 0x66 then Some (b - 0x57)
      else None)"

text \<open>\<^verbatim>\<open>u8::from_str_radix(s, 16)\<close> for a slice of two bytes; a leading plus sign is accepted.\<close>

definition u8_from_hex :: "bytes \<Rightarrow> u8 option" where
  "u8_from_hex s =
     (case s of
        [a, b] \<Rightarrow>
          if a = 0x2B then hex_digit b
          else (case (hex_digit a, hex_digit b) of (Some x, Some y) \<Rightarrow> Some (x * 16 + y) | _ \<Rightarrow> None)
      | _ \<Rightarrow> None)"

fun hex_loop :: "bytes \<Rightarrow> nat list \<Rightarrow> nat \<Rightarrow> bytes \<Rightarrow> (nat \<times> bytes) option" where
  "hex_loop hex [] idx node_id = Some (idx, node_id)"
| "hex_loop hex (i # is) idx node_id =
     (if i mod 2 = 1 then
        if \<not> is_char_boundary hex (i - 1) \<or> \<not> is_char_boundary hex (i + 1) then None
        else case u8_from_hex (slice (i - 1) 2 hex) of
               Some byte \<Rightarrow>
                 if idx < 16 then hex_loop hex is (idx + 1) (node_id[idx := byte]) else hex_loop hex is idx node_id
             | None \<Rightarrow> hex_loop hex is idx node_id
      else hex_loop hex is idx node_id)"

definition DiscoverySubsystem_parse_node_id_hex :: "bytes \<Rightarrow> 'sk DiscoverySubsystem \<Rightarrow> 'sk DiscoverySubsystem option" where
  "DiscoverySubsystem_parse_node_id_hex hex d =
     (let chars = length (filter (\<lambda>b. \<not> utf8_cont b) hex)
      in map_option (\<lambda>(idx, node_id). d\<lparr>ds_node_id_bytes := take idx node_id @ replicate (16 - idx) 0\<rparr>)
           (hex_loop hex [0..<min chars 32] 0 (ds_node_id_bytes d)))"

definition DiscoverySubsystem_init ::
  "bytes \<Rightarrow> bytes \<Rightarrow> 'sk DiscoverySubsystem \<times> SocketTable \<Rightarrow>
     ((unit, SocketError) result \<times> 'sk DiscoverySubsystem \<times> SocketTable) option" where
  "DiscoverySubsystem_init node_id_hex node_name = (\<lambda>(d, table).
     case DiscoverySubsystem_parse_node_id_hex node_id_hex (d\<lparr>ds_node_id_hex := node_id_hex, ds_node_name := node_name\<rparr>) of
       None \<Rightarrow> None
     | Some d \<Rightarrow>
         (case SocketTable_create Proto_Udp 1 table of
            (Inl e, table) \<Rightarrow> Some (Err e, d, table)
          | (Inr ident, table) \<Rightarrow>
              (case SocketTable_bind ident (replicate 4 0) DISCOVERY_PORT table of
                 (Inl e, table) \<Rightarrow> Some (Err e, d, table)
               | (Inr _, table) \<Rightarrow> Some (Ok (), d\<lparr>ds_udp_socket_id := Some ident\<rparr>, table))))"

text \<open>The ephemeral key of the new session is an argument.\<close>

definition DiscoverySubsystem_initiate_handshake ::
  "'sk EphemeralKey \<Rightarrow> bytes \<Rightarrow> u16 \<Rightarrow> 'sk DiscoverySubsystem \<times> SocketTable \<Rightarrow>
     (u32, SocketError) result \<times> 'sk DiscoverySubsystem \<times> SocketTable" where
  "DiscoverySubsystem_initiate_handshake key peer_ip peer_port = (\<lambda>(d, table).
     case SocketTable_create Proto_Tcp 1 table of
       (Inl e, table) \<Rightarrow> (Err e, d, table)
     | (Inr tcp_socket_id, table) \<Rightarrow>
         (let (handshake_pkt, session) = BraneSession_build_handshake_init (BraneSession_new tcp_socket_id key)
          in case SocketTable_send_to tcp_socket_id (SessionPacket_to_bytes handshake_pkt) peer_ip peer_port table of
               (Inl e, table) \<Rightarrow> (Err e, d, table)
             | (Inr _, table) \<Rightarrow>
                 (Ok tcp_socket_id, d\<lparr>ds_sessions := btree_insert tcp_socket_id session (ds_sessions d)\<rparr>, table)))"

text \<open>The error texts; \<^verbatim>\<open>From<SessionError>\<close> for the errors of a session.\<close>

fun SessionError_str :: "SessionError \<Rightarrow> bytes" where
  "SessionError_str Session_InvalidState = ascii ''Invalid session state''"
| "SessionError_str Session_InvalidPayloadSize = ascii ''Invalid payload size''"
| "SessionError_str Session_DecryptionFailed = ascii ''Decryption failed''"
| "SessionError_str Session_SerializationError = ascii ''Serialization error''"
| "SessionError_str Session_CryptoEngineNotReady = ascii ''Crypto engine not ready''"
| "SessionError_str Session_UnexpectedPacket = ascii ''Unexpected packet type''"

definition DiscoverySubsystem_process_session_data ::
  "'sk primitives \<Rightarrow> u64 \<Rightarrow> u32 \<Rightarrow> bytes \<Rightarrow> 'sk DiscoverySubsystem \<Rightarrow>
     (unit, bytes) result \<times> 'sk DiscoverySubsystem" where
  "DiscoverySubsystem_process_session_data P now socket_id data d =
     (case map_of (ds_sessions d) socket_id of
        None \<Rightarrow> (Err (ascii ''Session not found''), d)
      | Some session \<Rightarrow>
          (let store = (\<lambda>session. d\<lparr>ds_sessions := btree_insert socket_id session (ds_sessions d)\<rparr>);
               question = (\<lambda>(r, session). (case r of Inl e \<Rightarrow> Err (SessionError_str e) | Inr _ \<Rightarrow> Ok (), store session))
           in case SessionPacket_parse data of
                None \<Rightarrow> (Err (ascii ''Failed to parse packet''), d)
              | Some (pkt, _) \<Rightarrow>
                  (case sp_ptype pkt of
                     Packet_HandshakeResponse \<Rightarrow> question (BraneSession_process_handshake_response P (sp_payload pkt) session)
                   | Packet_CapabilityExchange \<Rightarrow> question (BraneSession_process_capability_exchange now (sp_payload pkt) session)
                   | Packet_EncryptedData \<Rightarrow>
                       (case BraneSession_decrypt_payload P (sp_payload pkt) session of
                          (r, session) \<Rightarrow>
                            (case r of Inl _ \<Rightarrow> Err (ascii ''Decryption failed'') | Inr _ \<Rightarrow> Ok (), store session))
                   | _ \<Rightarrow> (Err (ascii ''Unexpected packet type''), d))))"

definition DiscoverySubsystem_send_capabilities ::
  "u64 \<Rightarrow> u32 \<Rightarrow> 'sk DiscoverySubsystem \<times> SocketTable \<Rightarrow> (unit, bytes) result \<times> 'sk DiscoverySubsystem \<times> SocketTable" where
  "DiscoverySubsystem_send_capabilities now socket_id = (\<lambda>(d, table).
     case map_of (ds_sessions d) socket_id of
       None \<Rightarrow> (Err (ascii ''Session not found''), d, table)
     | Some session \<Rightarrow>
         (case BraneSession_build_capability_exchange now (ds_node_id_bytes d) session of
            (Inl _, session) \<Rightarrow>
              (Err (ascii ''Failed to build capability exchange''),
               d\<lparr>ds_sessions := btree_insert socket_id session (ds_sessions d)\<rparr>, table)
          | (Inr pkt, session) \<Rightarrow>
              (Ok (), d\<lparr>ds_sessions := btree_insert socket_id session (ds_sessions d)\<rparr>,
               snd (SocketTable_send socket_id (SessionPacket_to_bytes pkt) table))))"

definition DiscoverySubsystem_list_sessions :: "'sk DiscoverySubsystem \<Rightarrow> (u32 \<times> bool) list" where
  "DiscoverySubsystem_list_sessions d = map (\<lambda>(i, session). (i, BraneSession_is_established session)) (ds_sessions d)"

definition DiscoverySubsystem_broadcast_announce ::
  "'sk DiscoverySubsystem \<Rightarrow> SocketTable \<Rightarrow> (unit, SocketError) result \<times> SocketTable" where
  "DiscoverySubsystem_broadcast_announce d table =
     (case ds_udp_socket_id d of
        None \<Rightarrow> (Err Socket_InvalidState, table)
      | Some ident \<Rightarrow>
          (let packet = \<lparr>dp_ptype = Bdp_Announce, dp_node_id = ds_node_id_hex d, dp_name = ds_node_name d,
                         dp_capabilities = ascii ''Core,Session,Network''\<rparr>
           in SocketTable_send_to ident (DiscoveryPacket_to_bytes packet) (replicate 4 255) DISCOVERY_PORT table))"

text \<open>The buffer handed to \<^verbatim>\<open>recv_from\<close> keeps its zero bytes.\<close>

definition DiscoverySubsystem_poll :: "'sk DiscoverySubsystem \<Rightarrow> SocketTable \<Rightarrow> BraneManager \<Rightarrow> BraneManager" where
  "DiscoverySubsystem_poll d table m =
     (case ds_udp_socket_id d of
        None \<Rightarrow> m
      | Some ident \<Rightarrow>
          (case SocketTable_recv_from ident table of
             Inl _ \<Rightarrow> m
           | Inr (len, remote) \<Rightarrow>
               (case DiscoveryPacket_parse (take len (replicate 1024 0)) of
                  None \<Rightarrow> m
                | Some packet \<Rightarrow>
                    if dp_node_id packet = ds_node_id_hex d then m
                    else snd (BraneManager_register_discovered (dp_name packet) Brane_Peer Transport_TcpIp 0 100 m))))"

section \<open>The wire format\<close>

lemma splitn_prefix: "c \<notin> set xs \<Longrightarrow> splitn (Suc (Suc n)) c (xs @ c # ys) = xs # splitn (Suc n) c ys"
proof -
  assume c: "c \<notin> set xs"
  have t: "takeWhile (\<lambda>b. b \<noteq> c) (xs @ c # ys) = xs" using c by (subst takeWhile_append2) auto
  have d: "dropWhile (\<lambda>b. b \<noteq> c) (xs @ c # ys) = c # ys" using c by (subst dropWhile_append2) auto
  show ?thesis by (simp only: splitn.simps(3) t d list.sel(3)) simp
qed

lemma packet_words: "BLANK \<notin> set (PacketType_as_str t)" "utf8_valid (PacketType_as_str t)"
  by (cases t; simp add: ascii_def BLANK_def ascii_utf8_valid)+

section \<open>Handshakes over the socket table\<close>

lemma find_position: "List.find P xs = map_option ((!) xs) (position P xs)"
  by (induction xs) (auto simp: option.map_comp comp_def)

lemma with_socket_refused:
  assumes "SocketTable_get t i = Some s" "f s = Err e"
  shows "with_socket i f t = (Err e, t)"
  using assms by (auto simp: with_socket_def SocketTable_get_def SocketTable_get_mut_def find_position)

lemma created_socket:
  assumes "sockets_ok t" "SocketTable_create p pid t = (Ok i, t')"
  shows "SocketTable_get t' i = Some (sock_mk (p, pid) i)"
    "SocketTable_active_count t' = SocketTable_active_count t + 1"
proof -
  have add: "sock_add (p, pid) t = Some (i, t')" using socket_create_cases [OF assms(2)] by auto
  show "SocketTable_get t' i = Some (sock_mk (p, pid) i)" using socks.add_lookup [OF assms(1) add] by (simp add: get_lookup)
  show "SocketTable_active_count t' = SocketTable_active_count t + 1"
    using socks.add_count(1) [OF add] by (simp add: SocketTable_active_count_def flatten_socket_slots)
qed

lemma initiate_fails:
  assumes "sockets_ok t" "DiscoverySubsystem_initiate_handshake key ip port (d, t) = (r, d', t')"
  shows "d' = d" "(r = Err Socket_TableFull \<and> t' = t \<and> first_free (socket_slots t) = None) \<or>
     (r = Err Socket_InvalidState \<and> SocketTable_active_count t' = SocketTable_active_count t + 1 \<and>
      SocketTable_create Proto_Tcp 1 t = (Ok (st_next_id t), t'))"
proof -
  have "d' = d \<and> ((r = Err Socket_TableFull \<and> t' = t \<and> first_free (socket_slots t) = None) \<or>
     (r = Err Socket_InvalidState \<and> SocketTable_active_count t' = SocketTable_active_count t + 1 \<and>
      SocketTable_create Proto_Tcp 1 t = (Ok (st_next_id t), t')))"
  proof (cases "SocketTable_create Proto_Tcp 1 t")
    case (Pair c t1)
    from socket_create_cases [OF Pair] show ?thesis
    proof
      assume "\<exists>i. c = Ok i \<and> sock_add (Proto_Tcp, 1) t = Some (i, t1)"
      then obtain i where i: "c = Ok i" "sock_add (Proto_Tcp, 1) t = Some (i, t1)" by blast
      have n: "i = st_next_id t" using socks.add_SomeD [OF i(2)] by simp
      note cr = created_socket [OF assms(1) Pair [unfolded i(1)]]
      have "SocketTable_send_to i buf ip port t1 = (Err Socket_InvalidState, t1)" for buf
        unfolding SocketTable_send_to_def by (rule with_socket_refused [OF cr(1)]) (simp add: sock_mk_def)
      then show ?thesis using assms(2) Pair i(1) n cr(2)
        by (auto simp: DiscoverySubsystem_initiate_handshake_def split: prod.splits)
    next
      assume "c = Err Socket_TableFull \<and> t1 = t \<and> sock_add (Proto_Tcp, 1) t = None"
      then show ?thesis using assms(2) Pair socks.add_NoneD [of "(Proto_Tcp, 1)" t]
        by (auto simp: DiscoverySubsystem_initiate_handshake_def)
    qed
  qed
  then show "d' = d" "(r = Err Socket_TableFull \<and> t' = t \<and> first_free (socket_slots t) = None) \<or>
     (r = Err Socket_InvalidState \<and> SocketTable_active_count t' = SocketTable_active_count t + 1 \<and>
      SocketTable_create Proto_Tcp 1 t = (Ok (st_next_id t), t'))" by blast+
qed

text \<open>
  The states of the subsystem with the socket table: its own operations, and any operation of other
  users of the table.
\<close>

inductive discovery_reach :: "'sk DiscoverySubsystem \<times> SocketTable \<Rightarrow> bool" where
  disc_start: "discovery_reach (DiscoverySubsystem_new, SocketTable_new)"
| disc_init: "discovery_reach (d, t) \<Longrightarrow> st_next_id t \<noteq> - 1 \<Longrightarrow>
    DiscoverySubsystem_init hex name (d, t) = Some (r, d', t') \<Longrightarrow> discovery_reach (d', t')"
| disc_handshake: "discovery_reach (d, t) \<Longrightarrow> st_next_id t \<noteq> - 1 \<Longrightarrow>
    DiscoverySubsystem_initiate_handshake key ip port (d, t) = (r, d', t') \<Longrightarrow> discovery_reach (d', t')"
| disc_data: "discovery_reach (d, t) \<Longrightarrow>
    DiscoverySubsystem_process_session_data P now i data d = (r', d') \<Longrightarrow> discovery_reach (d', t)"
| disc_caps: "discovery_reach (d, t) \<Longrightarrow>
    DiscoverySubsystem_send_capabilities now i (d, t) = (r', d', t') \<Longrightarrow> discovery_reach (d', t')"
| disc_announce: "discovery_reach (d, t) \<Longrightarrow>
    DiscoverySubsystem_broadcast_announce d t = (r'', t') \<Longrightarrow> discovery_reach (d, t')"
| disc_others: "discovery_reach (d, t) \<Longrightarrow> socket_step t t' \<Longrightarrow> discovery_reach (d, t')"

lemma discovery_reach_ok: "discovery_reach s \<Longrightarrow> sockets_ok (snd s) \<and> ds_sessions (fst s) = []"
proof (induction rule: discovery_reach.induct)
  case disc_start
  then show ?case using sockets_ok_new by (simp add: DiscoverySubsystem_new_def)
next
  case (disc_init d t hex name r d' t')
  obtain d1 where d1: "DiscoverySubsystem_parse_node_id_hex hex (d\<lparr>ds_node_id_hex := hex, ds_node_name := name\<rparr>) = Some d1"
    using disc_init(3) by (auto simp: DiscoverySubsystem_init_def split: option.splits)
  then have s: "ds_sessions d1 = []"
    using disc_init(4) by (auto simp: DiscoverySubsystem_parse_node_id_hex_def Let_def)
  obtain c t1 where c: "SocketTable_create Proto_Udp 1 t = (c, t1)" by fastforce
  have t1: "sockets_ok t1" using socket_step_ok [OF sock_create [OF disc_init(2) c]] disc_init(4) by simp
  have bind: "sockets_ok (snd (SocketTable_bind i a p t1))" for i a p
    using socket_step_ok [OF sock_bind, of i a p t1 "fst (SocketTable_bind i a p t1)" "snd (SocketTable_bind i a p t1)"] t1 by simp
  show ?case using disc_init(3) d1 s c t1 bind
    by (auto simp: DiscoverySubsystem_init_def split: sum.splits prod.splits) (metis snd_conv)+
next
  case (disc_handshake d t key ip port r d' t')
  then have ok: "sockets_ok t" by simp
  note f = initiate_fails [OF ok disc_handshake(3)]
  have "sockets_ok t'" using f(2) socket_step_ok [OF sock_create [OF disc_handshake(2)] ok] ok by blast
  then show ?case using f(1) disc_handshake(4) by simp
next
  case (disc_data d t P now i data r' d')
  then show ?case by (auto simp: DiscoverySubsystem_process_session_data_def)
next
  case (disc_caps d t now i r' d' t')
  then show ?case by (auto simp: DiscoverySubsystem_send_capabilities_def)
next
  case (disc_announce d t r'' t')
  then show ?case
    by (auto simp: DiscoverySubsystem_broadcast_announce_def Let_def split: option.splits intro: socket_step_ok [OF sock_send_to])
next
  case (disc_others d t t')
  then show ?case using socket_step_ok by auto
qed

section \<open>Properties\<close>

text \<open>
  C25. A discovery packet is parsed back to itself, when its parts are valid UTF-8 and neither the node
  identifier nor the name contains a blank; the list of capabilities may contain blanks.
\<close>

theorem discovery_packet_roundtrip:
  assumes "utf8_valid (dp_node_id p)" "utf8_valid (dp_name p)" "utf8_valid (dp_capabilities p)"
    "BLANK \<notin> set (dp_node_id p)" "BLANK \<notin> set (dp_name p)"
  shows "DiscoveryPacket_parse (DiscoveryPacket_to_bytes p) = Some p"
proof -
  have b: "BLANK < 0x80" by (simp add: BLANK_def)
  have v: "utf8_valid (xs @ BLANK # ys) \<longleftrightarrow> utf8_valid xs \<and> utf8_valid ys" for xs ys
    by (rule utf8_valid_append_ascii [OF b])
  have "splitn 4 BLANK (DiscoveryPacket_to_bytes p) =
      [PacketType_as_str (dp_ptype p), dp_node_id p, dp_name p, dp_capabilities p]"
    using assms(4,5) packet_words(1) [of "dp_ptype p"]
    by (simp add: DiscoveryPacket_to_bytes_def splitn_prefix numeral_eq_Suc del: splitn.simps(3))
  moreover have "utf8_valid (DiscoveryPacket_to_bytes p)"
    using assms(1-3) packet_words(2) [of "dp_ptype p"] by (simp add: DiscoveryPacket_to_bytes_def v)
  ultimately show ?thesis
    by (cases "dp_ptype p") (simp_all add: DiscoveryPacket_parse_def ascii_def)
qed

theorem discovery_packet_roundtrip_witness:
  "let p = \<lparr>dp_ptype = Bdp_Discover, dp_node_id = ascii ''n1'', dp_name = ascii ''pc'', dp_capabilities = ascii ''A B''\<rparr>
   in DiscoveryPacket_parse (DiscoveryPacket_to_bytes p) = Some p"
  using discovery_packet_roundtrip [of "\<lparr>dp_ptype = Bdp_Discover, dp_node_id = ascii ''n1'', dp_name = ascii ''pc'',
      dp_capabilities = ascii ''A B''\<rparr>"]
  by (simp add: ascii_def BLANK_def ascii_utf8_valid Let_def)

text \<open>
  C39. Outgoing handshakes cannot start. In every reachable state of the discovery subsystem and the
  socket table, whatever other users of the table do, a handshake attempt fails: the packet is sent with
  the datagram operation on a socket that was only created, which that operation refuses. The socket stays
  allocated, so every attempt takes a slot until the table is full. Hence no session is ever stored, and
  session data and capability exchanges are always answered with the error that the session does not
  exist.
\<close>

theorem discovery_handshake_never_starts:
  assumes "discovery_reach (d, t)"
  shows "ds_sessions d = [] \<and>
    DiscoverySubsystem_process_session_data P now i data d = (Err (ascii ''Session not found''), d) \<and>
    DiscoverySubsystem_send_capabilities now i (d, t) = (Err (ascii ''Session not found''), d, t) \<and>
    (case DiscoverySubsystem_initiate_handshake key ip port (d, t) of (r, d', t') \<Rightarrow>
       d' = d \<and>
       (if first_free (socket_slots t) = None then r = Err Socket_TableFull \<and> t' = t
        else r = Err Socket_InvalidState \<and> SocketTable_active_count t' = SocketTable_active_count t + 1))"
proof -
  have ok: "sockets_ok t" "ds_sessions d = []" using discovery_reach_ok [OF assms] by simp_all
  obtain r d' t' where h: "DiscoverySubsystem_initiate_handshake key ip port (d, t) = (r, d', t')" by (metis prod_cases3)
  note f = initiate_fails [OF ok(1) h]
  have "first_free (socket_slots t) \<noteq> None" if "SocketTable_create Proto_Tcp 1 t = (Ok (st_next_id t), t')"
    using that by (auto simp: first_free_sockets SocketTable_create_def Let_def split: option.splits)
  then show ?thesis using ok(2) f unfolding h
    by (auto simp: DiscoverySubsystem_process_session_data_def DiscoverySubsystem_send_capabilities_def)
qed

theorem discovery_handshake_never_starts_witness:
  "case DiscoverySubsystem_initiate_handshake \<lparr>ek_secret = (0 :: nat), ek_public = []\<rparr> [10, 0, 2, 2] 9001
     (DiscoverySubsystem_new, SocketTable_new) of
   (r, d', t') \<Rightarrow> r = Err Socket_InvalidState \<and> ds_sessions d' = [] \<and> SocketTable_active_count t' = 1"
proof -
  have "first_free (socket_slots SocketTable_new) \<noteq> None" "SocketTable_active_count SocketTable_new = 0" by code_simp+
  then show ?thesis
    using discovery_handshake_never_starts [OF disc_start, where key = "\<lparr>ek_secret = (0 :: nat), ek_public = []\<rparr>" and
      ip = "[10, 0, 2, 2]" and port = 9001] by (auto split: prod.splits)
qed

end
