(* ===== verification/Madt.thy ===== *)
theory Madt
  imports Byte_Strings
begin

text \<open>
  The parser of the ACPI interrupt controller table (\<^verbatim>\<open>madt.rs\<close>), which decodes bytes given by firmware.
  Every access to the table is bounds-checked as in the source: an index or a slice outside the table is
  \<^term>\<open>None\<close>, the panic of the kernel.
\<close>

section \<open>Data\<close>

record CpuEntry =
  ce_processor_uid :: u32
  ce_apic_id :: u32
  ce_enabled :: bool

record IoApicEntry =
  io_id :: u8
  io_address :: u32
  io_global_irq_base :: u32

record InterruptSourceOverride =
  iso_bus :: u8
  iso_source_irq :: u8
  iso_global_irq :: u32
  iso_flags :: u16

record IsaIrqRoute =
  ir_global_irq :: u32
  ir_active_low :: bool
  ir_level_triggered :: bool

datatype IrqRouteError = Irq_ReservedPolarity | Irq_ReservedTriggerMode

record MadtInfo =
  mi_local_apic_address :: u64
  mi_cpus :: "CpuEntry option list"
  mi_cpu_count :: nat
  mi_io_apics :: "IoApicEntry option list"
  mi_io_apic_count :: nat
  mi_interrupt_overrides :: "InterruptSourceOverride option list"
  mi_interrupt_override_count :: nat

definition MadtInfo_enabled_cpu_count :: "MadtInfo \<Rightarrow> nat" where
  "MadtInfo_enabled_cpu_count info = length (filter ce_enabled (flatten (take (mi_cpu_count info) (mi_cpus info))))"

definition MadtInfo_isa_irq_route :: "MadtInfo \<Rightarrow> u8 \<Rightarrow> (IsaIrqRoute, IrqRouteError) result" where
  "MadtInfo_isa_irq_route info source_irq =
     (case List.find (\<lambda>entry. iso_bus entry = 0 \<and> iso_source_irq entry = source_irq)
             (flatten (take (mi_interrupt_override_count info) (mi_interrupt_overrides info))) of
        None \<Rightarrow> Ok \<lparr>ir_global_irq = ucast source_irq, ir_active_low = False, ir_level_triggered = False\<rparr>
      | Some entry \<Rightarrow>
          (let polarity = iso_flags entry AND 3; trigger = drop_bit 2 (iso_flags entry) AND 3
           in if polarity \<notin> {0, 1, 3} then Err Irq_ReservedPolarity
              else if trigger \<notin> {0, 1, 3} then Err Irq_ReservedTriggerMode
              else Ok \<lparr>ir_global_irq = iso_global_irq entry, ir_active_low = (polarity = 3),
                       ir_level_triggered = (trigger = 3)\<rparr>))"

datatype MadtParseError = Madt_TooShort | Madt_InvalidSignature | Madt_InvalidLength | Madt_InvalidChecksum

section \<open>Parsing\<close>

text \<open>\<^verbatim>\<open>table[i]\<close> and \<^verbatim>\<open>table[a..a + n]\<close> with their bounds checks.\<close>

definition index_checked :: "bytes \<Rightarrow> nat \<Rightarrow> u8 option" where
  "index_checked table i = (if i < length table then Some (table ! i) else None)"

definition slice_checked :: "bytes \<Rightarrow> nat \<Rightarrow> nat \<Rightarrow> bytes option" where
  "slice_checked table a n = (if a + n \<le> length table then Some (slice a n table) else None)"

definition u32_checked :: "bytes \<Rightarrow> nat \<Rightarrow> u32 option" where
  "u32_checked table a = map_option from_le_bytes (slice_checked table a 4)"

definition push_cpu :: "CpuEntry \<Rightarrow> MadtInfo \<Rightarrow> MadtInfo" where
  "push_cpu c info =
     (if mi_cpu_count info < length (mi_cpus info)
      then info\<lparr>mi_cpus := (mi_cpus info)[mi_cpu_count info := Some c], mi_cpu_count := mi_cpu_count info + 1\<rparr>
      else info)"

text \<open>One entry of the table, by its kind; the inner result is an early return of the parser.\<close>

definition parse_entry :: "bytes \<Rightarrow> nat \<Rightarrow> u8 \<Rightarrow> nat \<Rightarrow> MadtInfo \<Rightarrow> (MadtInfo, MadtParseError) result option" where
  "parse_entry table offset kind entry_len info =
     (if kind = 0 then
        if entry_len < 8 then Some (Err Madt_InvalidLength)
        else if mi_cpu_count info < length (mi_cpus info) then
          Option.bind (index_checked table (offset + 2)) (\<lambda>uid.
          Option.bind (index_checked table (offset + 3)) (\<lambda>apic.
          Option.bind (u32_checked table (offset + 4)) (\<lambda>flags.
            Some (Ok (push_cpu \<lparr>ce_processor_uid = ucast uid, ce_apic_id = ucast apic, ce_enabled = (flags AND 1 \<noteq> 0)\<rparr> info)))))
        else Some (Ok info)
      else if kind = 1 then
        if entry_len < 12 then Some (Err Madt_InvalidLength)
        else if mi_io_apic_count info < length (mi_io_apics info) then
          Option.bind (index_checked table (offset + 2)) (\<lambda>ident.
          Option.bind (u32_checked table (offset + 4)) (\<lambda>address.
          Option.bind (u32_checked table (offset + 8)) (\<lambda>base.
            Some (Ok (info\<lparr>mi_io_apics := (mi_io_apics info)[mi_io_apic_count info :=
                              Some \<lparr>io_id = ident, io_address = address, io_global_irq_base = base\<rparr>],
                           mi_io_apic_count := mi_io_apic_count info + 1\<rparr>)))))
        else Some (Ok info)
      else if kind = 2 then
        if entry_len < 10 then Some (Err Madt_InvalidLength)
        else if mi_interrupt_override_count info < length (mi_interrupt_overrides info) then
          Option.bind (index_checked table (offset + 2)) (\<lambda>bus.
          Option.bind (index_checked table (offset + 3)) (\<lambda>source.
          Option.bind (u32_checked table (offset + 4)) (\<lambda>irq.
          Option.bind (slice_checked table (offset + 8) 2) (\<lambda>flags.
            Some (Ok (info\<lparr>mi_interrupt_overrides := (mi_interrupt_overrides info)[mi_interrupt_override_count info :=
                              Some \<lparr>iso_bus = bus, iso_source_irq = source, iso_global_irq = irq,
                                    iso_flags = from_le_bytes flags\<rparr>],
                           mi_interrupt_override_count := mi_interrupt_override_count info + 1\<rparr>))))))
        else Some (Ok info)
      else if kind = 5 then
        if entry_len < 12 then Some (Err Madt_InvalidLength)
        else
          Option.bind (slice_checked table (offset + 4) 8) (\<lambda>address.
            Some (Ok (info\<lparr>mi_local_apic_address := from_le_bytes address\<rparr>)))
      else if kind = 9 then
        if entry_len < 16 then Some (Err Madt_InvalidLength)
        else if mi_cpu_count info < length (mi_cpus info) then
          Option.bind (u32_checked table (offset + 4)) (\<lambda>apic.
          Option.bind (u32_checked table (offset + 12)) (\<lambda>uid.
          Option.bind (u32_checked table (offset + 8)) (\<lambda>flags.
            Some (Ok (push_cpu \<lparr>ce_processor_uid = uid, ce_apic_id = apic, ce_enabled = (flags AND 1 \<noteq> 0)\<rparr> info)))))
        else Some (Ok info)
      else Some (Ok info))"

function parse_entries :: "bytes \<Rightarrow> nat \<Rightarrow> nat \<Rightarrow> MadtInfo \<Rightarrow> (MadtInfo, MadtParseError) result option" where
  "parse_entries table len offset info =
     (if \<not> offset < len then Some (Ok info)
      else if offset + 2 > len then Some (Err Madt_InvalidLength)
      else case index_checked table offset of
        None \<Rightarrow> None
      | Some kind \<Rightarrow>
          (case index_checked table (offset + 1) of
             None \<Rightarrow> None
           | Some l \<Rightarrow>
               if unat l < 2 \<or> offset + unat l > len then Some (Err Madt_InvalidLength)
               else case parse_entry table offset kind (unat l) info of
                      None \<Rightarrow> None
                    | Some r \<Rightarrow>
                        (case r of
                           Inl e \<Rightarrow> Some (Err e)
                         | Inr info \<Rightarrow> parse_entries table len (offset + unat l) info)))"
  by pat_completeness auto

termination
  by (relation "measure (\<lambda>(table, len, offset, info). len - offset)") auto

declare parse_entries.simps [simp del]

definition madt_parse :: "bytes \<Rightarrow> (MadtInfo, MadtParseError) result option" where
  "madt_parse table =
     (if length table < 44 then Some (Err Madt_TooShort)
      else
        Option.bind (slice_checked table 0 4) (\<lambda>signature.
          if signature \<noteq> ascii ''APIC'' then Some (Err Madt_InvalidSignature)
          else Option.bind (u32_checked table 4) (\<lambda>declared.
            let len = unat declared
            in if len < 44 \<or> len > length table then Some (Err Madt_InvalidLength)
               else Option.bind (slice_checked table 0 len) (\<lambda>covered.
                 if fold (\<lambda>b s. s + b) covered 0 \<noteq> 0 then Some (Err Madt_InvalidChecksum)
                 else Option.bind (u32_checked table 36) (\<lambda>address.
                   parse_entries table len 44
                     \<lparr>mi_local_apic_address = ucast address, mi_cpus = replicate 32 None, mi_cpu_count = 0,
                      mi_io_apics = replicate 8 None, mi_io_apic_count = 0,
                      mi_interrupt_overrides = replicate 16 None, mi_interrupt_override_count = 0\<rparr>)))))"

section \<open>The reference: entries as a list\<close>

text \<open>
  The entries of a table as pairs of a kind and a body, and what each contributes. The counters are the
  numbers of entries kept, of which the first 32, 8 and 16 are stored.
\<close>

fun entry_bytes :: "u8 \<times> bytes \<Rightarrow> bytes" where
  "entry_bytes (kind, body) = kind # of_nat (length body + 2) # body"

definition entry_valid :: "u8 \<times> bytes \<Rightarrow> bool" where
  "entry_valid e \<longleftrightarrow> (case e of (kind, body) \<Rightarrow> length body \<le> 253 \<and>
     (kind = 0 \<longrightarrow> 6 \<le> length body) \<and> (kind = 1 \<longrightarrow> 10 \<le> length body) \<and> (kind = 2 \<longrightarrow> 8 \<le> length body) \<and>
     (kind = 5 \<longrightarrow> 10 \<le> length body) \<and> (kind = 9 \<longrightarrow> 14 \<le> length body))"

definition cpu_of :: "u8 \<times> bytes \<Rightarrow> CpuEntry option" where
  "cpu_of e = (case e of (kind, body) \<Rightarrow>
     if kind = 0 then Some \<lparr>ce_processor_uid = ucast (body ! 0), ce_apic_id = ucast (body ! 1),
                            ce_enabled = (from_le_bytes (slice 2 4 body) AND (1 :: u32) \<noteq> 0)\<rparr>
     else if kind = 9 then Some \<lparr>ce_processor_uid = from_le_bytes (slice 10 4 body), ce_apic_id = from_le_bytes (slice 2 4 body),
                                 ce_enabled = (from_le_bytes (slice 6 4 body) AND (1 :: u32) \<noteq> 0)\<rparr>
     else None)"

definition io_apic_of :: "u8 \<times> bytes \<Rightarrow> IoApicEntry option" where
  "io_apic_of e = (case e of (kind, body) \<Rightarrow>
     if kind = 1 then Some \<lparr>io_id = body ! 0, io_address = from_le_bytes (slice 2 4 body),
                            io_global_irq_base = from_le_bytes (slice 6 4 body)\<rparr>
     else None)"

definition override_of :: "u8 \<times> bytes \<Rightarrow> InterruptSourceOverride option" where
  "override_of e = (case e of (kind, body) \<Rightarrow>
     if kind = 2 then Some \<lparr>iso_bus = body ! 0, iso_source_irq = body ! 1, iso_global_irq = from_le_bytes (slice 2 4 body),
                            iso_flags = from_le_bytes (slice 6 2 body)\<rparr>
     else None)"

definition address_of :: "u8 \<times> bytes \<Rightarrow> u64 \<Rightarrow> u64" where
  "address_of e a = (case e of (kind, body) \<Rightarrow> if kind = 5 then from_le_bytes (slice 2 8 body) else a)"

text \<open>The lists an information record holds, and that it is well formed.\<close>

definition madt_ok :: "MadtInfo \<Rightarrow> bool" where
  "madt_ok info \<longleftrightarrow> length (mi_cpus info) = 32 \<and> length (mi_io_apics info) = 8 \<and> length (mi_interrupt_overrides info) = 16 \<and>
     mi_cpu_count info \<le> 32 \<and> mi_io_apic_count info \<le> 8 \<and> mi_interrupt_override_count info \<le> 16"

section \<open>No access leaves the table\<close>

lemma index_checked_Some: "i < length table \<Longrightarrow> index_checked table i = Some (table ! i)"
  by (simp add: index_checked_def)

lemma u32_checked_Some: "a + 4 \<le> length table \<Longrightarrow> \<exists>w. u32_checked table a = Some w"
  by (simp add: u32_checked_def slice_checked_def)

lemma slice_checked_Some: "a + n \<le> length table \<Longrightarrow> slice_checked table a n = Some (slice a n table)"
  by (simp add: slice_checked_def)

lemma push_cpu_ok: "madt_ok info \<Longrightarrow> madt_ok (push_cpu c info)"
  by (simp add: push_cpu_def madt_ok_def)

lemma parse_entry_returns:
  assumes "offset + n \<le> length table" "madt_ok info"
  shows "\<exists>r. parse_entry table offset kind n info = Some r \<and> (\<forall>info'. r = Ok info' \<longrightarrow> madt_ok info')"
proof -
  have u: "\<exists>w. u32_checked table (offset + k) = Some w" if "k + 4 \<le> n" for k
    using u32_checked_Some [of "offset + k" table] that assms(1) by simp
  have i: "index_checked table (offset + k) = Some (table ! (offset + k))" if "k < n" for k
    using index_checked_Some [of "offset + k" table] that assms(1) by simp
  have s: "slice_checked table (offset + k) m = Some (slice (offset + k) m table)" if "k + m \<le> n" for k m
    using slice_checked_Some [of "offset + k" m table] that assms(1) by simp
  consider "kind = 0" | "kind = 1" | "kind = 2" | "kind = 5" | "kind = 9" | "kind \<notin> {0, 1, 2, 5, 9}" by auto
  then show ?thesis
  proof cases
    case 1
    show ?thesis using u [of 4] i [of 2] i [of 3] push_cpu_ok [OF assms(2)] assms(2)
      by (cases "8 \<le> n") (auto simp: parse_entry_def 1)
  next
    case 2
    show ?thesis using u [of 4] u [of 8] i [of 2] assms(2)
      by (cases "12 \<le> n") (auto simp: parse_entry_def 2 madt_ok_def)
  next
    case 3
    show ?thesis using u [of 4] s [of 8 2] i [of 2] i [of 3] assms(2)
      by (cases "10 \<le> n") (auto simp: parse_entry_def 3 madt_ok_def)
  next
    case 4
    show ?thesis using s [of 4 8] assms(2) by (cases "12 \<le> n") (auto simp: parse_entry_def 4 madt_ok_def)
  next
    case 5
    show ?thesis using u [of 4] u [of 8] u [of 12] push_cpu_ok [OF assms(2)] assms(2)
      by (cases "16 \<le> n") (auto simp: parse_entry_def 5)
  next
    case 6
    then show ?thesis using assms(2) by (simp add: parse_entry_def)
  qed
qed

lemma parse_entries_returns:
  assumes "len \<le> length table" "madt_ok info"
  shows "\<exists>r. parse_entries table len offset info = Some r \<and> (\<forall>info'. r = Ok info' \<longrightarrow> madt_ok info')"
  using assms
proof (induction table len offset info rule: parse_entries.induct)
  case (1 table len offset info)
  show ?case
  proof (cases "offset + 2 \<le> len")
    case True
    then have k: "index_checked table offset = Some (table ! offset)" "index_checked table (offset + 1) = Some (table ! (offset + 1))"
      using 1(2) by (simp_all add: index_checked_def)
    let ?n = "unat (table ! (offset + 1))"
    show ?thesis
    proof (cases "?n < 2 \<or> offset + ?n > len")
      case False
      obtain r where r: "parse_entry table offset (table ! offset) ?n info = Some r" "\<forall>info'. r = Ok info' \<longrightarrow> madt_ok info'"
        using parse_entry_returns [of offset ?n table info "table ! offset"] False 1(2,3) by auto
      show ?thesis
      proof (cases r)
        case (Inl e)
        then show ?thesis using r True k False by (subst parse_entries.simps) simp
      next
        case (Inr info')
        then show ?thesis using 1(1) [OF _ _ k False r(1) Inr] r True k False 1(2) by (subst parse_entries.simps) simp
      qed
    qed (use True k in \<open>subst parse_entries.simps; simp\<close>)
  qed (use 1(3) in \<open>subst parse_entries.simps; simp\<close>)
qed

section \<open>Agreement with the reference\<close>

definition fill :: "nat \<Rightarrow> 'a list \<Rightarrow> 'a option list" where
  "fill n xs = map Some (take n xs) @ replicate (n - length xs) None"

lemma length_fill [simp]: "length (fill n xs) = n"
  by (simp add: fill_def)

lemma fill_snoc: "length xs < n \<Longrightarrow> (fill n xs)[length xs := Some y] = fill n (xs @ [y])"
  by (cases "n - length xs") (simp_all add: fill_def list_update_append Suc_diff_Suc [symmetric])

lemma fill_full: "n \<le> length xs \<Longrightarrow> fill n (xs @ ys) = fill n xs"
  by (simp add: fill_def)

definition info_of :: "u64 \<Rightarrow> CpuEntry list \<Rightarrow> IoApicEntry list \<Rightarrow> InterruptSourceOverride list \<Rightarrow> MadtInfo" where
  "info_of a cs is os = \<lparr>mi_local_apic_address = a, mi_cpus = fill 32 cs, mi_cpu_count = min 32 (length cs),
     mi_io_apics = fill 8 is, mi_io_apic_count = min 8 (length is), mi_interrupt_overrides = fill 16 os,
     mi_interrupt_override_count = min 16 (length os)\<rparr>"

definition opt_list :: "'a option \<Rightarrow> 'a list" where
  "opt_list x = (case x of None \<Rightarrow> [] | Some y \<Rightarrow> [y])"

lemma info_of_push:
  "push_cpu c (info_of a cs is os) = info_of a (cs @ [c]) is os"
  by (simp add: push_cpu_def info_of_def fill_snoc fill_full min_def)

text \<open>Reading the body of an entry through the table.\<close>

lemma body_reads:
  assumes "D = pre @ kind # l # body @ post" "m = j + 2"
  shows "j < length body \<Longrightarrow> index_checked D (length pre + m) = Some (body ! j)"
    "j + n \<le> length body \<Longrightarrow> slice_checked D (length pre + m) n = Some (slice j n body)"
    "j + 4 \<le> length body \<Longrightarrow> u32_checked D (length pre + m) = Some (from_le_bytes (slice j 4 body))"
proof -
  show "j < length body \<Longrightarrow> index_checked D (length pre + m) = Some (body ! j)"
    by (simp add: assms index_checked_def nth_append)
  show s: "j + n \<le> length body \<Longrightarrow> slice_checked D (length pre + m) n = Some (slice j n body)" for n
    by (simp add: assms slice_checked_def slice_def)
  show "j + 4 \<le> length body \<Longrightarrow> u32_checked D (length pre + m) = Some (from_le_bytes (slice j 4 body))"
    using s [of 4] by (simp add: u32_checked_def)
qed

lemma parse_entry_reference:
  assumes D: "D = pre @ entry_bytes (kind, body) @ post" and v: "entry_valid (kind, body)"
  shows "parse_entry D (length pre) kind (length body + 2) (info_of a cs is os) =
    Some (Ok (info_of (address_of (kind, body) a) (cs @ opt_list (cpu_of (kind, body))) (is @ opt_list (io_apic_of (kind, body)))
      (os @ opt_list (override_of (kind, body)))))"
proof -
  have D': "D = pre @ kind # of_nat (length body + 2) # body @ post" using D by simp
  note i = body_reads(1) [OF D'] and s = body_reads(2) [OF D'] and u = body_reads(3) [OF D']
  note defs = parse_entry_def address_of_def cpu_of_def io_apic_of_def override_of_def opt_list_def
  consider "kind = 0" | "kind = 1" | "kind = 2" | "kind = 5" | "kind = 9" | "kind \<notin> {0, 1, 2, 5, 9}" by auto
  then show ?thesis
  proof cases
    case 1
    then have "6 \<le> length body" "body \<noteq> []" using v by (auto simp: entry_valid_def)
    then show ?thesis using i [of 2 0] i [of 3 1] u [of 4 2] info_of_push [of _ a cs "is" os]
      by (cases "length cs < 32") (simp_all add: defs 1 info_of_def fill_full)
  next
    case 2
    then have "10 \<le> length body" "body \<noteq> []" using v by (auto simp: entry_valid_def)
    then show ?thesis using i [of 2 0] u [of 4 2] u [of 8 6]
      by (cases "length is < 8") (simp_all add: defs 2 info_of_def fill_snoc fill_full)
  next
    case 3
    then have "8 \<le> length body" "body \<noteq> []" using v by (auto simp: entry_valid_def)
    then show ?thesis using i [of 2 0] i [of 3 1] u [of 4 2] s [of 8 6 2]
      by (cases "length os < 16") (simp_all add: defs 3 info_of_def fill_snoc fill_full)
  next
    case 4
    then have "10 \<le> length body" "body \<noteq> []" using v by (auto simp: entry_valid_def)
    then show ?thesis using s [of 4 2 8] by (simp add: defs 4 info_of_def)
  next
    case 5
    then have "14 \<le> length body" "body \<noteq> []" using v by (auto simp: entry_valid_def)
    then show ?thesis using u [of 4 2] u [of 8 6] u [of 12 10] info_of_push [of _ a cs "is" os]
      by (cases "length cs < 32") (simp_all add: defs 5 info_of_def fill_full)
  next
    case 6
    then show ?thesis by (simp add: defs info_of_def)
  qed
qed

lemma parse_entries_reference:
  assumes "list_all entry_valid es" "D = pre @ concat (map entry_bytes es) @ post" "len = length pre + length (concat (map entry_bytes es))"
  shows "parse_entries D len (length pre) (info_of a cs is os) =
    Some (Ok (info_of (fold address_of es a) (cs @ List.map_filter cpu_of es) (is @ List.map_filter io_apic_of es)
      (os @ List.map_filter override_of es)))"
  using assms
proof (induction es arbitrary: pre a cs "is" os)
  case Nil
  then show ?case by (subst parse_entries.simps) (simp add: List.map_filter_simps)
next
  case (Cons e es)
  obtain kind body where e: "e = (kind, body)" by fastforce
  let ?n = "length body + 2"
  have n: "unat (of_nat ?n :: u8) = ?n" 
    using Cons.prems(1) unfolding unat_of_nat by (simp add: e entry_valid_def)
  have D: "D = pre @ entry_bytes (kind, body) @ concat (map entry_bytes es) @ post" using Cons.prems(2) by (simp add: e)
  have k: "index_checked D (length pre) = Some kind" "index_checked D (length pre + 1) = Some (of_nat ?n)"
    by (simp_all add: D index_checked_def nth_append)
  have len: "length pre + ?n \<le> len" using Cons.prems(3) by (simp add: e)
  have ih: "parse_entries D len (length (pre @ entry_bytes (kind, body))) (info_of a' cs' is' os') =
    Some (Ok (info_of (fold address_of es a') (cs' @ List.map_filter cpu_of es) (is' @ List.map_filter io_apic_of es)
      (os' @ List.map_filter override_of es)))" for a' cs' is' os'
    by (rule Cons.IH) (use Cons.prems in \<open>simp_all add: e\<close>)
  show ?case
    using parse_entry_reference [OF D, of a cs "is" os] Cons.prems(1) k n len ih
    by (subst parse_entries.simps) (auto simp: e opt_list_def List.map_filter_simps split: option.splits)
qed

section \<open>Properties\<close>

text \<open>
  C27. The parser of the interrupt controller table is safe on all input: for every byte string that
  firmware may hand over, it returns after finitely many entries, with a result or one of its errors; no
  access leaves the table and no arithmetic check fails. The counters of a result stay within the fixed
  arrays. A table with another signature, with a declared length that exceeds it, or with a wrong checksum
  is refused.
\<close>

theorem madt_parse_safe:
  "\<exists>r. madt_parse table = Some r \<and> (\<forall>info. r = Ok info \<longrightarrow>
     madt_ok info \<and> slice 0 4 table = ascii ''APIC'' \<and>
     (let len = unat (from_le_bytes (slice 4 4 table) :: u32)
      in 44 \<le> len \<and> len \<le> length table \<and> fold (\<lambda>b s. s + b) (take len table) 0 = 0))"
proof (cases "length table < 44")
  case False
  define info where "info = \<lparr>mi_local_apic_address = ucast (from_le_bytes (slice 36 4 table) :: u32), mi_cpus = replicate 32 None,
    mi_cpu_count = 0, mi_io_apics = replicate 8 None, mi_io_apic_count = 0,
    mi_interrupt_overrides = replicate 16 None, mi_interrupt_override_count = 0\<rparr>"
  let ?len = "unat (from_le_bytes (slice 4 4 table) :: u32)"
  have ok: "madt_ok info" by (simp add: info_def madt_ok_def)
  have r: "slice_checked table 0 4 = Some (slice 0 4 table)" "u32_checked table 4 = Some (from_le_bytes (slice 4 4 table))"
    "u32_checked table 36 = Some (from_le_bytes (slice 36 4 table))"
    using False by (simp_all add: slice_checked_def u32_checked_def)
  have eq: "madt_parse table =
    (if slice 0 4 table \<noteq> ascii ''APIC'' then Some (Err Madt_InvalidSignature)
     else if ?len < 44 \<or> ?len > length table then Some (Err Madt_InvalidLength)
     else if fold (\<lambda>b s. s + b) (take ?len table) 0 \<noteq> 0 then Some (Err Madt_InvalidChecksum)
     else parse_entries table ?len 44 info)"
    using False r by (simp add: madt_parse_def Let_def slice_checked_def slice_def info_def)
  show ?thesis using parse_entries_returns [of ?len table info 44] ok unfolding eq by (auto simp: Let_def)
qed (simp add: madt_parse_def)

theorem madt_parse_safe_witness:
  "let table = ascii ''APIC'' @ [46, 0, 0, 0] @ replicate 28 0 @ [0, 0, 0xE0, 0xFE, 0x56, 0, 0, 0, 0x7F, 2]
   in is_ok (the (madt_parse table)) \<and> madt_ok (projr (the (madt_parse table)))"
proof -
  let ?t = "ascii ''APIC'' @ [46, 0, 0, 0] @ replicate 28 0 @ [0, 0, 0xE0, 0xFE, 0x56, 0, 0, 0, 0x7F, 2] :: bytes"
  have ok: "is_ok (the (madt_parse ?t))" by code_simp
  obtain r where r: "madt_parse ?t = Some r" "\<And>info. r = Ok info \<Longrightarrow> madt_ok info"
    using madt_parse_safe [of ?t] by blast
  then have "madt_ok (projr r)" using ok by (cases r) (auto simp: is_ok_def)
  then show ?thesis unfolding Let_def r(1) option.sel using ok unfolding r(1) option.sel by simp
qed

text \<open>
  C26. The parser agrees with a reference reading of the table. A table that consists of a correct
  header and a sequence of well-formed entries is parsed to: the first 32 processors among the entries of
  kind 0 and 9, the first 8 interrupt controllers of kind 1 and the first 16 overrides of kind 2, each in
  order, with their counts, and the controller address of the last entry of kind 5 or else of the header;
  entries of other kinds are skipped.
\<close>

theorem madt_parse_reference:
  assumes "length header = 44" "slice 0 4 header = ascii ''APIC''" "list_all entry_valid es"
    and "unat (from_le_bytes (slice 4 4 header) :: u32) = 44 + length (concat (map entry_bytes es))"
    and "fold (\<lambda>b s. s + b) (header @ concat (map entry_bytes es)) 0 = 0"
  shows "madt_parse (header @ concat (map entry_bytes es) @ rest) =
    Some (Ok (info_of (fold address_of es (ucast (from_le_bytes (slice 36 4 header) :: u32)))
      (List.map_filter cpu_of es) (List.map_filter io_apic_of es) (List.map_filter override_of es)))"
proof -
  define D where "D = header @ concat (map entry_bytes es) @ rest"
  let ?len = "44 + length (concat (map entry_bytes es))"
  have s: "slice a n D = slice a n header" if "a + n \<le> 44" for a n
    using that assms(1) by (simp add: D_def slice_def)
  have len: "44 \<le> length D" "?len \<le> length D" "take ?len D = header @ concat (map entry_bytes es)"
    using assms(1) by (simp_all add: D_def)
  have start: "\<lparr>mi_local_apic_address = a, mi_cpus = replicate 32 None, mi_cpu_count = 0, mi_io_apics = replicate 8 None,
      mi_io_apic_count = 0, mi_interrupt_overrides = replicate 16 None, mi_interrupt_override_count = 0\<rparr> = info_of a [] [] []" for a
    by (simp add: info_of_def fill_def)
  have "madt_parse D = parse_entries D ?len 44 (info_of (ucast (from_le_bytes (slice 36 4 header) :: u32)) [] [] [])"
    using len s [of 0 4] s [of 4 4] s [of 36 4] assms(2,4,5)
    by (simp add: madt_parse_def slice_checked_def u32_checked_def start slice_def [of 0 ?len] Let_def)
  also have "\<dots> = Some (Ok (info_of (fold address_of es (ucast (from_le_bytes (slice 36 4 header) :: u32)))
      (List.map_filter cpu_of es) (List.map_filter io_apic_of es) (List.map_filter override_of es)))"
    using parse_entries_reference [OF assms(3) D_def, of ?len] assms(1) by simp
  finally show ?thesis unfolding D_def .
qed

theorem madt_parse_reference_witness:
  "let header = ascii ''APIC'' @ [54, 0, 0, 0] @ replicate 28 0 @ [0, 0, 0xE0, 0xFE, 0x3B, 0, 0, 0];
       es = [(0, [7, 3, 1, 0, 0, 0]), (0x7F, [])]
   in madt_parse (header @ concat (map entry_bytes es)) =
     Some (Ok (info_of 0xFEE00000 [\<lparr>ce_processor_uid = 7, ce_apic_id = 3, ce_enabled = True\<rparr>] [] []))"
proof -
  let ?h = "ascii ''APIC'' @ [54, 0, 0, 0] @ replicate 28 0 @ [0, 0, 0xE0, 0xFE, 0x3B, 0, 0, 0] :: bytes"
  let ?es = "[(0, [7, 3, 1, 0, 0, 0]), (0x7F, [])] :: (u8 \<times> bytes) list"
  have "length ?h = 44" "slice 0 4 ?h = ascii ''APIC''" "list_all entry_valid ?es"
    "unat (from_le_bytes (slice 4 4 ?h) :: u32) = 44 + length (concat (map entry_bytes ?es))"
    "fold (\<lambda>b s. s + b) (?h @ concat (map entry_bytes ?es)) 0 = 0" by code_simp+
  from madt_parse_reference [OF this, of "[]"]
  have "madt_parse (?h @ concat (map entry_bytes ?es)) =
     Some (Ok (info_of (fold address_of ?es (ucast (from_le_bytes (slice 36 4 ?h) :: u32)))
      (List.map_filter cpu_of ?es) (List.map_filter io_apic_of ?es) (List.map_filter override_of ?es)))" by simp
  moreover have "fold address_of ?es (ucast (from_le_bytes (slice 36 4 ?h) :: u32)) = 0xFEE00000"
    "List.map_filter cpu_of ?es = [\<lparr>ce_processor_uid = 7, ce_apic_id = 3, ce_enabled = True\<rparr>]"
    "List.map_filter io_apic_of ?es = []" "List.map_filter override_of ?es = []" by code_simp+
  ultimately show ?thesis by (simp only: Let_def)
qed

end
