(* ===== verification/Spec2Isabelle.thy ===== *)
theory Spec2Isabelle
  imports Dispatch Ipc Frame_Alloc Paging Ramfs_Spec Fat32_Fs Brane_Tunnel Discovery Madt
begin

text \<open>
  A verification library for the kernel of braneOS, a Rust kernel for x86-64 in
  \<^verbatim>\<open>src/kernel/src\<close>.

  \<^bold>\<open>The program.\<close> User code enters the kernel through an assembly stub (\<^verbatim>\<open>usermode.rs\<close>), which calls the
  dispatcher (\<^verbatim>\<open>syscall.rs\<close>). The dispatcher finds the caller from the scheduler (\<^verbatim>\<open>sched.rs\<close>) and the
  process table (\<^verbatim>\<open>process.rs\<close>), decides with the capability table (\<^verbatim>\<open>security.rs\<close>) whether the call is
  permitted, runs a handler, records an event in the audit log (\<^verbatim>\<open>audit.rs\<close>) and delivers pending signals
  (\<^verbatim>\<open>signal.rs\<close>). Tasks exchange messages (\<^verbatim>\<open>ipc.rs\<close>) and are switched by \<^verbatim>\<open>context.rs\<close>. Memory is
  managed by a frame allocator and by page-table checks (\<^verbatim>\<open>memory/\<close>). Files are reached through a mount
  table (\<^verbatim>\<open>vfs.rs\<close>) over an in-memory file system (\<^verbatim>\<open>ramfs.rs\<close>) and FAT32 volumes (\<^verbatim>\<open>fat32.rs\<close>) on block
  devices (\<^verbatim>\<open>block.rs\<close>). Kernels on several machines, called branes, find each other
  (\<^verbatim>\<open>brane_discovery.rs\<close>), are managed in \<^verbatim>\<open>brane.rs\<close> and talk over encrypted sessions
  (\<^verbatim>\<open>brane_session.rs\<close>, \<^verbatim>\<open>crypto.rs\<close>) and sockets (\<^verbatim>\<open>socket.rs\<close>). At boot, \<^verbatim>\<open>madt.rs\<close> decodes the
  interrupt controllers from a firmware table.

  \<^bold>\<open>Conventions.\<close> A Rust method \<^verbatim>\<open>Type::method\<close> is \<^verbatim>\<open>Type_method\<close>, a struct is a record and an enum a
  datatype whose names carry a prefix. Integers are words of their width; indices that stay within a
  fixed array are natural numbers. A \<^verbatim>\<open>Result\<close> is a sum with \<^term>\<open>Ok\<close> and \<^term>\<open>Err\<close>. A mutating
  method returns its result and the new state. Where the source can stop by a panic (an index or slice out
  of range, a failed \<^verbatim>\<open>unwrap\<close>) the model has an option type with \<^term>\<open>None\<close> for the panic. Plain
  arithmetic wraps around, as it does in the release profile that the kernel is shipped with; results on
  running identifiers, counters and offsets bound them by hypothesis where the wrap-around matters. Strings are byte lists with UTF-8 validity as a predicate. A global behind a lock is an
  explicit state, since each operation runs with its lock held; what another holder may do in between is
  a step of the reachability relations. Serial output is dropped.

  \<^bold>\<open>Theories.\<close>
    \<^item> \<^verbatim>\<open>Prelude\<close>, \<^verbatim>\<open>Byte_Strings\<close>: checked arithmetic, results, slots, byte strings, UTF-8, little-endian
      integers. \<^verbatim>\<open>Slot_Table\<close>: the contract of the fixed tables with running identifiers
      (\<^verbatim>\<open>id_table\<close>, \<^verbatim>\<open>id_table_del\<close>, \<^verbatim>\<open>keyed_store\<close>), interpreted for capabilities, processes, tasks,
      sockets, discovered branes and brane sessions. \<^verbatim>\<open>Ring\<close>: ring buffers and the contract
      \<^verbatim>\<open>bounded_fifo\<close>, interpreted for message queues.
    \<^item> \<^verbatim>\<open>Syscall_Abi\<close>: call numbers, the mediation table, user ranges. A range is accepted exactly when it
      lies in user space, computed without wrap-around; accepted page checks cover every byte.
    \<^item> \<^verbatim>\<open>Security\<close>, \<^verbatim>\<open>Audit_Log\<close>, \<^verbatim>\<open>Cap_Service\<close>: authority has a granting request, a revoked identifier
      stays revoked, the log is the recent part of the full history, and it accounts for the live
      capabilities.
    \<^item> \<^verbatim>\<open>Process\<close>, \<^verbatim>\<open>Signals\<close>: a held pin freezes an address space; delivery takes the first deliverable
      signal.
    \<^item> \<^verbatim>\<open>Cpu\<close>, \<^verbatim>\<open>Context_Switch\<close>, \<^verbatim>\<open>Usermode\<close>: an executable fragment of x86-64 and the two naked
      functions as instruction lists; both restore what they saved. The argument slots that the entry
      stub reads are not those of the argument registers.
    \<^item> \<^verbatim>\<open>Run_Queue\<close>, \<^verbatim>\<open>Scheduler\<close>, \<^verbatim>\<open>Multicore\<close>, \<^verbatim>\<open>Percpu\<close>: run queues, the cooperative scheduler (a
      ready task runs within 64 ticks; tasks run away from the cursor only after switches prepared from an
      empty slot), assignment of tasks to processors (each is owned once, dispatch is work conserving) and
      context handoffs, those of a removed task included.
    \<^item> \<^verbatim>\<open>Dispatch\<close>: the dispatcher over the kernel state. Complete mediation, one audit event per call,
      termination by a kill signal, the round trip through a signal handler, and the loss of the saved
      context when signals nest.
    \<^item> \<^verbatim>\<open>Ipc\<close>: messages arrive exactly once and in order.
    \<^item> \<^verbatim>\<open>Frame_Alloc\<close>, \<^verbatim>\<open>Paging\<close>: the bitmap refines a set of free frames; a pinned range is mapped.
    \<^item> \<^verbatim>\<open>Vfs\<close>, \<^verbatim>\<open>Ramfs\<close>, \<^verbatim>\<open>Ramfs_Tree\<close>, \<^verbatim>\<open>Ramfs_Spec\<close>: the mount table with the contracts
      \<^verbatim>\<open>readable_fs\<close> and \<^verbatim>\<open>writable_fs\<close>, and the inode array, which refines a file tree for every sequence of
      calls, with the effect of names that do not fit their field spelled out.
    \<^item> \<^verbatim>\<open>Block\<close>, \<^verbatim>\<open>Fat32\<close>, \<^verbatim>\<open>Fat32_Spec\<close>, \<^verbatim>\<open>Fat32_Read\<close>, \<^verbatim>\<open>Fat32_Dir\<close>, \<^verbatim>\<open>Fat32_Fs\<close>: transfers stay on
      the device; an accepted geometry stays on the partition; reading is slicing the cluster chain;
      lookups and listings; endless chains are refused after one cluster more than the volume has; mounted volumes satisfy \<^verbatim>\<open>readable_fs\<close>.
    \<^item> \<^verbatim>\<open>Brane_Session\<close>, \<^verbatim>\<open>Brane_Tunnel\<close>: the session protocol. Wire formats are inverted by their
      parsers, the tunnel delivers, the pairs of key and nonce handed to the cipher are fresh within one
      handshake, until the counter wraps, and repeat across two.
    \<^item> \<^verbatim>\<open>Sockets\<close>, \<^verbatim>\<open>Brane_Manager\<close>, \<^verbatim>\<open>Discovery\<close>: the socket table, the accounts of brane sessions, the
      discovery packets, and why outgoing handshakes never start.
    \<^item> \<^verbatim>\<open>Madt\<close>: the table parser never leaves its input and agrees with a reference reading.

  \<^bold>\<open>Parameters.\<close> Code outside the sources is an argument of the definitions that use it: block device
  drivers and file systems are records of functions (a driver's read observes the state of the hardware and
  does not change it), the page tables are a function from addresses to
  entries, the current tick and processor are values, and the primitives of the external cryptographic
  crates are a record whose laws (commuting key agreement, 32-byte keys, decryption inverts encryption)
  are named hypotheses with an instance. The hardware random source is a sequence of attempts.

  \<^bold>\<open>Bounds and termination.\<close> There is no fuel. Array sizes are those of the source. Loops are structural
  recursions over lists of indices, or functions with a termination measure: the table parser by the
  distance to the end, the cluster loops by the number of clusters the source itself allows. The loop
  that waits for a random number may not end and is a partial function; it is proved to return whenever
  the hardware keeps producing numbers.

  \<^bold>\<open>Not modelled.\<close>
    \<^item> Device drivers, whose meaning is that of hardware registers and of memory shared with a device:
      \<^verbatim>\<open>xhci.rs\<close>, \<^verbatim>\<open>usb_storage.rs\<close>, \<^verbatim>\<open>pci.rs\<close>, \<^verbatim>\<open>pci/interrupts.rs\<close>, \<^verbatim>\<open>virtio.rs\<close>, \<^verbatim>\<open>virtio_block.rs\<close>,
      \<^verbatim>\<open>apic.rs\<close>, \<^verbatim>\<open>pic.rs\<close>, \<^verbatim>\<open>idt.rs\<close>, \<^verbatim>\<open>dma.rs\<close>, \<^verbatim>\<open>keyboard.rs\<close>, \<^verbatim>\<open>serial.rs\<close>, \<^verbatim>\<open>framebuffer.rs\<close>.
    \<^item> Bring-up: \<^verbatim>\<open>smp.rs\<close> (only its processor limit is used), \<^verbatim>\<open>gdt.rs\<close> (only its selectors), \<^verbatim>\<open>acpi.rs\<close>
      apart from the interrupt table, \<^verbatim>\<open>main.rs\<close>, \<^verbatim>\<open>lib.rs\<close>, \<^verbatim>\<open>memory/heap.rs\<close>.
    \<^item> Input and output for people: \<^verbatim>\<open>shell.rs\<close>, \<^verbatim>\<open>tty.rs\<close>, and the formatting functions of the modelled
      components.
    \<^item> \<^verbatim>\<open>net.rs\<close>, an adapter of an external network stack; \<^verbatim>\<open>dns.rs\<close>, \<^verbatim>\<open>module_loader.rs\<close> and \<^verbatim>\<open>ai.rs\<close>,
      self-contained tables of host names, module names and advice that no modelled path calls; the
      long-term identity of \<^verbatim>\<open>crypto.rs\<close>, which only wraps a signature crate.
    \<^item> Of modelled files: the mapping functions of \<^verbatim>\<open>memory/paging.rs\<close>, which call an external mapper; the
      ring-3 demonstration of \<^verbatim>\<open>usermode.rs\<close>; \<^verbatim>\<open>volume_label\<close> of \<^verbatim>\<open>fat32.rs\<close>; \<^verbatim>\<open>session_status\<close> of
      \<^verbatim>\<open>brane_discovery.rs\<close>; accesses that race outside a lock.
\<close>

end
